(* ===== verification/Void_Prelude.thy ===== *)
theory Void_Prelude
  imports Main "HOL-Library.Word"
begin

text \<open>
  Shared ground of the development: the Go integer types as words, the outcome of a Go call
  (a value, a returned error, a run-time panic), slices with Go's bounds rules, and the fixed-width
  byte codecs of \<^verbatim>\<open>encoding/binary\<close> with their round-trip laws.
\<close>

unbundle bit_operations_syntax

section \<open>Types\<close>

type_synonym byte = "8 word"
type_synonym u16 = "16 word"
type_synonym u32 = "32 word"
type_synonym u64 = "64 word"

text \<open>
  An IEEE 754 value is kept as its bit pattern: the gateway moves \<^verbatim>\<open>float32\<close> and \<^verbatim>\<open>float64\<close>
  fields from the wire to the log and never computes with them.
\<close>

type_synonym float32 = "32 word"
type_synonym float64 = "64 word"

named_theorems outcome_simps \<open>rules that run the outcome of a Go call\<close>
named_theorems codec_simps \<open>round trips and lengths of the byte codecs\<close>

section \<open>Outcomes of a Go call\<close>

datatype ('e, 'a) outcome = Ok 'a | Err 'e | Panic

primrec bind_ok :: "('e, 'a) outcome \<Rightarrow> ('a \<Rightarrow> ('e, 'b) outcome) \<Rightarrow> ('e, 'b) outcome" where
  "bind_ok (Ok x) f = f x"
| "bind_ok (Err e) f = Err e"
| "bind_ok Panic f = Panic"

lemma bind_ok_eq_Ok: "bind_ok m f = Ok y \<longleftrightarrow> (\<exists>x. m = Ok x \<and> f x = Ok y)"
  by (cases m) auto

lemma bind_ok_eq_Panic: "bind_ok m f = Panic \<longleftrightarrow> m = Panic \<or> (\<exists>x. m = Ok x \<and> f x = Panic)"
  by (cases m) auto

lemma bind_ok_eq_Err: "bind_ok m f = Err e \<longleftrightarrow> m = Err e \<or> (\<exists>x. m = Ok x \<and> f x = Err e)"
  by (cases m) auto

declare bind_ok_eq_Panic [outcome_simps] bind_ok_eq_Err [outcome_simps]
declare bind_ok.simps [outcome_simps] bind_ok_eq_Ok [outcome_simps]

section \<open>Slices\<close>

text \<open>The bytes \<^verbatim>\<open>xs[lo:hi]\<close> when the bounds are in range.\<close>

definition seg :: "'a list \<Rightarrow> nat \<Rightarrow> nat \<Rightarrow> 'a list" where
  "seg xs lo hi = take (hi - lo) (drop lo xs)"

text \<open>The Go slice expression on integer bounds: a panic unless \<^verbatim>\<open>0 <= lo <= hi <= len\<close>.\<close>

definition go_slice :: "'a list \<Rightarrow> int \<Rightarrow> int \<Rightarrow> ('e, 'a list) outcome" where
  "go_slice xs lo hi =
     (if 0 \<le> lo \<and> lo \<le> hi \<and> hi \<le> int (length xs) then Ok (seg xs (nat lo) (nat hi)) else Panic)"

text \<open>Writing \<^verbatim>\<open>src\<close> at offset \<^verbatim>\<open>off\<close> of \<^verbatim>\<open>dst\<close>: a panic when it does not fit.\<close>

definition put_at :: "nat \<Rightarrow> 'a list \<Rightarrow> 'a list \<Rightarrow> ('e, 'a list) outcome" where
  "put_at off src dst =
     (if off + length src \<le> length dst
      then Ok (take off dst @ src @ drop (off + length src) dst) else Panic)"

lemma length_seg [simp]: "hi \<le> length xs \<Longrightarrow> length (seg xs lo hi) = hi - lo"
  by (simp add: seg_def)

lemma seg_append_left: "hi \<le> length xs \<Longrightarrow> seg (xs @ ys) lo hi = seg xs lo hi"
  by (simp add: seg_def)

lemma seg_append_right:
  "length xs \<le> lo \<Longrightarrow> seg (xs @ ys) lo hi = seg ys (lo - length xs) (hi - length xs)"
  by (simp add: seg_def)

lemma seg_seg:
  "b \<le> hi - lo \<Longrightarrow> seg (seg xs lo hi) a b = seg xs (lo + a) (lo + b)"
  by (simp add: seg_def drop_take min_def add.commute)

lemma seg_zero: "seg xs 0 hi = take hi xs"
  by (simp add: seg_def)

lemma seg_take: "hi \<le> n \<Longrightarrow> seg (take n xs) lo hi = seg xs lo hi"
  by (simp add: seg_def drop_take min_def)

lemma nth_seg: "hi \<le> length xs \<Longrightarrow> i < hi - lo \<Longrightarrow> seg xs lo hi ! i = xs ! (lo + i)"
  by (simp add: seg_def)

lemma go_slice_Ok:
  "lo \<le> hi \<Longrightarrow> hi \<le> length xs \<Longrightarrow> go_slice xs (int lo) (int hi) = Ok (seg xs lo hi)"
  by (simp add: go_slice_def)

lemma seg_join: "lo \<le> m \<Longrightarrow> m \<le> hi \<Longrightarrow> seg xs lo m @ seg xs m hi = seg xs lo hi"
proof -
  assume a: "lo \<le> m" "m \<le> hi"
  have "take (m - lo) (drop lo xs) @ take (hi - m) (drop (m - lo) (drop lo xs))
      = take (m - lo + (hi - m)) (drop lo xs)"
    by (rule take_add [symmetric])
  with a show ?thesis by (simp add: seg_def)
qed

section \<open>Fixed-width integers on the wire\<close>

text \<open>
  \<^verbatim>\<open>encoding/binary\<close> composes an unsigned integer from its bytes with shifts and ORs and takes it
  apart with shifts and truncation.  \<^verbatim>\<open>le_word\<close> and \<^verbatim>\<open>le_bytes\<close> are the little-endian pair,
  \<^verbatim>\<open>be_word\<close> and \<^verbatim>\<open>be_bytes\<close> the big-endian one; the width of the integer is its type.
\<close>

primrec le_word :: "byte list \<Rightarrow> 'a::len word" where
  "le_word [] = 0"
| "le_word (b # bs) = ucast b OR push_bit 8 (le_word bs)"

definition le_bytes :: "nat \<Rightarrow> 'a::len word \<Rightarrow> byte list" where
  "le_bytes n w = map (\<lambda>i. ucast (drop_bit (8 * i) w)) [0..<n]"

definition be_word :: "byte list \<Rightarrow> 'a::len word" where
  "be_word bs = le_word (rev bs)"

definition be_bytes :: "nat \<Rightarrow> 'a::len word \<Rightarrow> byte list" where
  "be_bytes n w = rev (le_bytes n w)"

lemma bit_le_word:
  "bit (le_word bs :: 'a::len word) i \<longleftrightarrow>
     i < LENGTH('a) \<and> i < 8 * length bs \<and> bit (bs ! (i div 8)) (i mod 8)"
proof (induction bs arbitrary: i)
  case Nil
  then show ?case by simp
next
  case (Cons b bs)
  show ?case
  proof (cases "i < 8")
    case True
    then show ?thesis
      by (auto simp: bit_simps)
  next
    case False
    then have "i div 8 = Suc ((i - 8) div 8)" and "i mod 8 = (i - 8) mod 8"
      by (simp_all add: le_div_geq le_mod_geq)
    with False Cons.IH[of "i - 8"] show ?thesis
      by (auto simp: bit_simps dest: bit_imp_le_length)
  qed
qed

lemma length_le_bytes [simp]: "length (le_bytes n w) = n"
  by (simp add: le_bytes_def)

lemma length_be_bytes [simp]: "length (be_bytes n w) = n"
  by (simp add: be_bytes_def)

lemma nth_le_bytes: "i < n \<Longrightarrow> le_bytes n w ! i = ucast (drop_bit (8 * i) w)"
  by (simp add: le_bytes_def)

lemma le_word_le_bytes: "LENGTH('a) \<le> 8 * n \<Longrightarrow> le_word (le_bytes n w) = (w :: 'a::len word)"
proof (rule bit_word_eqI)
  fix i
  assume le: "LENGTH('a) \<le> 8 * n" and i: "i < LENGTH('a)"
  then have "i div 8 < n"
    by auto
  then show "bit (le_word (le_bytes n w) :: 'a word) i \<longleftrightarrow> bit w i"
    using i le by (simp add: bit_le_word nth_le_bytes bit_simps)
qed

lemma le_bytes_le_word:
  assumes "length bs = n" and "8 * n \<le> LENGTH('a)"
  shows "le_bytes n (le_word bs :: 'a::len word) = bs"
proof (rule nth_equalityI)
  show "length (le_bytes n (le_word bs :: 'a word)) = length bs"
    using assms by simp
next
  fix i
  assume "i < length (le_bytes n (le_word bs :: 'a word))"
  then have i: "i < n" by simp
  show "le_bytes n (le_word bs :: 'a word) ! i = bs ! i"
  proof (rule bit_word_eqI)
    fix j
    assume j: "j < LENGTH(8)"
    with i assms have "8 * i + j < LENGTH('a)" "8 * i + j < 8 * length bs"
      by auto
    with i j show "bit (le_bytes n (le_word bs :: 'a word) ! i) j \<longleftrightarrow> bit (bs ! i) j"
      by (simp add: nth_le_bytes bit_simps bit_le_word)
  qed
qed

lemma be_word_be_bytes: "LENGTH('a) \<le> 8 * n \<Longrightarrow> be_word (be_bytes n w) = (w :: 'a::len word)"
  by (simp add: be_word_def be_bytes_def le_word_le_bytes)

lemma be_bytes_be_word:
  "length bs = n \<Longrightarrow> 8 * n \<le> LENGTH('a) \<Longrightarrow> be_bytes n (be_word bs :: 'a::len word) = bs"
  by (simp add: be_word_def be_bytes_def le_bytes_le_word)

lemmas wire_roundtrip [codec_simps] =
  le_word_le_bytes [where 'a = 16 and n = 2, simplified]
  le_word_le_bytes [where 'a = 32 and n = 4, simplified]
  le_word_le_bytes [where 'a = 64 and n = 8, simplified]
  be_word_be_bytes [where 'a = 16 and n = 2, simplified]
  be_word_be_bytes [where 'a = 32 and n = 4, simplified]

text \<open>A fixed-width little-endian encoding is injective: equal bytes carry equal values.\<close>

lemma le_bytes_inject:
  "LENGTH('a) \<le> 8 * n \<Longrightarrow> le_bytes n (v :: 'a::len word) = le_bytes n w \<longleftrightarrow> v = w"
  by (metis le_word_le_bytes)

end
