(* ===== verification/Go_Strings.thy ===== *)
theory Go_Strings
  imports Void_Prelude
begin

text \<open>
  The text forms of Go's standard library that the gateway uses: \<^verbatim>\<open>encoding/hex\<close> in both
  directions, with its errors, and the decimal form of a non-negative \<^verbatim>\<open>big.Int\<close>.
\<close>

section \<open>Hexadecimal\<close>

datatype hex_error = InvalidByteError char | ErrLength

definition hex_char :: "nat \<Rightarrow> char" where
  "hex_char n = (if n < 10 then char_of (48 + n) else char_of (87 + n))"

definition fromHexChar :: "char \<Rightarrow> nat option" where
  "fromHexChar ch = (let n = of_char ch :: nat in
     if 48 \<le> n \<and> n \<le> 57 then Some (n - 48)
     else if 97 \<le> n \<and> n \<le> 102 then Some (n - 87)
     else if 65 \<le> n \<and> n \<le> 70 then Some (n - 55)
     else None)"

definition EncodeToString :: "byte list \<Rightarrow> string" where
  "EncodeToString bs = concat (map (\<lambda>b. [hex_char (unat b div 16), hex_char (unat b mod 16)]) bs)"

fun DecodeString :: "string \<Rightarrow> (hex_error, byte list) outcome" where
  "DecodeString [] = Ok []"
| "DecodeString [a] = (if fromHexChar a = None then Err (InvalidByteError a) else Err ErrLength)"
| "DecodeString (a # b # rest) =
     (case fromHexChar a of None \<Rightarrow> Err (InvalidByteError a)
      | Some h \<Rightarrow> (case fromHexChar b of None \<Rightarrow> Err (InvalidByteError b)
          | Some l \<Rightarrow> bind_ok (DecodeString rest) (\<lambda>bs. Ok (word_of_nat (16 * h + l) # bs))))"

lemma fromHexChar_hex_char: "n < 16 \<Longrightarrow> fromHexChar (hex_char n) = Some n"
  by (simp add: fromHexChar_def hex_char_def Let_def)

lemma nibbles_byte: "word_of_nat (16 * (unat b div 16) + unat b mod 16) = (b :: byte)"
proof -
  have "16 * (unat b div 16) + unat b mod 16 = unat b"
    by (rule mult_div_mod_eq)
  then show ?thesis by (simp only: of_nat_unat ucast_id)
qed

lemma DecodeString_EncodeToString: "DecodeString (EncodeToString bs) = Ok bs"
proof (induction bs)
  case Nil
  then show ?case by (simp add: EncodeToString_def)
next
  case (Cons b bs)
  have "unat b < 256"
    using unsigned_less [where 'a = nat, of b] by simp
  then have "unat b div 16 < 16" by simp
  with Cons show ?case
    by (simp add: EncodeToString_def fromHexChar_hex_char nibbles_byte)
qed

lemma DecodeString_not_Panic: "DecodeString s \<noteq> Panic"
  by (induction s rule: DecodeString.induct) (auto simp: outcome_simps split: option.splits)

lemma length_EncodeToString: "length (EncodeToString bs) = 2 * length bs"
  by (induction bs) (simp_all add: EncodeToString_def)

lemma EncodeToString_inject: "EncodeToString xs = EncodeToString ys \<longleftrightarrow> xs = ys"
  by (metis DecodeString_EncodeToString outcome.inject(1))

section \<open>Decimal\<close>

definition digit_char :: "nat \<Rightarrow> char" where
  "digit_char n = char_of (48 + n)"

fun dec_string :: "nat \<Rightarrow> string" where
  "dec_string n = (if n < 10 then [digit_char n] else dec_string (n div 10) @ [digit_char (n mod 10)])"

declare dec_string.simps [simp del]

definition dec_value :: "string \<Rightarrow> nat" where
  "dec_value s = foldl (\<lambda>v ch. 10 * v + (of_char ch - 48)) 0 s"

lemma dec_value_append: "dec_value (s @ [ch]) = 10 * dec_value s + (of_char ch - 48)"
  by (simp add: dec_value_def)

lemma of_char_digit: "d < 10 \<Longrightarrow> of_char (digit_char d) = (48 + d :: nat)"
  by (simp add: digit_char_def)

lemma dec_value_dec_string: "dec_value (dec_string n) = n"
proof (induction n rule: dec_string.induct)
  case (1 n)
  show ?case
  proof (cases "n < 10")
    case True
    then show ?thesis
      by (subst dec_string.simps) (simp add: dec_value_def of_char_digit)
  next
    case False
    have "dec_value (dec_string n) = 10 * dec_value (dec_string (n div 10)) + n mod 10"
      using False by (subst dec_string.simps) (simp add: dec_value_append of_char_digit)
    also have "\<dots> = 10 * (n div 10) + n mod 10"
      using 1 [OF False] by simp
    finally show ?thesis by simp
  qed
qed

lemma dec_string_inject: "dec_string m = dec_string n \<longleftrightarrow> m = n"
  by (metis dec_value_dec_string)

lemma dec_string_digits: "ch \<in> set (dec_string n) \<Longrightarrow> 48 \<le> (of_char ch :: nat) \<and> of_char ch \<le> (57 :: nat)"
proof (induction n rule: dec_string.induct)
  case (1 n)
  show ?case
  proof (cases "n < 10")
    case True
    with 1(2) show ?thesis
      by (subst (asm) dec_string.simps) (auto simp: of_char_digit)
  next
    case False
    with 1(2) have "ch \<in> set (dec_string (n div 10)) \<or> ch = digit_char (n mod 10)"
      by (subst (asm) dec_string.simps) auto
    with 1(1) [OF False] show ?thesis
      by (auto simp: of_char_digit)
  qed
qed

lemma dec_string_no_bar: "CHR ''|'' \<notin> set (dec_string n)"
  using dec_string_digits [of "CHR ''|''" n] by auto

lemma dec_string_not_Nil: "dec_string n \<noteq> []"
  by (subst dec_string.simps) simp

end
