(* ===== verification/Egress_Scanner.thy ===== *)
theory Egress_Scanner
  imports Go_Strings "HOL-Library.Sublist"
begin

text \<open>
  \<^verbatim>\<open>ground-station/src/egress_json.cpp\<close> and \<^verbatim>\<open>egress_hex.cpp\<close>: the bounded scanner with which the ground
  station reads the gateway's page of receipts, and its hexadecimal decoder.  The body is an array of
  characters and a position an index; a read outside the array is undefined behaviour in C++ and
  \<^verbatim>\<open>Panic\<close> here, and so is a store outside the caller's bucket, record array or frame buffer, whose real
  size is an argument of its own beside the bound the code compares with.  Memory safety is therefore a
  statement of the model.  A failing return is \<^verbatim>\<open>Err\<close>.
\<close>

section \<open>The scanner\<close>

datatype scan_error = ScanFailed

abbreviation dquote :: char where "dquote \<equiv> CHR 0x22"
abbreviation backslash :: char where "backslash \<equiv> CHR 0x5C"

definition char_at :: "string \<Rightarrow> nat \<Rightarrow> char option" where
  "char_at body pos = (if pos < length body then Some (body ! pos) else None)"

definition is_ws :: "char \<Rightarrow> bool" where
  "is_ws c \<longleftrightarrow> c = CHR '' '' \<or> c = CHR 0x09 \<or> c = CHR 0x0A \<or> c = CHR 0x0D"

function skip_ws :: "string \<Rightarrow> nat \<Rightarrow> nat \<Rightarrow> (scan_error, nat) outcome" where
  "skip_ws body pos stop =
     (if pos < stop
      then (case char_at body pos of
              None \<Rightarrow> Panic
            | Some c \<Rightarrow> if \<not> is_ws c then Ok pos else skip_ws body (Suc pos) stop)
      else Ok pos)"
  by pat_completeness auto
termination by (relation "measure (\<lambda>(body, pos, stop). stop - pos)") auto

text \<open>
  \<^verbatim>\<open>extract_string\<close>: the loop stores into the caller's bucket.  \<^verbatim>\<open>out_size\<close> is the size of that array and
  \<^verbatim>\<open>out_max\<close> the bound passed along with the pointer; a store at an index that is not below \<^verbatim>\<open>out_size\<close>, the
  closing NUL included, is \<^verbatim>\<open>Panic\<close>, whatever the function returns later.
\<close>

function extract_loop ::
    "string \<Rightarrow> nat \<Rightarrow> nat \<Rightarrow> nat \<Rightarrow> nat \<Rightarrow> string \<Rightarrow> (scan_error, string \<times> nat) outcome" where
  "extract_loop body pos stop out_size out_max out =
     (if pos < stop
      then (case char_at body pos of
              None \<Rightarrow> Panic
            | Some c \<Rightarrow>
                if c = dquote
                then (if length out \<ge> out_max then Err ScanFailed
                      else if length out \<ge> out_size then Panic
                      else Ok (out, Suc pos))
                else if c = backslash \<and> Suc pos < stop
                then (case char_at body (Suc pos) of
                        None \<Rightarrow> Panic
                      | Some c' \<Rightarrow> if length out + 1 \<ge> out_max then Err ScanFailed
                          else if length out \<ge> out_size then Panic
                          else extract_loop body (Suc (Suc pos)) stop out_size out_max (out @ [c']))
                else if length out + 1 \<ge> out_max then Err ScanFailed
                else if length out \<ge> out_size then Panic
                else extract_loop body (Suc pos) stop out_size out_max (out @ [c]))
      else Err ScanFailed)"
  by pat_completeness auto
termination by (relation "measure (\<lambda>(body, pos, stop, out_size, out_max, out). stop - pos)") auto

definition extract_string ::
    "string \<Rightarrow> nat \<Rightarrow> nat \<Rightarrow> nat \<Rightarrow> nat \<Rightarrow> (scan_error, string \<times> nat) outcome" where
  "extract_string body pos stop out_size out_max =
     (if out_max = 0 then Err ScanFailed
      else if pos \<ge> stop then Err ScanFailed
      else case char_at body pos of
          None \<Rightarrow> Panic
        | Some c \<Rightarrow> if c \<noteq> dquote then Err ScanFailed else extract_loop body (Suc pos) stop out_size out_max [])"

text \<open>The two inner loops of \<^verbatim>\<open>find_and_extract_key\<close>: to the next quote, and past a string.\<close>

function next_quote :: "string \<Rightarrow> nat \<Rightarrow> nat \<Rightarrow> (scan_error, nat) outcome" where
  "next_quote body pos stop =
     (if pos < stop
      then (case char_at body pos of
              None \<Rightarrow> Panic
            | Some c \<Rightarrow> if c \<noteq> dquote then next_quote body (Suc pos) stop else Ok pos)
      else Ok pos)"
  by pat_completeness auto
termination by (relation "measure (\<lambda>(body, pos, stop). stop - pos)") auto

function skip_string :: "string \<Rightarrow> nat \<Rightarrow> nat \<Rightarrow> (scan_error, nat) outcome" where
  "skip_string body pos stop =
     (if pos < stop
      then (case char_at body pos of
              None \<Rightarrow> Panic
            | Some c \<Rightarrow>
                if c = backslash \<and> Suc pos < stop then skip_string body (Suc (Suc pos)) stop
                else if c = dquote then Ok (Suc pos)
                else skip_string body (Suc pos) stop)
      else Ok pos)"
  by pat_completeness auto
termination by (relation "measure (\<lambda>(body, pos, stop). stop - pos)") auto

declare skip_ws.simps [simp del] extract_loop.simps [simp del] next_quote.simps [simp del] skip_string.simps [simp del]

lemma next_quote_ge: "next_quote body pos stop = Ok q \<Longrightarrow> pos \<le> q"
proof (induction "stop - pos" arbitrary: pos rule: less_induct)
  case less
  have IH: "Suc pos \<le> q" if "next_quote body (Suc pos) stop = Ok q" "pos < stop"
    using less.hyps [OF _ that(1)] that(2) by simp
  from less.prems show ?case
    by (auto simp: next_quote.simps [of body pos stop] split: if_splits option.splits dest!: IH)
qed

lemma skip_string_ge: "skip_string body pos stop = Ok q \<Longrightarrow> pos \<le> q"
proof (induction "stop - pos" arbitrary: pos rule: less_induct)
  case less
  have IH: "p \<le> q" if "skip_string body p stop = Ok q" "pos < stop" "pos < p" for p
    using less.hyps [OF _ that(1)] that(2,3) by simp
  from less.prems show ?case
    using IH [of "Suc pos"] IH [of "Suc (Suc pos)"]
    by (simp add: skip_string.simps [of body pos stop] split: if_splits option.splits)
qed

text \<open>From the colon after a matched key to the value.\<close>

definition value_after_key :: "string \<Rightarrow> nat \<Rightarrow> nat \<Rightarrow> nat \<Rightarrow> nat \<Rightarrow> (scan_error, string) outcome" where
  "value_after_key body pos stop out_size out_max =
     (case skip_ws body pos stop of
        Err e \<Rightarrow> Err e
      | Panic \<Rightarrow> Panic
      | Ok p \<Rightarrow>
          if p \<ge> stop then Err ScanFailed
          else case char_at body p of
              None \<Rightarrow> Panic
            | Some c \<Rightarrow>
                if c \<noteq> CHR '':'' then Err ScanFailed
                else bind_ok (skip_ws body (p + 1) stop) (\<lambda>p'.
                  bind_ok (extract_string body p' stop out_size out_max) (\<lambda>(v, _). Ok v)))"

function find_and_extract_key ::
    "string \<Rightarrow> nat \<Rightarrow> nat \<Rightarrow> string \<Rightarrow> nat \<Rightarrow> nat \<Rightarrow> (scan_error, string) outcome" where
  "find_and_extract_key body pos stop key out_size out_max =
     (if pos < stop
      then (case next_quote body pos stop of
              Err e \<Rightarrow> Err e
            | Panic \<Rightarrow> Panic
            | Ok q \<Rightarrow>
                if q \<ge> stop then Err ScanFailed
                else if q + 1 + length key + 1 > stop then Err ScanFailed
                else case char_at body (q + 1 + length key) of
                    None \<Rightarrow> Panic
                  | Some c \<Rightarrow>
                      if c = dquote \<and> seg body (q + 1) (q + 1 + length key) = key
                      then value_after_key body (q + 1 + length key + 1) stop out_size out_max
                      else (case skip_string body (q + 1) stop of
                              Err e \<Rightarrow> Err e
                            | Panic \<Rightarrow> Panic
                            | Ok p \<Rightarrow> find_and_extract_key body p stop key out_size out_max))
      else Err ScanFailed)"
  by pat_completeness auto
termination
  by (relation "measure (\<lambda>(body, pos, stop, key, out_size, out_max). stop - pos)")
    (auto dest!: next_quote_ge skip_string_ge)

function object_end_loop :: "string \<Rightarrow> nat \<Rightarrow> nat \<Rightarrow> int \<Rightarrow> bool \<Rightarrow> (scan_error, nat) outcome" where
  "object_end_loop body pos stop depth in_string =
     (if pos < stop
      then (case char_at body pos of
              None \<Rightarrow> Panic
            | Some c \<Rightarrow>
                if in_string
                then (if c = backslash \<and> Suc pos < stop then object_end_loop body (Suc (Suc pos)) stop depth True
                      else object_end_loop body (Suc pos) stop depth (c \<noteq> dquote))
                else if c = dquote then object_end_loop body (Suc pos) stop depth True
                else if c = CHR ''{'' then object_end_loop body (Suc pos) stop (depth + 1) False
                else if c = CHR ''}''
                then (if depth - 1 = 0 then Ok (Suc pos) else object_end_loop body (Suc pos) stop (depth - 1) False)
                else object_end_loop body (Suc pos) stop depth False)
      else Ok stop)"
  by pat_completeness auto
termination by (relation "measure (\<lambda>(body, pos, stop, depth, in_string). stop - pos)") auto

definition find_object_end :: "string \<Rightarrow> nat \<Rightarrow> nat \<Rightarrow> (scan_error, nat) outcome" where
  "find_object_end body pos stop =
     (if pos \<ge> stop then Ok stop
      else case char_at body pos of
          None \<Rightarrow> Panic
        | Some c \<Rightarrow> if c \<noteq> CHR ''{'' then Ok stop else object_end_loop body pos stop 0 False)"

declare find_and_extract_key.simps [simp del] object_end_loop.simps [simp del]

lemma object_end_loop_ge: "object_end_loop body pos stop d b = Ok q \<Longrightarrow> min pos stop \<le> q"
proof (induction "stop - pos" arbitrary: pos d b rule: less_induct)
  case less
  have IH: "min pos stop \<le> q" if "object_end_loop body p stop d b = Ok q" "pos < stop" "pos < p" for p d b
  proof -
    have "min p stop \<le> q" by (rule less.hyps [OF _ that(1)]) (use that in simp)
    with that show ?thesis by simp
  qed
  from less.prems show ?case
    using IH [of "Suc pos"] IH [of "Suc (Suc pos)"]
    by (simp add: object_end_loop.simps [of body pos stop] split: if_splits option.splits)
qed

lemma find_object_end_gt: "find_object_end body pos stop = Ok q \<Longrightarrow> pos < stop \<Longrightarrow> pos < q"
  using object_end_loop_ge [of body "Suc pos" stop 1 False q]
  by (auto simp: find_object_end_def object_end_loop.simps [of body pos] split: option.splits if_splits)

section \<open>The page\<close>

definition EgressPaymentIdMaxLen :: nat where "EgressPaymentIdMaxLen = 96"
definition EgressTxHashMaxLen :: nat where "EgressTxHashMaxLen = 80"
definition EgressPacketCHexMaxLen :: nat where "EgressPacketCHexMaxLen = 240"

record egress_record =
  eg_payment_id :: string
  eg_settlement_tx_hash :: string
  eg_packet_c_hex :: string

text \<open>
  The three buckets of a \<^verbatim>\<open>Record\<close> are arrays of the declared lengths; the calls pass the same constants as
  their bounds.
\<close>

definition parse_record :: "string \<Rightarrow> nat \<Rightarrow> nat \<Rightarrow> (scan_error, egress_record) outcome" where
  "parse_record body obj_start obj_end =
     bind_ok (find_and_extract_key body obj_start obj_end ''payment_id'' 96 EgressPaymentIdMaxLen) (\<lambda>p.
     bind_ok (find_and_extract_key body obj_start obj_end ''settlement_tx_hash'' 80 EgressTxHashMaxLen) (\<lambda>t.
     bind_ok (find_and_extract_key body obj_start obj_end ''packet_c_hex'' 240 EgressPacketCHexMaxLen) (\<lambda>h.
     Ok \<lparr>eg_payment_id = p, eg_settlement_tx_hash = t, eg_packet_c_hex = h\<rparr>)))"

text \<open>
  What the loop does at one position: the record there, stored at \<^verbatim>\<open>out[count]\<close> of the caller's array of
  \<^verbatim>\<open>max_records\<close> records, and the position after it.
\<close>

definition parse_entry :: "string \<Rightarrow> nat \<Rightarrow> nat \<Rightarrow> nat \<Rightarrow> (scan_error, egress_record \<times> nat) outcome" where
  "parse_entry body pos count max_records =
     (let body_len = length body in
      bind_ok (skip_ws body pos body_len) (\<lambda>obj_start.
      if obj_start \<ge> body_len then Err ScanFailed
      else case char_at body obj_start of
          None \<Rightarrow> Panic
        | Some c \<Rightarrow>
            if c \<noteq> CHR ''{'' then Err ScanFailed
            else bind_ok (find_object_end body obj_start body_len) (\<lambda>obj_end.
              if obj_end \<ge> body_len \<and> (obj_end = body_len \<and> char_at body (body_len - 1) \<noteq> Some (CHR ''}'')) then Err ScanFailed
              else if obj_end = body_len then Err ScanFailed
              else if count \<ge> max_records then Panic
              else bind_ok (parse_record body obj_start obj_end) (\<lambda>r. Ok (r, obj_end)))))"

lemma skip_ws_ge: "skip_ws body pos stop = Ok q \<Longrightarrow> pos \<le> q"
proof (induction "stop - pos" arbitrary: pos rule: less_induct)
  case less
  have IH: "Suc pos \<le> q" if "skip_ws body (Suc pos) stop = Ok q" "pos < stop"
    using less.hyps [OF _ that(1)] that(2) by simp
  from less.prems show ?case
    by (auto simp: skip_ws.simps [of body pos stop] split: if_splits option.splits dest!: IH)
qed

lemma parse_entry_gt: "parse_entry body pos k n = Ok (r, q) \<Longrightarrow> pos < q"
  by (auto simp: parse_entry_def Let_def bind_ok_eq_Ok split: if_splits option.splits
      dest!: skip_ws_ge find_object_end_gt)

function parse_loop :: "string \<Rightarrow> nat \<Rightarrow> nat \<Rightarrow> egress_record list \<Rightarrow> (scan_error, egress_record list) outcome" where
  "parse_loop body pos max_records recs =
     (if pos < length body
      then (case parse_entry body pos (length recs) max_records of
              Err e \<Rightarrow> Err e
            | Panic \<Rightarrow> Panic
            | Ok (r, obj_end) \<Rightarrow>
                if length recs + 1 \<ge> max_records then Ok (recs @ [r])
                else case skip_ws body obj_end (length body) of
                    Err e \<Rightarrow> Err e
                  | Panic \<Rightarrow> Panic
                  | Ok p \<Rightarrow>
                      if p \<ge> length body then Err ScanFailed
                      else case char_at body p of
                          None \<Rightarrow> Panic
                        | Some c \<Rightarrow>
                            if c = CHR '','' then parse_loop body (Suc p) max_records (recs @ [r])
                            else if c = CHR '']'' then Ok (recs @ [r])
                            else Err ScanFailed)
      else Err ScanFailed)"
  by pat_completeness auto
termination
  by (relation "measure (\<lambda>(body, pos, max_records, recs). length body - pos)")
    (auto dest!: parse_entry_gt skip_ws_ge)

declare parse_loop.simps [simp del]

definition parse_pending_response :: "string \<Rightarrow> nat \<Rightarrow> (scan_error, egress_record list) outcome" where
  "parse_pending_response body max_records =
     (let body_len = length body in
      if body_len = 0 \<or> max_records = 0 then Err ScanFailed
      else bind_ok (skip_ws body 0 body_len) (\<lambda>pos.
        if pos \<ge> body_len then Err ScanFailed
        else case char_at body pos of
            None \<Rightarrow> Panic
          | Some c \<Rightarrow>
              if c \<noteq> CHR ''['' then Err ScanFailed
              else bind_ok (skip_ws body (Suc pos) body_len) (\<lambda>pos.
                if pos < body_len \<and> char_at body pos = Some (CHR '']'') then Ok []
                else parse_loop body pos max_records [])))"

section \<open>Hexadecimal\<close>

definition nibble :: "char \<Rightarrow> int" where
  "nibble c = (let n = int (of_char c) in
     if 48 \<le> n \<and> n \<le> 57 then n - 48
     else if 97 \<le> n \<and> n \<le> 102 then n - 97 + 10
     else if 65 \<le> n \<and> n \<le> 70 then n - 65 + 10
     else - 1)"

fun hex_loop :: "string \<Rightarrow> nat \<Rightarrow> nat \<Rightarrow> nat \<Rightarrow> byte list \<Rightarrow> (scan_error, byte list) outcome" where
  "hex_loop hex i 0 out_cap out = Ok out"
| "hex_loop hex i (Suc left) out_cap out =
     (case (char_at hex (i * 2), char_at hex (i * 2 + 1)) of
        (Some a, Some b) \<Rightarrow>
          if nibble a < 0 \<or> nibble b < 0 then Err ScanFailed
          else if length out \<ge> out_cap then Panic
          else hex_loop hex (Suc i) left out_cap (out @ [word_of_int (nibble a * 16 + nibble b)])
      | _ \<Rightarrow> Panic)"

definition hex_decode :: "string \<Rightarrow> nat \<Rightarrow> nat \<Rightarrow> (scan_error, byte list) outcome" where
  "hex_decode hex hex_len out_cap =
     (if odd hex_len then Err ScanFailed
      else if hex_len div 2 > out_cap then Err ScanFailed
      else hex_loop hex 0 (hex_len div 2) out_cap [])"

section \<open>The scanner on the remaining text\<close>

text \<open>
  Within the array every loop is a function of the text between its position and the stop; none reads
  outside.  A position is then given by the length of what is left.
\<close>

lemma seg_step: "pos < stop \<Longrightarrow> stop \<le> length xs \<Longrightarrow> seg xs pos stop = xs ! pos # seg xs (Suc pos) stop"
  by (simp add: seg_def Cons_nth_drop_Suc [symmetric] take_Cons')

lemma seg_empty [simp]: "stop \<le> pos \<Longrightarrow> seg xs pos stop = []"
  by (simp add: seg_def)

lemma char_at_Some: "pos < length body \<Longrightarrow> char_at body pos = Some (body ! pos)"
  by (simp add: char_at_def)

lemma skip_ws_text:
  assumes "stop \<le> length body" and "pos \<le> stop"
  shows "skip_ws body pos stop = Ok (stop - length (dropWhile is_ws (seg body pos stop)))"
  using assms
proof (induction "stop - pos" arbitrary: pos rule: less_induct)
  case less
  show ?case
  proof (cases "pos < stop")
    case True
    with less.prems less.hyps [of "Suc pos"] show ?thesis
      by (simp add: skip_ws.simps [of body pos] char_at_Some seg_step)
  qed (use less.prems in \<open>simp add: skip_ws.simps\<close>)
qed

lemma next_quote_text:
  assumes "stop \<le> length body" and "pos \<le> stop"
  shows "next_quote body pos stop = Ok (stop - length (dropWhile (\<lambda>c. c \<noteq> dquote) (seg body pos stop)))"
  using assms
proof (induction "stop - pos" arbitrary: pos rule: less_induct)
  case less
  show ?case
  proof (cases "pos < stop")
    case True
    with less.prems less.hyps [of "Suc pos"] show ?thesis
      by (simp add: next_quote.simps [of body pos] char_at_Some seg_step)
  qed (use less.prems in \<open>simp add: next_quote.simps\<close>)
qed

fun after_string :: "string \<Rightarrow> string" where
  "after_string [] = []"
| "after_string [c] = []"
| "after_string (c # c' # w) =
     (if c = backslash then after_string w else if c = dquote then c' # w else after_string (c' # w))"

fun string_value :: "nat \<Rightarrow> string \<Rightarrow> string \<Rightarrow> (string \<times> string) option" where
  "string_value m [] out = None"
| "string_value m [c] out =
     (if c = dquote then (if length out < m then Some (out, []) else None) else None)"
| "string_value m (c # c' # w) out =
     (if c = dquote then (if length out < m then Some (out, c' # w) else None)
      else if m \<le> length out + 1 then None
      else if c = backslash then string_value m w (out @ [c']) else string_value m (c' # w) (out @ [c]))"

fun object_rest :: "string \<Rightarrow> int \<Rightarrow> bool \<Rightarrow> string option" where
  "object_rest [] d b = None"
| "object_rest [c] d b = (if \<not> b \<and> c = CHR ''}'' \<and> d = 1 then Some [] else None)"
| "object_rest (c # c' # w) d b =
     (if b then (if c = backslash then object_rest w d True else object_rest (c' # w) d (c \<noteq> dquote))
      else if c = dquote then object_rest (c' # w) d True
      else if c = CHR ''{'' then object_rest (c' # w) (d + 1) False
      else if c = CHR ''}'' then (if d = 1 then Some (c' # w) else object_rest (c' # w) (d - 1) False)
      else object_rest (c' # w) d False)"

lemma skip_string_text:
  assumes "stop \<le> length body" and "pos \<le> stop"
  shows "skip_string body pos stop = Ok (stop - length (after_string (seg body pos stop)))"
  using assms
proof (induction "stop - pos" arbitrary: pos rule: less_induct)
  case less
  consider "pos = stop" | "Suc pos = stop" | "Suc pos < stop" using less.prems by linarith
  then show ?case
  proof cases
    case 3
    with less.prems less.hyps [of "Suc pos"] less.hyps [of "Suc (Suc pos)"] show ?thesis
      by (simp add: skip_string.simps [of body pos] char_at_Some seg_step)
  qed (use less.prems in \<open>simp_all add: skip_string.simps char_at_Some seg_step\<close>)
qed

lemma extract_loop_text:
  assumes "m \<le> out_size" and "stop \<le> length body" and "pos \<le> stop"
  shows "extract_loop body pos stop out_size m out = (case string_value m (seg body pos stop) out of
    None \<Rightarrow> Err ScanFailed | Some (v, rest) \<Rightarrow> Ok (v, stop - length rest))"
  using assms
proof (induction "stop - pos" arbitrary: pos out rule: less_induct)
  case less
  consider "pos = stop" | "Suc pos = stop" | "Suc pos < stop" using less.prems by linarith
  then show ?case
  proof cases
    case 3
    with less.prems less.hyps [of "Suc pos"] less.hyps [of "Suc (Suc pos)"] show ?thesis
      by (simp add: extract_loop.simps [of body pos] char_at_Some seg_step)
  qed (use less.prems in \<open>simp_all add: extract_loop.simps char_at_Some seg_step\<close>)
qed

lemma object_end_text:
  assumes "stop \<le> length body" and "pos \<le> stop"
  shows "object_end_loop body pos stop d b = Ok (case object_rest (seg body pos stop) d b of
    None \<Rightarrow> stop | Some rest \<Rightarrow> stop - length rest)"
  using assms
proof (induction "stop - pos" arbitrary: pos d b rule: less_induct)
  case less
  consider "pos = stop" | "Suc pos = stop" | "Suc pos < stop" using less.prems by linarith
  then show ?case
  proof cases
    case 3
    with less.prems less.hyps [of "Suc pos"] less.hyps [of "Suc (Suc pos)"] show ?thesis
      by (simp add: object_end_loop.simps [of body pos] char_at_Some seg_step)
  qed (use less.prems in \<open>simp_all add: object_end_loop.simps char_at_Some seg_step\<close>)
qed

lemma seg_drop: "seg xs (lo + k) hi = drop k (seg xs lo hi)"
  by (simp add: seg_def drop_take add.commute)

lemma seg_suffix:
  assumes "suffix v (seg xs lo hi)" and "lo \<le> hi" and "hi \<le> length xs"
  shows "seg xs (hi - length v) hi = v" and "lo \<le> hi - length v"
proof -
  obtain u where u: "seg xs lo hi = u @ v" using assms(1) by (auto simp: suffix_def)
  then have len: "length u + length v = hi - lo" using length_seg [OF assms(3), of lo] by simp
  then have "hi - length v = lo + length u" using assms(2) by linarith
  then show "seg xs (hi - length v) hi = v" by (simp only: seg_drop u) simp
  show "lo \<le> hi - length v" using len assms(2) by linarith
qed

lemma suffix_after_string: "suffix (after_string w) w"
  by (induction w rule: after_string.induct) (auto simp: suffix_Cons)

definition value_text :: "nat \<Rightarrow> string \<Rightarrow> string option" where
  "value_text m w = (case dropWhile is_ws w of
     [] \<Rightarrow> None
   | c # w1 \<Rightarrow> if c \<noteq> CHR '':'' then None else (case dropWhile is_ws w1 of
       [] \<Rightarrow> None
     | q # w2 \<Rightarrow> if m = 0 \<or> q \<noteq> dquote then None else map_option fst (string_value m w2 [])))"

function key_value :: "string \<Rightarrow> nat \<Rightarrow> string \<Rightarrow> string option" where
  "key_value key m w = (case dropWhile (\<lambda>c. c \<noteq> dquote) w of
     [] \<Rightarrow> None
   | q # w1 \<Rightarrow>
       if length w1 < length key + 1 then None
       else if take (length key + 1) w1 = key @ [dquote] then value_text m (drop (length key + 1) w1)
       else key_value key m (after_string w1))"
  by pat_completeness auto
termination
proof (relation "measure (\<lambda>(key, m, w). length w)")
  fix key :: string and m :: nat and w q w1
  assume "dropWhile (\<lambda>c. c \<noteq> dquote) w = q # w1"
  then have "length (q # w1) \<le> length w" by (metis length_dropWhile_le)
  then show "((key, m, after_string w1), key, m, w) \<in> measure (\<lambda>(key, m, w). length w)"
    using suffix_length_le [OF suffix_after_string [of w1]] by simp
qed simp

declare key_value.simps [simp del]

text \<open>A position that a loop returned, read as the text that is left.\<close>

lemma left_text:
  assumes "stop \<le> length body" and "pos \<le> stop" and "suffix w (seg body pos stop)"
  shows "seg body (stop - length w) stop = w" and "pos \<le> stop - length w" and "stop - length w \<le> stop"
    and "stop \<le> stop - length w \<longleftrightarrow> w = []"
    and "w \<noteq> [] \<Longrightarrow> char_at body (stop - length w) = Some (hd w)"
    and "w \<noteq> [] \<Longrightarrow> seg body (Suc (stop - length w)) stop = tl w"
proof -
  show s: "seg body (stop - length w) stop = w" and ge: "pos \<le> stop - length w"
    using seg_suffix [OF assms(3,2,1)] by simp_all
  show "stop - length w \<le> stop" by simp
  have "length w \<le> stop - pos" using suffix_length_le [OF assms(3)] length_seg [OF assms(1)] by simp
  then show nil: "stop \<le> stop - length w \<longleftrightarrow> w = []" using assms(2) by (cases w) auto
  assume "w \<noteq> []"
  with nil have lt: "stop - length w < stop" by linarith
  from seg_step [OF lt assms(1)] s have "w = body ! (stop - length w) # seg body (Suc (stop - length w)) stop" by simp
  then have hd: "hd w = body ! (stop - length w)" and tl: "tl w = seg body (Suc (stop - length w)) stop"
    by (metis list.sel(1), metis list.sel(3))
  show "char_at body (stop - length w) = Some (hd w)" using lt assms(1) hd by (simp add: char_at_def)
  show "seg body (Suc (stop - length w)) stop = tl w" by (simp only: tl)
qed

lemma left_Cons:
  assumes "stop \<le> length body" and "pos \<le> stop" and "suffix (c # w) (seg body pos stop)"
  obtains p where "p = stop - length (c # w)" "pos \<le> p" "p < stop" "char_at body p = Some c" "seg body (Suc p) stop = w"
  using left_text [OF assms] that by (simp add: not_le)

lemma skip_ws_Cons:
  assumes "stop \<le> length body" and "pos \<le> stop" and "dropWhile is_ws (seg body pos stop) = c # w"
  obtains p where "skip_ws body pos stop = Ok p" "pos \<le> p" "p < stop" "char_at body p = Some c" "seg body (Suc p) stop = w"
  using left_Cons [OF assms(1,2) suffix_dropWhile [of is_ws "seg body pos stop", unfolded assms(3)]] skip_ws_text [OF assms(1,2)] assms(3) that
  by metis

lemma skip_ws_stay:
  "pos < stop \<Longrightarrow> char_at body pos = Some c \<Longrightarrow> \<not> is_ws c \<Longrightarrow> skip_ws body pos stop = Ok pos"
  by (simp add: skip_ws.simps [of body pos])

lemma skip_ws_Nil:
  "stop \<le> length body \<Longrightarrow> pos \<le> stop \<Longrightarrow> dropWhile is_ws (seg body pos stop) = [] \<Longrightarrow> skip_ws body pos stop = Ok stop"
  using skip_ws_text [of stop body pos] by (metis diff_zero list.size(3))

lemma extract_string_text:
  assumes "m \<le> out_size" and "stop \<le> length body" and "p < stop" and "char_at body p = Some q"
  shows "extract_string body p stop out_size m = (if m = 0 \<or> q \<noteq> dquote then Err ScanFailed
    else case string_value m (seg body (Suc p) stop) [] of
      None \<Rightarrow> Err ScanFailed | Some (v, rest) \<Rightarrow> Ok (v, stop - length rest))"
  using assms by (simp add: extract_string_def extract_loop_text)

lemma value_after_key_text:
  assumes "m \<le> out_size" and "stop \<le> length body" and "pos \<le> stop"
  shows "value_after_key body pos stop out_size m = (case value_text m (seg body pos stop) of
    None \<Rightarrow> Err ScanFailed | Some v \<Rightarrow> Ok v)"
proof (cases "dropWhile is_ws (seg body pos stop)")
  case Nil
  show ?thesis by (simp add: value_after_key_def skip_ws_Nil [OF assms(2,3) Nil] value_text_def Nil)
next
  case c: (Cons c w1)
  obtain p where p: "skip_ws body pos stop = Ok p" "p < stop" "char_at body p = Some c" "seg body (Suc p) stop = w1"
    using skip_ws_Cons [OF assms(2,3) c] .
  have p': "Suc p \<le> stop" using p(2) by simp
  show ?thesis
  proof (cases "dropWhile is_ws w1")
    case Nil
    have "skip_ws body (Suc p) stop = Ok stop" using skip_ws_Nil [OF assms(2) p'] Nil p(4) by simp
    then show ?thesis
      by (simp add: value_after_key_def p c value_text_def extract_string_def Nil)
  next
    case (Cons q w2)
    obtain r where "skip_ws body (Suc p) stop = Ok r" "r < stop" "char_at body r = Some q" "seg body (Suc r) stop = w2"
      using skip_ws_Cons [OF assms(2) p', unfolded p(4), OF Cons] .
    with p show ?thesis
      by (simp add: value_after_key_def c value_text_def Cons extract_string_text [OF assms(1,2)] split: option.split)
  qed
qed

lemma find_and_extract_key_text:
  assumes m: "m \<le> out_size" and "stop \<le> length body" and "pos \<le> stop"
  shows "find_and_extract_key body pos stop key out_size m = (case key_value key m (seg body pos stop) of
    None \<Rightarrow> Err ScanFailed | Some v \<Rightarrow> Ok v)"
  using assms(2,3)
proof (induction "stop - pos" arbitrary: pos rule: less_induct)
  case less
  note fk = find_and_extract_key.simps [of body pos stop key out_size m] key_value.simps [of key m "seg body pos stop"]
  show ?case
  proof (cases "dropWhile (\<lambda>c. c \<noteq> dquote) (seg body pos stop)")
    case Nil
    then have "next_quote body pos stop = Ok stop"
      using next_quote_text [OF less.prems] by (metis diff_zero list.size(3))
    then show ?thesis by (simp add: fk Nil)
  next
    case (Cons c w1)
    obtain q where q: "q = stop - length (c # w1)" "pos \<le> q" "q < stop" "char_at body q = Some c" "seg body (Suc q) stop = w1"
      using left_Cons [OF less.prems suffix_dropWhile [of "\<lambda>c. c \<noteq> dquote" "seg body pos stop", unfolded Cons]] .
    have nq: "next_quote body pos stop = Ok q" using next_quote_text [OF less.prems] Cons q(1) by simp
    have len: "length w1 = stop - Suc q" using length_seg [OF less.prems(1), of "Suc q"] q(5) by simp
    show ?thesis
    proof (cases "stop < q + 1 + length key + 1")
      case True
      then have "length w1 < length key + 1" using len q(3) by linarith
      with True nq Cons q(2,3) show ?thesis by (simp add: fk)
    next
      case False
      let ?k = "q + 1 + length key"
      have room: "\<not> length w1 < length key + 1" using False len by linarith
      have k: "char_at body ?k = Some (w1 ! length key)" "seg body (Suc q) ?k = take (length key) w1"
        "seg body (Suc ?k) stop = drop (Suc (length key)) w1"
        using False less.prems(1) q(5) seg_drop [of body "Suc q" "Suc (length key)" stop]
        by (auto simp: char_at_def seg_def)
      have match: "take (length key + 1) w1 = key @ [dquote] \<longleftrightarrow> w1 ! length key = dquote \<and> take (length key) w1 = key"
        using False len by (auto simp: take_Suc_conv_app_nth)
      have "skip_string body (Suc q) stop = Ok (stop - length (after_string w1))"
        using skip_string_text [OF less.prems(1), of "Suc q"] q(3,5) by simp
      moreover have "Suc q \<le> stop - length (after_string w1)" "seg body (stop - length (after_string w1)) stop = after_string w1"
        using left_text [OF less.prems(1), of "Suc q" "after_string w1"] suffix_after_string [of w1] q(3,5) by simp_all
      moreover have "find_and_extract_key body (stop - length (after_string w1)) stop key out_size m
          = (case key_value key m (after_string w1) of None \<Rightarrow> Err ScanFailed | Some v \<Rightarrow> Ok v)"
        using less.hyps [of "stop - length (after_string w1)"] calculation q(2,3) less.prems(1) by simp
      ultimately show ?thesis
        using False room nq Cons q(2,3) k match value_after_key_text [OF m less.prems(1), of "Suc ?k"]
        by (simp add: fk)
    qed
  qed
qed

section \<open>Memory safety\<close>

definition fits_buckets :: "egress_record \<Rightarrow> bool" where
  "fits_buckets r \<longleftrightarrow> length (eg_payment_id r) < EgressPaymentIdMaxLen \<and>
     length (eg_settlement_tx_hash r) < EgressTxHashMaxLen \<and> length (eg_packet_c_hex r) < EgressPacketCHexMaxLen"

lemma string_value_fits: "string_value m w out = Some (v, rest) \<Longrightarrow> length v < m"
  by (induction m w out rule: string_value.induct) (auto split: if_splits)

lemma key_value_fits: "key_value key m w = Some v \<Longrightarrow> length v < m"
proof (induction key m w rule: key_value.induct)
  case (1 key m w)
  from 1(2) show ?case
    using 1(1) string_value_fits
    by (auto simp: key_value.simps [of key m w] value_text_def split: list.splits if_splits)
qed

lemma parse_record_safe:
  assumes "stop \<le> length body" and "pos \<le> stop"
  shows "case parse_record body pos stop of Ok r \<Rightarrow> fits_buckets r | Err e \<Rightarrow> True | Panic \<Rightarrow> False"
  using key_value_fits
  by (simp add: parse_record_def find_and_extract_key_text [OF _ assms] EgressPaymentIdMaxLen_def EgressTxHashMaxLen_def EgressPacketCHexMaxLen_def fits_buckets_def split: option.split)

lemma parse_entry_safe:
  assumes "pos \<le> length body" and "k < n"
  shows "case parse_entry body pos k n of Ok (r, q) \<Rightarrow> fits_buckets r \<and> q \<le> length body | Err e \<Rightarrow> True | Panic \<Rightarrow> False"
proof (cases "dropWhile is_ws (seg body pos (length body))")
  case Nil
  from skip_ws_Nil [OF _ assms(1) Nil] show ?thesis by (simp add: parse_entry_def Let_def)
next
  case (Cons c w)
  obtain p where p: "skip_ws body pos (length body) = Ok p" "p < length body" "char_at body p = Some c"
    using skip_ws_Cons [OF _ assms(1) Cons] by blast
  have "\<exists>q. find_object_end body p (length body) = Ok q \<and> q \<le> length body"
    using p(2,3) object_end_text [of "length body" body p 0 False]
    by (simp add: find_object_end_def split: option.split)
  then obtain q where q: "find_object_end body p (length body) = Ok q" "q \<le> length body" by blast
  moreover have "p \<le> q" using find_object_end_gt [OF q(1) p(2)] by simp
  ultimately show ?thesis
    using p assms(2) parse_record_safe [of q body p]
    by (auto simp: parse_entry_def Let_def split: outcome.splits)
qed

lemma parse_loop_safe:
  assumes "pos \<le> length body" and "length recs < n" and "list_all fits_buckets recs"
  shows "case parse_loop body pos n recs of
    Ok rs \<Rightarrow> length rs \<le> n \<and> list_all fits_buckets rs | Err e \<Rightarrow> True | Panic \<Rightarrow> False"
  using assms
proof (induction "length body - pos" arbitrary: pos recs rule: less_induct)
  case less
  note pl = parse_loop.simps [of body pos n recs]
  show ?case
  proof (cases "pos < length body \<and> (\<exists>r q. parse_entry body pos (length recs) n = Ok (r, q))")
    case False
    with parse_entry_safe [OF less.prems(1,2)] show ?thesis by (cases "parse_entry body pos (length recs) n") (auto simp: pl)
  next
    case True
    then obtain r q where entry: "parse_entry body pos (length recs) n = Ok (r, q)" and lt: "pos < length body" by blast
    have r: "fits_buckets r" "q \<le> length body" "pos < q"
      using parse_entry_safe [OF less.prems(1,2)] entry parse_entry_gt [OF entry] by simp_all
    obtain p where p: "skip_ws body q (length body) = Ok p" using skip_ws_text [OF _ r(2)] by simp
    have "case parse_loop body (Suc p) n (recs @ [r]) of
        Ok rs \<Rightarrow> length rs \<le> n \<and> list_all fits_buckets rs | Err e \<Rightarrow> True | Panic \<Rightarrow> False"
      if "p < length body" "length recs + 1 < n"
      using that skip_ws_ge [OF p] r less.prems(3) by (intro less.hyps) simp_all
    then show ?thesis
      using entry lt r(1) p less.prems by (simp add: pl char_at_def)
  qed
qed

section \<open>Text without escapes\<close>

definition unescaped :: "string \<Rightarrow> bool" where
  "unescaped s \<longleftrightarrow> list_all (\<lambda>c. c \<noteq> dquote \<and> c \<noteq> backslash) s"

lemma string_value_unescaped:
  "unescaped v \<Longrightarrow> string_value m (v @ dquote # w) out = (if length out + length v < m then Some (out @ v, w) else None)"
proof (induction v arbitrary: out)
  case Nil
  then show ?case by (cases w) simp_all
next
  case (Cons c v)
  then have c: "c \<noteq> dquote" "c \<noteq> backslash" "unescaped v" by (simp_all add: unescaped_def)
  obtain d u where du: "v @ dquote # w = d # u" by (cases v) simp_all
  have "string_value m ((c # v) @ dquote # w) out = (if m \<le> length out + 1 then None else string_value m (v @ dquote # w) (out @ [c]))"
    using c by (simp add: du)
  also have "\<dots> = (if length out + length (c # v) < m then Some (out @ c # v, w) else None)"
    using Cons.IH [OF c(3), of "out @ [c]"] by auto
  finally show ?case .
qed

lemma after_string_unescaped: "unescaped v \<Longrightarrow> after_string (v @ dquote # w) = w"
proof (induction v)
  case Nil
  then show ?case by (cases w) simp_all
next
  case (Cons c v)
  obtain d u where "v @ dquote # w = d # u" by (cases v) simp_all
  with Cons show ?case by (simp add: unescaped_def)
qed

lemma key_value_Nil [simp]: "key_value key m [] = None"
  by (simp add: key_value.simps)

lemma key_value_char: "c \<noteq> dquote \<Longrightarrow> key_value key m (c # w) = key_value key m w"
  by (simp add: key_value.simps [of key m "c # w"] key_value.simps [of key m w])

lemma key_value_chars: "list_all (\<lambda>c. c \<noteq> dquote) v \<Longrightarrow> key_value key m (v @ w) = key_value key m w"
  by (induction v) (simp_all add: key_value_char)

lemma key_value_short: "length w < length key + 2 \<Longrightarrow> key_value key m w = None"
proof -
  assume short: "length w < length key + 2"
  have "length w1 < length key + 1" if "dropWhile (\<lambda>c. c \<noteq> dquote) w = q # w1" for q w1
    using length_dropWhile_le [of "\<lambda>c. c \<noteq> dquote" w] that short by simp
  then show ?thesis by (simp add: key_value.simps [of key m w] split: list.split)
qed

lemma key_value_skip:
  assumes "unescaped v" and "unescaped key" and "v \<noteq> key"
  shows "key_value key m (dquote # v @ dquote # w) = key_value key m w"
proof (cases "length (v @ dquote # w) < length key + 1")
  case True
  then have "length w < length key + 2" by simp
  with True show ?thesis by (simp add: key_value.simps [of key m "dquote # v @ dquote # w"] key_value_short)
next
  case False
  have "take (length key + 1) (v @ dquote # w) \<noteq> key @ [dquote]"
  proof
    assume "take (length key + 1) (v @ dquote # w) = key @ [dquote]"
    then have "key @ dquote # drop (length key + 1) (v @ dquote # w) = v @ dquote # w"
      by (metis append.assoc append_Cons append_Nil append_take_drop_id)
    then have "takeWhile (\<lambda>c. c \<noteq> dquote) (key @ dquote # drop (length key + 1) (v @ dquote # w))
        = takeWhile (\<lambda>c. c \<noteq> dquote) (v @ dquote # w)" by simp
    moreover have "takeWhile (\<lambda>c. c \<noteq> dquote) (u @ dquote # x) = u" if "unescaped u" for u x
      using that by (induction u) (simp_all add: unescaped_def)
    ultimately show False using assms by simp
  qed
  with False show ?thesis
    by (simp add: key_value.simps [of key m "dquote # v @ dquote # w"] after_string_unescaped [OF assms(1)])
qed

lemma key_value_hit:
  assumes "unescaped v" and "0 < m"
  shows "key_value key m (dquote # key @ dquote # CHR '':'' # dquote # v @ dquote # w) = (if length v < m then Some v else None)"
proof -
  have ws: "\<not> is_ws (CHR '':'')" "\<not> is_ws dquote" by (simp_all add: is_ws_def)
  show ?thesis
    using assms(2)
    by (simp add: key_value.simps [of key] value_text_def ws string_value_unescaped [OF assms(1)])
qed

lemma object_rest_char:
  "c \<noteq> dquote \<Longrightarrow> c \<noteq> CHR ''{'' \<Longrightarrow> c \<noteq> CHR ''}'' \<Longrightarrow> object_rest (c # w) d False = object_rest w d False"
  by (cases w) simp_all

lemma object_rest_chars:
  "list_all (\<lambda>c. c \<noteq> dquote \<and> c \<noteq> CHR ''{'' \<and> c \<noteq> CHR ''}'') v \<Longrightarrow> object_rest (v @ w) d False = object_rest w d False"
  by (induction v) (simp_all add: object_rest_char)

lemma object_rest_in_string: "unescaped v \<Longrightarrow> object_rest (v @ dquote # w) d True = object_rest w d False"
proof (induction v)
  case Nil
  then show ?case by (cases w) simp_all
next
  case (Cons c v)
  obtain e u where "v @ dquote # w = e # u" by (cases v) simp_all
  with Cons show ?case by (simp add: unescaped_def)
qed

lemma object_rest_string: "unescaped v \<Longrightarrow> object_rest (dquote # v @ dquote # w) d False = object_rest w d False"
proof -
  assume v: "unescaped v"
  obtain e u where "v @ dquote # w = e # u" by (cases v) simp_all
  with object_rest_in_string [OF v, of w d] show ?thesis by simp
qed

lemma object_rest_braces:
  "object_rest (CHR ''{'' # w) d False = object_rest w (d + 1) False" "w \<noteq> [] \<Longrightarrow> object_rest (CHR ''}'' # w) 1 False = Some w"
  by (cases w; simp)+

section \<open>Hexadecimal text\<close>

lemma nibble_fromHexChar: "nibble c = (case fromHexChar c of None \<Rightarrow> - 1 | Some n \<Rightarrow> int n)"
  by (auto simp: nibble_def fromHexChar_def Let_def of_nat_diff)

lemma hex_loop_DecodeString:
  "length hex = 2 * (i + left) \<Longrightarrow> length out + left \<le> cap \<Longrightarrow> hex_loop hex i left cap out = (case DecodeString (drop (i * 2) hex) of
     Ok bs \<Rightarrow> Ok (out @ bs) | Err e \<Rightarrow> Err ScanFailed | Panic \<Rightarrow> Panic)"
proof (induction left arbitrary: i out)
  case 0
  then show ?case by simp
next
  case (Suc left)
  let ?a = "hex ! (i * 2)" and ?b = "hex ! (i * 2 + 1)"
  have d: "drop (i * 2) hex = ?a # ?b # drop (Suc i * 2) hex"
    using Suc.prems by (simp add: Cons_nth_drop_Suc)
  have c: "char_at hex (i * 2) = Some ?a" "char_at hex (i * 2 + 1) = Some ?b"
    using Suc.prems by (simp_all add: char_at_def)
  have IH: "hex_loop hex (Suc i) left cap (out @ [x]) = (case DecodeString (drop (Suc i * 2) hex) of
     Ok bs \<Rightarrow> Ok ((out @ [x]) @ bs) | Err e \<Rightarrow> Err ScanFailed | Panic \<Rightarrow> Panic)" for x
    using Suc.prems by (intro Suc.IH) simp_all
  show ?case
    unfolding d hex_loop.simps c IH DecodeString.simps
    using Suc.prems(2) by (simp add: nibble_fromHexChar mult.commute split: option.split outcome.split)
qed

lemma DecodeString_length: "DecodeString s = Ok bs \<Longrightarrow> length s = 2 * length bs"
  by (induction s arbitrary: bs rule: DecodeString.induct) (auto simp: bind_ok_eq_Ok split: option.splits if_splits)

text \<open>The decoder agrees with Go's \<^verbatim>\<open>hex.DecodeString\<close>, up to the capacity of the frame buffer.\<close>

lemma hex_decode_DecodeString:
  "hex_decode hex (length hex) cap = (case DecodeString hex of
     Ok bs \<Rightarrow> if length bs \<le> cap then Ok bs else Err ScanFailed | _ \<Rightarrow> Err ScanFailed)"
proof (cases "odd (length hex)")
  case True
  then have "DecodeString hex \<noteq> Ok bs" for bs using DecodeString_length [of hex bs] by auto
  with True DecodeString_not_Panic [of hex] show ?thesis
    by (cases "DecodeString hex") (auto simp: hex_decode_def)
next
  case False
  then have "length hex = 2 * (0 + length hex div 2)" by simp
  from hex_loop_DecodeString [OF this, of "[]" cap] False show ?thesis
    using DecodeString_length [of hex] DecodeString_not_Panic [of hex]
    by (cases "DecodeString hex") (auto simp: hex_decode_def)
qed

section \<open>Properties\<close>

text \<open>
  C21.  The scanner is memory safe.  Whatever bytes the gateway, or anyone in its place, sends as a page, the
  scanner terminates without reading outside the buffer and without storing outside the record array of
  \<^verbatim>\<open>max_records\<close> entries or one of a record's three buckets, on failing paths too, and either fails or returns
  at most \<^verbatim>\<open>max_records\<close> records, each of whose three strings fits its bucket together with the terminating NUL.
\<close>

theorem parse_pending_response_safe:
  "case parse_pending_response body max_records of
     Ok rs \<Rightarrow> length rs \<le> max_records \<and>
       list_all (\<lambda>r. length (eg_payment_id r) + 1 \<le> 96 \<and> length (eg_settlement_tx_hash r) + 1 \<le> 80 \<and>
         length (eg_packet_c_hex r) + 1 \<le> 240) rs
   | Err e \<Rightarrow> True
   | Panic \<Rightarrow> False"
proof (cases "body = [] \<or> max_records = 0")
  case True
  then show ?thesis by (auto simp: parse_pending_response_def Let_def)
next
  case False
  let ?n = "length body"
  have fits: "fits_buckets = (\<lambda>r. length (eg_payment_id r) + 1 \<le> 96 \<and> length (eg_settlement_tx_hash r) + 1 \<le> 80 \<and>
      length (eg_packet_c_hex r) + 1 \<le> 240)"
    by (auto simp: fits_buckets_def EgressPaymentIdMaxLen_def EgressTxHashMaxLen_def EgressPacketCHexMaxLen_def)
  obtain p where p: "skip_ws body 0 ?n = Ok p" using skip_ws_text [of ?n body 0] by simp
  obtain q where q: "p < ?n \<Longrightarrow> skip_ws body (Suc p) ?n = Ok q" "p < ?n \<Longrightarrow> q \<le> ?n"
    using skip_ws_text [of ?n body "Suc p"] that by (cases "p < ?n") simp_all
  show ?thesis
    unfolding fits [symmetric]
    using False p q parse_loop_safe [of q body "[]" max_records]
    by (simp add: parse_pending_response_def Let_def char_at_def)
qed

end
