(* ===== verification/Receipt_Store.thy ===== *)
theory Receipt_Store
  imports Go_Strings "HOL-Library.AList"
begin

text \<open>
  \<^verbatim>\<open>core/receipt/store.go\<close>: the append-only JSONL receipt store.  The state is the Go struct's (the
  record cache, the drain order, whether the handle is open) together with the bytes of the file.
  The JSON encoder and decoder are a parameter; \<^verbatim>\<open>json_ok\<close> names what the store relies on of them.
  What the operating system does with a write is an argument of the writing operations.
\<close>

section \<open>Records and the JSON codec\<close>

record receipt_record =
  PaymentID :: string
  SettlementTxHash :: string
  rc_SatID :: u32
  rc_Amount :: string
  AssetID :: u16
  rc_Wallet :: string
  PacketCHex :: string
  rc_BlockNumber :: u64
  TsMs :: "64 word"
  DispatchStatus :: string

definition StatusPending :: string where "StatusPending = ''PENDING''"
definition StatusDispatched :: string where "StatusDispatched = ''DISPATCHED''"

definition newline :: char where "newline = CHR 0x0A"
definition carriage_return :: char where "carriage_return = CHR 0x0D"

record json_codec =
  Marshal :: "receipt_record \<Rightarrow> string option"
  Unmarshal :: "string \<Rightarrow> (string, receipt_record) outcome"

text \<open>
  \<^verbatim>\<open>encoding/json\<close> on records whose strings are ASCII: the encoding is one line without control
  characters, decoding it gives the record back, and no proper beginning of it is valid JSON.
\<close>

definition ascii :: "string \<Rightarrow> bool" where
  "ascii s \<longleftrightarrow> list_all (\<lambda>c. of_char c < (128 :: nat)) s"

definition ascii_record :: "receipt_record \<Rightarrow> bool" where
  "ascii_record r \<longleftrightarrow> ascii (PaymentID r) \<and> ascii (SettlementTxHash r) \<and> ascii (rc_Amount r) \<and>
     ascii (rc_Wallet r) \<and> ascii (PacketCHex r) \<and> ascii (DispatchStatus r)"

definition json_ok :: "json_codec \<Rightarrow> bool" where
  "json_ok js \<longleftrightarrow> (\<forall>r. ascii_record r \<longrightarrow> (\<exists>line. Marshal js r = Some line \<and> line \<noteq> [] \<and>
     newline \<notin> set line \<and> carriage_return \<notin> set line \<and> Unmarshal js line = Ok r \<and>
     (\<forall>n. 0 < n \<longrightarrow> n < length line \<longrightarrow> (\<exists>e. Unmarshal js (take n line) = Err e))))"

section \<open>The store\<close>

datatype store_error =
    ErrDuplicate
  | ErrUnknown
  | OpenError string
  | SeekError string
  | MalformedJSONL nat string
  | TooLong
  | ScanError string
  | MarshalError
  | WriteFailed string
  | SyncFailed string
  | CloseError string

record store =
  st_path :: string
  disk :: string
  is_open :: bool
  records :: "(string \<times> receipt_record) list"
  order :: "string list"

definition dedupKey :: "string \<Rightarrow> string \<Rightarrow> string" where
  "dedupKey paymentID txHash = paymentID @ ''|'' @ txHash"

definition record_key :: "receipt_record \<Rightarrow> string" where
  "record_key r = dedupKey (PaymentID r) (SettlementTxHash r)"

text \<open>The status normalisation that \<^verbatim>\<open>loadRecords\<close> and \<^verbatim>\<open>Append\<close> share.\<close>

definition default_status :: "receipt_record \<Rightarrow> receipt_record" where
  "default_status r = (if DispatchStatus r = '''' then r\<lparr>DispatchStatus := StatusPending\<rparr> else r)"

text \<open>
  \<^verbatim>\<open>bufio.Scanner\<close> with \<^verbatim>\<open>ScanLines\<close>: the pieces between newlines, a last unterminated piece if it is
  not empty; a carriage return at the end of a piece is dropped; a piece of 2^20 bytes or more does
  not fit the buffer.
\<close>

fun scan_from :: "string \<Rightarrow> string \<Rightarrow> string list" where
  "scan_from acc [] = (if acc = [] then [] else [acc])"
| "scan_from acc (c # cs) = (if c = newline then acc # scan_from [] cs else scan_from (acc @ [c]) cs)"

definition dropCR :: "string \<Rightarrow> string" where
  "dropCR s = (if s \<noteq> [] \<and> last s = carriage_return then butlast s else s)"

definition maxTokenSize :: nat where "maxTokenSize = 2 ^ 20"

type_synonym cache = "(string \<times> receipt_record) list \<times> string list"

text \<open>One line of the scan loop: the latest record wins, the key keeps its first place.\<close>

definition load_step :: "cache \<Rightarrow> receipt_record \<Rightarrow> cache" where
  "load_step = (\<lambda>(recs, ord) r0.
     (let r = default_status r0; key = record_key r in
      (AList.update key r recs, if map_of recs key = None then ord @ [key] else ord)))"

fun load_lines ::
    "json_codec \<Rightarrow> nat \<Rightarrow> string list \<Rightarrow> cache \<Rightarrow> (store_error, cache) outcome" where
  "load_lines js lineNo [] m = Ok m"
| "load_lines js lineNo (l # ls) m =
     (if maxTokenSize \<le> length l then Err TooLong
      else case Unmarshal js (dropCR l) of
          Err e \<Rightarrow> Err (MalformedJSONL (lineNo + 1) e)
        | Panic \<Rightarrow> Panic
        | Ok r \<Rightarrow> load_lines js (lineNo + 1) ls (load_step m r))"

text \<open>
  What the operating system does while the file is opened and read: the open or a seek fails, or a
  read fails after some bytes, which the scanner reports once it has handed out the lines it has.
\<close>

datatype load_fate = Loads | OpenFails string | SeekFails string | ReadFails nat string | SeekEndFails string

definition loadRecords :: "json_codec \<Rightarrow> load_fate \<Rightarrow> store \<Rightarrow> (store_error, store) outcome" where
  "loadRecords js fate s =
     (case fate of
        SeekFails e \<Rightarrow> Err (SeekError e)
      | ReadFails n e \<Rightarrow>
          bind_ok (load_lines js 0 (scan_from [] (take n (disk s))) (records s, order s)) (\<lambda>_. Err (ScanError e))
      | _ \<Rightarrow>
          bind_ok (load_lines js 0 (scan_from [] (disk s)) (records s, order s)) (\<lambda>(recs, ord).
            (case fate of SeekEndFails e \<Rightarrow> Err (SeekError e)
             | _ \<Rightarrow> Ok (s\<lparr>records := recs, order := ord\<rparr>))))"

definition NewStore :: "json_codec \<Rightarrow> load_fate \<Rightarrow> string \<Rightarrow> string \<Rightarrow> (store_error, store) outcome" where
  "NewStore js fate path contents =
     (case fate of
        OpenFails e \<Rightarrow> Err (OpenError e)
      | _ \<Rightarrow> loadRecords js fate
          \<lparr>st_path = path, disk = contents, is_open = True, records = [], order = []\<rparr>)"

definition Has :: "string \<Rightarrow> string \<Rightarrow> store \<Rightarrow> bool" where
  "Has paymentID txHash s = (map_of (records s) (dedupKey paymentID txHash) \<noteq> None)"

definition Count :: "store \<Rightarrow> nat" where
  "Count s = length (records s)"

text \<open>
  The fate of a write: stored and synced; a write error after some bytes of the line reached the
  file; a sync error after the whole line was written.
\<close>

datatype io_fate = Stored | WriteError nat string | SyncError string

definition writeLineLocked ::
    "json_codec \<Rightarrow> io_fate \<Rightarrow> receipt_record \<Rightarrow> store \<Rightarrow> store_error option \<times> store" where
  "writeLineLocked js fate r s =
     (case Marshal js r of
        None \<Rightarrow> (Some MarshalError, s)
      | Some json \<Rightarrow>
          (let line = json @ [newline] in
           if \<not> is_open s then (Some (WriteFailed ''invalid argument''), s)
           else case fate of
               Stored \<Rightarrow> (None, s\<lparr>disk := disk s @ line\<rparr>)
             | WriteError n e \<Rightarrow> (Some (WriteFailed e), s\<lparr>disk := disk s @ take n line\<rparr>)
             | SyncError e \<Rightarrow> (Some (SyncFailed e), s\<lparr>disk := disk s @ line\<rparr>)))"

definition Append :: "json_codec \<Rightarrow> io_fate \<Rightarrow> receipt_record \<Rightarrow> store \<Rightarrow> store_error option \<times> store" where
  "Append js fate r0 s =
     (let key = dedupKey (PaymentID r0) (SettlementTxHash r0) in
      if map_of (records s) key \<noteq> None then (Some ErrDuplicate, s)
      else let r = default_status r0 in
        (case writeLineLocked js fate r s of
           (Some e, s') \<Rightarrow> (Some e, s')
         | (None, s') \<Rightarrow> (None, s'\<lparr>records := AList.update key r (records s'), order := order s' @ [key]\<rparr>)))"

definition MarkDispatched ::
    "json_codec \<Rightarrow> io_fate \<Rightarrow> string \<Rightarrow> string \<Rightarrow> store \<Rightarrow> store_error option \<times> store" where
  "MarkDispatched js fate paymentID txHash s =
     (let key = dedupKey paymentID txHash in
      case map_of (records s) key of
        None \<Rightarrow> (Some ErrUnknown, s)
      | Some r0 \<Rightarrow>
          if DispatchStatus r0 = StatusDispatched then (None, s)
          else let r = r0\<lparr>DispatchStatus := StatusDispatched\<rparr> in
            (case writeLineLocked js fate r s of
               (Some e, s') \<Rightarrow> (Some e, s')
             | (None, s') \<Rightarrow> (None, s'\<lparr>records := AList.update key r (records s')\<rparr>)))"

text \<open>The loop of \<^verbatim>\<open>PendingRecords\<close>: \<^verbatim>\<open>out\<close> grows until the limit is reached.\<close>

fun pending_from :: "nat \<Rightarrow> (string \<times> receipt_record) list \<Rightarrow> string list \<Rightarrow> receipt_record list \<Rightarrow> receipt_record list" where
  "pending_from limit recs [] out = out"
| "pending_from limit recs (key # keys) out =
     (case map_of recs key of
        None \<Rightarrow> pending_from limit recs keys out
      | Some r \<Rightarrow>
          if DispatchStatus r \<noteq> StatusPending then pending_from limit recs keys out
          else if limit \<le> length (out @ [r]) then out @ [r]
          else pending_from limit recs keys (out @ [r]))"

definition PendingRecords :: "int \<Rightarrow> store \<Rightarrow> receipt_record list" where
  "PendingRecords limit s = (if limit \<le> 0 then [] else pending_from (nat limit) (records s) (order s) [])"

definition Close :: "string option \<Rightarrow> store \<Rightarrow> store_error option \<times> store" where
  "Close failure s =
     (if \<not> is_open s then (None, s)
      else (map_option CloseError failure, s\<lparr>is_open := False\<rparr>))"

section \<open>The queue the store implements\<close>

text \<open>
  The abstract state: the settlements in the order of their first append, each in its latest state,
  no two with the same key.
\<close>

definition settlements :: "store \<Rightarrow> receipt_record list" where
  "settlements s = map (\<lambda>k. the (map_of (records s) k)) (order s)"

definition pending :: "receipt_record \<Rightarrow> bool" where
  "pending r \<longleftrightarrow> DispatchStatus r = StatusPending"

definition store_inv :: "store \<Rightarrow> bool" where
  "store_inv s \<longleftrightarrow> map fst (records s) = order s \<and> distinct (order s) \<and>
     (\<forall>(k, r) \<in> set (records s). k = record_key r \<and> DispatchStatus r \<noteq> '''')"

text \<open>With the cache in first-append order, the settlements are its values.\<close>

lemma map_of_all: "distinct (map fst al) \<Longrightarrow> map (\<lambda>k. the (map_of al k)) (map fst al) = map snd al"
proof (induction al)
  case Nil
  then show ?case by simp
next
  case (Cons a al)
  have "map (\<lambda>k. the (map_of (a # al) k)) (map fst al) = map (\<lambda>k. the (map_of al k)) (map fst al)"
    using Cons.prems by (intro map_cong) (auto simp: image_iff)
  with Cons show ?case by simp
qed

lemma settlements_records: "store_inv s \<Longrightarrow> settlements s = map snd (records s)"
  by (metis map_of_all settlements_def store_inv_def)

lemma store_inv_keys:
  assumes "store_inv s"
  shows "map record_key (settlements s) = order s" and "distinct (map record_key (settlements s))"
    and "map fst (records s) = map record_key (settlements s)"
proof -
  have "map (\<lambda>x. record_key (snd x)) (records s) = map fst (records s)"
    using assms by (intro map_cong) (auto simp: store_inv_def)
  then have "map record_key (map snd (records s)) = map fst (records s)" by (simp add: o_def)
  with assms show "map record_key (settlements s) = order s" "distinct (map record_key (settlements s))"
    "map fst (records s) = map record_key (settlements s)"
    by (simp_all add: settlements_records store_inv_def)
qed

lemma map_of_settlements:
  assumes "store_inv s"
  shows "map_of (records s) k = Some r \<longleftrightarrow> r \<in> set (settlements s) \<and> record_key r = k"
proof -
  have d: "distinct (map fst (records s))" using assms by (simp add: store_inv_def)
  have "(k, r) \<in> set (records s) \<longleftrightarrow> r \<in> snd ` set (records s) \<and> record_key r = k"
  proof
    assume "(k, r) \<in> set (records s)"
    with assms show "r \<in> snd ` set (records s) \<and> record_key r = k"
      by (force simp: store_inv_def)
  next
    assume r: "r \<in> snd ` set (records s) \<and> record_key r = k"
    then obtain k' where "(k', r) \<in> set (records s)" by auto
    moreover from this assms have "k' = record_key r" by (auto simp: store_inv_def)
    ultimately show "(k, r) \<in> set (records s)" using r by simp
  qed
  then show ?thesis
    using d by (simp add: settlements_records [OF assms])
qed

lemma map_of_settlements_None:
  "store_inv s \<Longrightarrow> map_of (records s) k = None \<longleftrightarrow> k \<notin> record_key ` set (settlements s)"
  by (metis map_of_eq_None_iff store_inv_keys(3) set_map)

lemma update_new: "k \<notin> fst ` set al \<Longrightarrow> AList.update k v al = al @ [(k, v)]"
  by (induction al) auto

lemma update_values:
  "k \<in> fst ` set al \<Longrightarrow> distinct (map fst al) \<Longrightarrow>
     AList.update k v al = map (\<lambda>(k', w). (k', if k' = k then v else w)) al"
proof (induction al)
  case Nil
  then show ?case by simp
next
  case (Cons a al)
  obtain k0 w0 where a: "a = (k0, w0)" by (cases a)
  show ?case
  proof (cases "k0 = k")
    case True
    with Cons.prems a have "map (\<lambda>(k', w). (k', if k' = k then v else w)) al = map (\<lambda>x. x) al"
      by (intro map_cong) (auto simp: image_iff)
    with True a show ?thesis by simp
  next
    case False
    with Cons a show ?thesis by auto
  qed
qed

lemma record_key_status [simp]:
  "record_key (r\<lparr>DispatchStatus := x\<rparr>) = record_key r" "record_key (default_status r) = record_key r"
  by (simp_all add: record_key_def default_status_def)

lemma default_status_set [simp]: "DispatchStatus (default_status r) \<noteq> ''''"
  by (simp add: default_status_def StatusPending_def)

lemma default_status_id: "DispatchStatus r \<noteq> '''' \<Longrightarrow> default_status r = r"
  by (simp add: default_status_def)

lemma writeLineLocked_frame:
  "writeLineLocked js fate r s = (e, s') \<Longrightarrow>
     records s' = records s \<and> order s' = order s \<and> is_open s' = is_open s \<and> st_path s' = st_path s"
  by (auto simp: writeLineLocked_def Let_def split: option.splits if_splits io_fate.splits)

lemma store_inv_frame:
  "records s' = records s \<Longrightarrow> order s' = order s \<Longrightarrow> store_inv s' = store_inv s \<and> settlements s' = settlements s"
  by (simp add: store_inv_def settlements_def)

section \<open>Each operation on the queue\<close>

lemma Append_error_frame:
  assumes "Append js fate r s = (Some e, s')"
  shows "store_inv s' = store_inv s \<and> settlements s' = settlements s"
proof (rule store_inv_frame)
  show "records s' = records s" "order s' = order s"
    using assms by (auto simp: Append_def Let_def split: if_splits prod.splits option.splits
        dest: writeLineLocked_frame)
qed

lemma Append_Ok:
  assumes "store_inv s" and "Append js fate r s = (None, s')"
  shows "record_key r \<notin> record_key ` set (settlements s)" and "store_inv s'"
    and "settlements s' = settlements s @ [default_status r]"
proof -
  have new: "map_of (records s) (record_key r) = None"
    using assms(2) by (auto simp: Append_def Let_def record_key_def split: if_splits)
  then show "record_key r \<notin> record_key ` set (settlements s)"
    using map_of_settlements_None [OF assms(1)] by simp
  obtain s1 where w: "writeLineLocked js fate (default_status r) s = (None, s1)"
    and s': "s' = s1\<lparr>records := AList.update (record_key r) (default_status r) (records s1),
      order := order s1 @ [record_key r]\<rparr>"
    using assms(2) new
    by (auto simp: Append_def Let_def record_key_def split: prod.splits option.splits)
  have upd: "records s' = records s @ [(record_key r, default_status r)]" "order s' = order s @ [record_key r]"
    using new writeLineLocked_frame [OF w] by (simp_all add: s' update_new map_of_eq_None_iff)
  moreover have "record_key r \<notin> set (order s)"
    using new assms(1) by (simp add: map_of_eq_None_iff store_inv_def flip: set_map)
  ultimately show inv: "store_inv s'"
    using assms(1) by (auto simp: store_inv_def)
  show "settlements s' = settlements s @ [default_status r]"
    by (simp add: settlements_records [OF inv] settlements_records [OF assms(1)] upd)
qed

lemma MarkDispatched_error_frame:
  assumes "MarkDispatched js fate p t s = (Some e, s')"
  shows "store_inv s' = store_inv s \<and> settlements s' = settlements s"
proof (rule store_inv_frame)
  show "records s' = records s" "order s' = order s"
    using assms by (auto simp: MarkDispatched_def Let_def split: if_splits prod.splits option.splits
        dest: writeLineLocked_frame)
qed

definition dispatch :: "string \<Rightarrow> receipt_record \<Rightarrow> receipt_record" where
  "dispatch key r = (if record_key r = key then r\<lparr>DispatchStatus := StatusDispatched\<rparr> else r)"

lemma record_key_dispatch [simp]: "record_key (dispatch key r) = record_key r"
  by (simp add: dispatch_def)

lemma dispatch_records:
  assumes "store_inv s" and "map_of (records s) key = Some r"
  shows "map (\<lambda>(k, q). if k = key then r\<lparr>DispatchStatus := StatusDispatched\<rparr> else q) (records s)
    = map (dispatch key) (settlements s)"
  unfolding settlements_records [OF assms(1)] map_map
proof (intro map_cong refl)
  fix x assume x: "x \<in> set (records s)"
  obtain k q where kq: "x = (k, q)" by (cases x)
  have k: "k = record_key q" using assms(1) x kq by (auto simp: store_inv_def)
  have "q \<in> set (settlements s)"
    using x kq by (force simp: settlements_records [OF assms(1)])
  with assms(2) map_of_settlements [OF assms(1), of key q] k
  show "(case x of (k, q) \<Rightarrow> if k = key then r\<lparr>DispatchStatus := StatusDispatched\<rparr> else q) = (dispatch key \<circ> snd) x"
    by (auto simp: kq dispatch_def)
qed

lemma MarkDispatched_Ok:
  assumes "store_inv s" and "MarkDispatched js fate p t s = (None, s')"
  shows "dedupKey p t \<in> record_key ` set (settlements s)" and "store_inv s'"
    and "settlements s' = map (dispatch (dedupKey p t)) (settlements s)"
proof -
  let ?k = "dedupKey p t"
  obtain r where r: "map_of (records s) ?k = Some r"
    using assms(2) by (auto simp: MarkDispatched_def Let_def split: option.splits)
  then have rk: "record_key r = ?k" and mem: "r \<in> set (settlements s)"
    using map_of_settlements [OF assms(1)] by auto
  then show "?k \<in> record_key ` set (settlements s)" by force
  have present: "?k \<in> fst ` set (records s)"
    using r by (metis map_of_eq_None_iff option.distinct(1))
  have only: "q \<in> set (settlements s) \<Longrightarrow> record_key q = ?k \<Longrightarrow> q = r" for q
    using r map_of_settlements [OF assms(1), of ?k q] by simp
  have "store_inv s' \<and> settlements s' = map (dispatch ?k) (settlements s)"
  proof (cases "DispatchStatus r = StatusDispatched")
    case True
    then have "map (dispatch ?k) (settlements s) = map (\<lambda>x. x) (settlements s)"
      using only by (intro map_cong) (auto simp: dispatch_def)
    with True assms r show ?thesis by (simp add: MarkDispatched_def)
  next
    case False
    let ?r = "r\<lparr>DispatchStatus := StatusDispatched\<rparr>"
    obtain s1 where w: "writeLineLocked js fate ?r s = (None, s1)"
      and s': "s' = s1\<lparr>records := AList.update ?k ?r (records s1)\<rparr>"
      using assms(2) r False by (auto simp: MarkDispatched_def Let_def split: prod.splits option.splits)
    have upd: "records s' = map (\<lambda>(k', q). (k', if k' = ?k then ?r else q)) (records s)" "order s' = order s"
      using writeLineLocked_frame [OF w] update_values [of ?k "records s" ?r] present assms(1)
      by (simp_all add: s' store_inv_def)
    have inv: "store_inv s'"
      using assms(1) rk by (auto simp: store_inv_def upd StatusDispatched_def o_def split_beta)
    have "settlements s' = map (\<lambda>(k', q). if k' = ?k then ?r else q) (records s)"
      by (simp add: settlements_records [OF inv] upd o_def split_beta)
    also note dispatch_records [OF assms(1) r]
    finally show ?thesis using inv by simp
  qed
  then show "store_inv s'" "settlements s' = map (dispatch ?k) (settlements s)" by auto
qed

lemma pending_from_spec:
  "pending_from limit recs keys out =
     (let found = filter pending (List.map_filter (map_of recs) keys) in
      if limit \<le> length out \<and> found \<noteq> [] then out @ [hd found] else out @ take (limit - length out) found)"
  if "0 < limit"
proof (induction keys arbitrary: out)
  case Nil
  then show ?case by (simp add: List.map_filter_simps)
next
  case (Cons key keys)
  show ?case
  proof (cases "map_of recs key")
    case None
    with Cons show ?thesis by (simp add: List.map_filter_simps)
  next
    case (Some r)
    then show ?thesis
      using Cons [of out] Cons [of "out @ [r]"]
      by (auto simp: List.map_filter_simps pending_def Let_def take_Cons' not_le le_Suc_eq Suc_diff_le
          simp del: Cons.IH split: nat.splits)
  qed
qed

lemma PendingRecords_queue:
  assumes "store_inv s"
  shows "PendingRecords limit s = take (nat limit) (filter pending (settlements s))"
proof (cases "limit \<le> 0")
  case True
  then show ?thesis by (simp add: PendingRecords_def)
next
  case False
  have "map_of (records s) k \<noteq> None" if "k \<in> set (order s)" for k
    using that assms map_of_settlements_None [OF assms, of k] store_inv_keys(1) [OF assms] by (metis set_map)
  then have "filter (\<lambda>k. map_of (records s) k \<noteq> None) (order s) = order s"
    by (simp add: filter_id_conv)
  then have "List.map_filter (map_of (records s)) (order s) = settlements s"
    by (simp add: List.map_filter_def settlements_def o_def)
  with False show ?thesis
    by (simp add: PendingRecords_def pending_from_spec)
qed

lemma Has_queue: "store_inv s \<Longrightarrow> Has p t s \<longleftrightarrow> dedupKey p t \<in> record_key ` set (settlements s)"
  using map_of_settlements_None by (simp add: Has_def)

lemma Count_queue: "store_inv s \<Longrightarrow> Count s = length (settlements s)"
  by (simp add: Count_def settlements_records)

section \<open>The contract of a settlement queue\<close>

text \<open>
  What the processor and the egress handlers rely on: a queue of receipts, one per key; an append
  that succeeds adds a pending receipt at the end and one that fails changes nothing; marking
  changes the status in place; the pending receipts are handed out oldest first.
\<close>

locale settlement_queue =
  fixes has :: "string \<Rightarrow> string \<Rightarrow> 's \<Rightarrow> bool"
    and append :: "'f \<Rightarrow> receipt_record \<Rightarrow> 's \<Rightarrow> store_error option \<times> 's"
    and mark :: "'f \<Rightarrow> string \<Rightarrow> string \<Rightarrow> 's \<Rightarrow> store_error option \<times> 's"
    and pending_list :: "int \<Rightarrow> 's \<Rightarrow> receipt_record list"
    and queue :: "'s \<Rightarrow> receipt_record list" and inv :: "'s \<Rightarrow> bool"
  assumes keys_distinct: "inv s \<Longrightarrow> distinct (map record_key (queue s))"
    and has_iff: "inv s \<Longrightarrow> has p t s \<longleftrightarrow> dedupKey p t \<in> record_key ` set (queue s)"
    and append_dup: "inv s \<Longrightarrow> record_key r \<in> record_key ` set (queue s) \<Longrightarrow> append f r s = (Some ErrDuplicate, s)"
    and append_Ok: "inv s \<Longrightarrow> append f r s = (None, s') \<Longrightarrow>
      inv s' \<and> queue s' = queue s @ [default_status r] \<and> record_key r \<notin> record_key ` set (queue s)"
    and append_Err: "inv s \<Longrightarrow> append f r s = (Some e, s') \<Longrightarrow> inv s' \<and> queue s' = queue s"
    and mark_unknown: "inv s \<Longrightarrow> dedupKey p t \<notin> record_key ` set (queue s) \<Longrightarrow> mark f p t s = (Some ErrUnknown, s)"
    and mark_Ok: "inv s \<Longrightarrow> mark f p t s = (None, s') \<Longrightarrow>
      inv s' \<and> queue s' = map (dispatch (dedupKey p t)) (queue s) \<and> dedupKey p t \<in> record_key ` set (queue s)"
    and mark_Err: "inv s \<Longrightarrow> mark f p t s = (Some e, s') \<Longrightarrow> inv s' \<and> queue s' = queue s"
    and pending_eq: "inv s \<Longrightarrow> pending_list limit s = take (nat limit) (filter pending (queue s))"
begin

lemma append_inv: "inv s \<Longrightarrow> inv (snd (append f r s))"
  using append_Ok append_Err by (metis option.exhaust prod.collapse)

lemma mark_inv: "inv s \<Longrightarrow> inv (snd (mark f p t s))"
  using mark_Ok mark_Err by (metis option.exhaust prod.collapse)

lemma append_then_has:
  "inv s \<Longrightarrow> append f r s = (None, s') \<Longrightarrow> has (PaymentID r) (SettlementTxHash r) s'"
  using append_Ok [of s f r s'] has_iff [of s'] by (auto simp: record_key_def [symmetric])

text \<open>The first append of a key decides: nothing later removes a settlement or reorders the queue.\<close>

lemma append_keys: "inv s \<Longrightarrow> \<exists>new. map record_key (queue (snd (append f r s))) = map record_key (queue s) @ new"
proof -
  assume inv: "inv s"
  obtain e s' where "append f r s = (e, s')" by (cases "append f r s")
  with inv show ?thesis
    using append_Ok [OF inv, of f r s'] append_Err [OF inv, of f r _ s'] by (cases e) auto
qed

lemma mark_keys: "inv s \<Longrightarrow> map record_key (queue (snd (mark f p t s))) = map record_key (queue s)"
proof -
  assume inv: "inv s"
  obtain e s' where "mark f p t s = (e, s')" by (cases "mark f p t s")
  with inv show ?thesis
    using mark_Ok [OF inv, of f p t s'] mark_Err [OF inv, of f p t _ s'] by (cases e) (auto simp: o_def)
qed

end

interpretation receipt_store: settlement_queue Has "Append js" "MarkDispatched js" PendingRecords settlements store_inv
  for js
proof
  fix s :: store and s' :: store and p t :: string and f :: io_fate and r :: receipt_record and e limit
  assume inv: "store_inv s"
  show "distinct (map record_key (settlements s))" using store_inv_keys(2) [OF inv] .
  show "Has p t s \<longleftrightarrow> dedupKey p t \<in> record_key ` set (settlements s)" using Has_queue [OF inv] .
  show "record_key r \<in> record_key ` set (settlements s) \<Longrightarrow> Append js f r s = (Some ErrDuplicate, s)"
    using map_of_settlements_None [OF inv, of "record_key r"] by (auto simp: Append_def Let_def record_key_def)
  show "Append js f r s = (None, s') \<Longrightarrow> store_inv s' \<and> settlements s' = settlements s @ [default_status r] \<and>
      record_key r \<notin> record_key ` set (settlements s)"
    using Append_Ok [OF inv] by blast
  show "Append js f r s = (Some e, s') \<Longrightarrow> store_inv s' \<and> settlements s' = settlements s"
    using Append_error_frame inv by metis
  show "dedupKey p t \<notin> record_key ` set (settlements s) \<Longrightarrow> MarkDispatched js f p t s = (Some ErrUnknown, s)"
    using map_of_settlements_None [OF inv, of "dedupKey p t"] by (simp add: MarkDispatched_def Let_def)
  show "MarkDispatched js f p t s = (None, s') \<Longrightarrow> store_inv s' \<and>
      settlements s' = map (dispatch (dedupKey p t)) (settlements s) \<and> dedupKey p t \<in> record_key ` set (settlements s)"
    using MarkDispatched_Ok [OF inv] by blast
  show "MarkDispatched js f p t s = (Some e, s') \<Longrightarrow> store_inv s' \<and> settlements s' = settlements s"
    using MarkDispatched_error_frame inv by metis
  show "PendingRecords limit s = take (nat limit) (filter pending (settlements s))"
    using PendingRecords_queue [OF inv] .
qed

end
