(* ===== verification/Store_Durability.thy ===== *)
theory Store_Durability
  imports Receipt_Store
begin

text \<open>
  The receipt store and its file: what a scan of the file gives, that the cache of a running store is
  always what a scan would give, and so what a restart finds after a clean stop, a crash or a torn
  write.  The theory also holds a concrete codec that meets the laws of the JSON parameter, and the
  properties of the store.
\<close>

section \<open>Durability\<close>

definition store_line :: "json_codec \<Rightarrow> receipt_record \<Rightarrow> string" where
  "store_line js r = (case Marshal js r of Some line \<Rightarrow> line | None \<Rightarrow> '''')"

definition render :: "json_codec \<Rightarrow> receipt_record list \<Rightarrow> string" where
  "render js rs = concat (map (\<lambda>r. store_line js r @ [newline]) rs)"

definition good_line :: "json_codec \<Rightarrow> receipt_record \<Rightarrow> bool" where
  "good_line js r \<longleftrightarrow> ascii_record r \<and> length (store_line js r) < maxTokenSize"

text \<open>A record whose lines, pending or dispatched, the scanner can read back.\<close>

definition storable :: "json_codec \<Rightarrow> receipt_record \<Rightarrow> bool" where
  "storable js r \<longleftrightarrow> good_line js (default_status r) \<and> good_line js (r\<lparr>DispatchStatus := StatusDispatched\<rparr>)"

text \<open>The cache is what a scan of the lines written so far gives.\<close>

definition durable :: "json_codec \<Rightarrow> store \<Rightarrow> bool" where
  "durable js s \<longleftrightarrow> store_inv s \<and> (\<forall>r \<in> set (settlements s). storable js r) \<and>
     (\<exists>log. list_all (good_line js) log \<and> disk s = render js log \<and>
        (records s, order s) = foldl load_step ([], []) log)"

lemma durableI:
  "store_inv s \<Longrightarrow> \<forall>r \<in> set (settlements s). storable js r \<Longrightarrow> list_all (good_line js) log \<Longrightarrow>
     disk s = render js log \<Longrightarrow> (records s, order s) = foldl load_step ([], []) log \<Longrightarrow> durable js s"
  by (auto simp: durable_def)

lemma json_line:
  assumes "json_ok js" and "ascii_record r"
  shows "Marshal js r = Some (store_line js r)" and "store_line js r \<noteq> []" and "newline \<notin> set (store_line js r)"
    and "Unmarshal js (store_line js r) = Ok r" and "dropCR (store_line js r) = store_line js r"
    and "0 < n \<Longrightarrow> n < length (store_line js r) \<Longrightarrow> \<exists>e. Unmarshal js (take n (store_line js r)) = Err e"
    and "dropCR (take n (store_line js r)) = take n (store_line js r)"
proof -
  obtain line where line: "Marshal js r = Some line" "line \<noteq> []" "newline \<notin> set line" "carriage_return \<notin> set line"
    "Unmarshal js line = Ok r" "\<forall>n. 0 < n \<longrightarrow> n < length line \<longrightarrow> (\<exists>e. Unmarshal js (take n line) = Err e)"
    using assms unfolding json_ok_def by blast
  then have eq: "store_line js r = line" by (simp add: store_line_def)
  have "dropCR xs = xs" if "set xs \<subseteq> set line" for xs
    using that line(4) last_in_set [of xs] unfolding dropCR_def by (metis subsetD)
  then show "dropCR (store_line js r) = store_line js r" "dropCR (take n (store_line js r)) = take n (store_line js r)"
    unfolding eq by (simp_all add: set_take_subset)
  show "Marshal js r = Some (store_line js r)" "store_line js r \<noteq> []" "newline \<notin> set (store_line js r)"
    "Unmarshal js (store_line js r) = Ok r"
    "0 < n \<Longrightarrow> n < length (store_line js r) \<Longrightarrow> \<exists>e. Unmarshal js (take n (store_line js r)) = Err e"
    using line by (simp_all add: eq)
qed

lemma scan_from_line: "newline \<notin> set xs \<Longrightarrow> scan_from acc (xs @ newline # rest) = (acc @ xs) # scan_from [] rest"
  by (induction xs arbitrary: acc) auto

lemma scan_from_open: "newline \<notin> set xs \<Longrightarrow> scan_from acc xs = (if acc @ xs = [] then [] else [acc @ xs])"
  by (induction xs arbitrary: acc) auto

lemma scan_render:
  assumes "json_ok js" and "list_all (good_line js) log"
  shows "scan_from [] (render js log @ rest) = map (store_line js) log @ scan_from [] rest"
  using assms(2)
proof (induction log)
  case Nil
  then show ?case by (simp add: render_def)
next
  case (Cons r log)
  have "newline \<notin> set (store_line js r)"
    using Cons.prems json_line(3) [OF assms(1)] by (simp add: good_line_def)
  then show ?case
    using Cons by (simp add: render_def scan_from_line)
qed

lemma load_lines_good:
  assumes "json_ok js" and "list_all (good_line js) log"
  shows "load_lines js n (map (store_line js) log @ rest) m
    = load_lines js (n + length log) rest (foldl load_step m log)"
  using assms(2)
proof (induction log arbitrary: n m)
  case Nil
  then show ?case by simp
next
  case (Cons r log)
  then show ?case
    using json_line(4,5) [OF assms(1), of r] by (simp add: good_line_def)
qed

lemma NewStore_render:
  assumes "json_ok js" and "list_all (good_line js) log"
  shows "NewStore js Loads path (render js log @ rest) =
    bind_ok (load_lines js (length log) (scan_from [] rest) (foldl load_step ([], []) log)) (\<lambda>(recs, ord).
      Ok \<lparr>st_path = path, disk = render js log @ rest, is_open = True, records = recs, order = ord\<rparr>)"
  by (simp add: NewStore_def loadRecords_def scan_render [OF assms] load_lines_good [OF assms])

lemma reload_durable:
  assumes "json_ok js" and "durable js s"
  shows "NewStore js Loads path (disk s) = Ok (s\<lparr>st_path := path, is_open := True\<rparr>)"
proof -
  obtain log where log: "list_all (good_line js) log" "disk s = render js log"
    "(records s, order s) = foldl load_step ([], []) log"
    using assms(2) by (auto simp: durable_def)
  show ?thesis
    using NewStore_render [OF assms(1) log(1), of path "[]"] log(2) by (simp flip: log(3))
qed

text \<open>What a successful write adds to the file, and that the cache stays the scan of the file.\<close>

lemma load_step_simp:
  "load_step (recs, ord) r0 = (AList.update (record_key r0) (default_status r0) recs,
     if map_of recs (record_key r0) = None then ord @ [record_key r0] else ord)"
  by (simp add: load_step_def Let_def)

lemma default_status_idem [simp]: "default_status (default_status r) = default_status r"
  by (simp add: default_status_def StatusPending_def)

lemma default_status_update [simp]:
  "(default_status r)\<lparr>DispatchStatus := x\<rparr> = r\<lparr>DispatchStatus := x\<rparr>"
  by (simp add: default_status_def)

lemma storable_default [simp]: "storable js (default_status r) = storable js r"
  by (simp add: storable_def)

lemma storable_dispatched: "storable js r \<Longrightarrow> storable js (r\<lparr>DispatchStatus := StatusDispatched\<rparr>)"
  by (simp add: storable_def default_status_def StatusDispatched_def)

text \<open>Whatever the file holds, a store that opens is a queue.\<close>

lemma load_step_inv:
  assumes "store_inv (s\<lparr>records := recs, order := ord\<rparr>)"
  shows "case load_step (recs, ord) r of (recs', ord') \<Rightarrow> store_inv (s\<lparr>records := recs', order := ord'\<rparr>)"
proof -
  have inv: "map fst recs = ord" "distinct ord" "\<forall>(k, q) \<in> set recs. k = record_key q \<and> DispatchStatus q \<noteq> ''''"
    using assms by (simp_all add: store_inv_def)
  show ?thesis
  proof (cases "map_of recs (record_key r)")
    case None
    then have new: "record_key r \<notin> fst ` set recs" by (simp add: map_of_eq_None_iff)
    then have "AList.update (record_key r) (default_status r) recs = recs @ [(record_key r, default_status r)]"
      by (rule update_new)
    moreover have "record_key r \<notin> set ord" using new inv(1) by (metis set_map)
    ultimately show ?thesis using None inv by (auto simp: load_step_simp store_inv_def)
  next
    case (Some q)
    then have old: "record_key r \<in> fst ` set recs" by (metis map_of_eq_None_iff option.distinct(1))
    have "AList.update (record_key r) (default_status r) recs
        = map (\<lambda>(k', w). (k', if k' = record_key r then default_status r else w)) recs"
      using update_values [OF old] inv by simp
    then show ?thesis using Some inv by (auto simp: load_step_simp store_inv_def o_def split_beta)
  qed
qed

lemma load_lines_inv:
  assumes "load_lines js n ls (recs, ord) = Ok (recs', ord')" and "store_inv (s\<lparr>records := recs, order := ord\<rparr>)"
  shows "store_inv (s\<lparr>records := recs', order := ord'\<rparr>)"
  using assms
proof (induction ls arbitrary: n recs ord)
  case Nil
  then show ?case by simp
next
  case (Cons l ls)
  then obtain r where "Unmarshal js (dropCR l) = Ok r" "load_lines js (n + 1) ls (load_step (recs, ord) r) = Ok (recs', ord')"
    by (auto split: if_splits outcome.splits)
  with Cons.IH load_step_inv [OF Cons.prems(2), of r] show ?case
    by (cases "load_step (recs, ord) r") auto
qed

lemma NewStore_inv: "NewStore js fate path bytes = Ok s \<Longrightarrow> store_inv s"
proof -
  assume run: "NewStore js fate path bytes = Ok s"
  let ?s0 = "\<lparr>st_path = path, disk = bytes, is_open = True, records = [], order = []\<rparr>"
  obtain recs ord where "load_lines js 0 (scan_from [] bytes) ([], []) = Ok (recs, ord)"
      "s = ?s0\<lparr>records := recs, order := ord\<rparr>"
    using run by (auto simp: NewStore_def loadRecords_def outcome_simps split: load_fate.splits outcome.splits prod.splits)
  moreover have "store_inv (?s0\<lparr>records := [], order := []\<rparr>)" by (simp add: store_inv_def)
  ultimately show ?thesis using load_lines_inv by blast
qed

lemma NewStore_path: "NewStore js fate path bytes = Ok s \<Longrightarrow> st_path s = path"
  by (auto simp: NewStore_def loadRecords_def outcome_simps split: load_fate.splits outcome.splits prod.splits)

definition clean :: "io_fate \<Rightarrow> bool" where
  "clean fate = (case fate of Stored \<Rightarrow> True | WriteError n e \<Rightarrow> n = 0 | SyncError e \<Rightarrow> False)"

lemma writeLine_cases:
  assumes "json_ok js" and "ascii_record r" and "clean fate" and "writeLineLocked js fate r s = (e, s')"
  shows "e = None \<and> disk s' = disk s @ store_line js r @ [newline] \<or> e \<noteq> None \<and> s' = s"
  using assms(3,4) json_line(1) [OF assms(1,2)]
  by (auto simp: writeLineLocked_def Let_def clean_def split: if_splits io_fate.splits)

lemma render_snoc: "render js (log @ [r]) = render js log @ store_line js r @ [newline]"
  by (simp add: render_def)

lemma durable_Append:
  assumes "json_ok js" and "durable js s" and "storable js r" and "clean fate"
  shows "durable js (snd (Append js fate r s))"
proof -
  have inv: "store_inv s" using assms(2) by (simp add: durable_def)
  obtain e s' where run: "Append js fate r s = (e, s')" by (cases "Append js fate r s")
  have asc: "ascii_record (default_status r)" using assms(3) by (simp add: storable_def good_line_def)
  show ?thesis
  proof (cases e)
    case (Some err)
    have "s' = s"
      using run Some writeLine_cases [OF assms(1) asc assms(4), of s]
      by (auto simp: Append_def Let_def split: if_splits prod.splits option.splits)
    with run assms(2) show ?thesis by simp
  next
    case None
    note ok = Append_Ok [OF inv run [unfolded None]]
    obtain log where log: "list_all (good_line js) log" "disk s = render js log"
      "(records s, order s) = foldl load_step ([], []) log"
      using assms(2) by (auto simp: durable_def)
    have new: "map_of (records s) (record_key r) = None"
      using ok(1) map_of_settlements_None [OF inv] by simp
    obtain s1 where w: "writeLineLocked js fate (default_status r) s = (None, s1)"
      and s': "s' = s1\<lparr>records := AList.update (record_key r) (default_status r) (records s1),
        order := order s1 @ [record_key r]\<rparr>"
      using run None new
      by (auto simp: Append_def Let_def record_key_def split: prod.splits option.splits)
    have "disk s' = render js (log @ [default_status r])"
      using writeLine_cases [OF assms(1) asc assms(4) w] by (simp add: s' render_snoc log(2))
    moreover have "(records s', order s') = foldl load_step ([], []) (log @ [default_status r])"
      using new writeLineLocked_frame [OF w] by (simp add: s' load_step_simp flip: log(3))
    moreover have "list_all (good_line js) (log @ [default_status r])"
      using log(1) assms(3) by (simp add: storable_def)
    moreover have "\<forall>q \<in> set (settlements s'). storable js q"
      using ok(3) assms(2,3) by (auto simp: durable_def)
    ultimately have "durable js s'"
      using durableI [OF ok(2)] by blast
    then show ?thesis using run by simp
  qed
qed

lemma durable_MarkDispatched:
  assumes "json_ok js" and "durable js s" and "clean fate"
  shows "durable js (snd (MarkDispatched js fate p t s))"
proof -
  let ?k = "dedupKey p t"
  have inv: "store_inv s" using assms(2) by (simp add: durable_def)
  obtain e s' where run: "MarkDispatched js fate p t s = (e, s')" by (cases "MarkDispatched js fate p t s")
  show ?thesis
  proof (cases "s' = s")
    case True
    with run assms(2) show ?thesis by simp
  next
    case False
    then obtain r where r: "map_of (records s) ?k = Some r"
      using run by (auto simp: MarkDispatched_def Let_def split: option.splits)
    let ?r = "r\<lparr>DispatchStatus := StatusDispatched\<rparr>"
    have key: "record_key r = ?k" and st: "storable js r"
      using r map_of_settlements [OF inv] assms(2) by (auto simp: durable_def)
    then have asc: "ascii_record ?r" by (simp add: storable_def good_line_def)
    obtain s1 where w: "writeLineLocked js fate ?r s = (None, s1)" and e: "e = None"
      and s': "s' = s1\<lparr>records := AList.update ?k ?r (records s1)\<rparr>"
      using run r False writeLine_cases [OF assms(1) asc assms(3), of s]
      by (auto simp: MarkDispatched_def Let_def split: if_splits prod.splits option.splits)
    note ok = MarkDispatched_Ok [OF inv run [unfolded e]]
    obtain log where log: "list_all (good_line js) log" "disk s = render js log"
      "(records s, order s) = foldl load_step ([], []) log"
      using assms(2) by (auto simp: durable_def)
    have "disk s' = render js (log @ [?r])"
      using writeLine_cases [OF assms(1) asc assms(3) w] by (simp add: s' render_snoc log(2))
    moreover have "(records s', order s') = foldl load_step ([], []) (log @ [?r])"
      using r key writeLineLocked_frame [OF w]
      by (simp add: s' load_step_simp default_status_id StatusDispatched_def flip: log(3))
    moreover have "list_all (good_line js) (log @ [?r])"
      using log(1) st by (simp add: storable_def)
    moreover have "\<forall>q \<in> set (settlements s'). storable js q"
      using ok(3) assms(2) storable_dispatched by (auto simp: durable_def dispatch_def)
    ultimately have "durable js s'"
      using durableI [OF ok(2)] by blast
    then show ?thesis using run by simp
  qed
qed

section \<open>A codec for concrete runs\<close>

text \<open>Fields separated by commas between braces, strings in hexadecimal.\<close>

fun split_on :: "char \<Rightarrow> string \<Rightarrow> string list" where
  "split_on sep [] = [[]]"
| "split_on sep (c # cs) = (if c = sep then [] # split_on sep cs
     else (case split_on sep cs of w # ws \<Rightarrow> (c # w) # ws | [] \<Rightarrow> [[c]]))"

fun join_with :: "char \<Rightarrow> string list \<Rightarrow> string" where
  "join_with sep [] = []"
| "join_with sep [w] = w"
| "join_with sep (w # ws) = w @ sep # join_with sep ws"

lemma split_on_word: "sep \<notin> set w \<Longrightarrow> split_on sep w = [w]"
  by (induction w) auto

lemma split_on_append: "sep \<notin> set w \<Longrightarrow> split_on sep (w @ sep # rest) = w # split_on sep rest"
  by (induction w) auto

lemma split_join: "ws \<noteq> [] \<Longrightarrow> \<forall>w \<in> set ws. sep \<notin> set w \<Longrightarrow> split_on sep (join_with sep ws) = ws"
  by (induction sep ws rule: join_with.induct) (auto simp: split_on_word split_on_append)

definition hex_text :: "string \<Rightarrow> string" where
  "hex_text s = EncodeToString (map (\<lambda>c. word_of_nat (of_char c)) s)"

definition text_of_hex :: "string \<Rightarrow> string" where
  "text_of_hex h = (case DecodeString h of Ok bs \<Rightarrow> map (\<lambda>b. char_of (unat b)) bs | _ \<Rightarrow> [])"

lemma text_of_hex_text: "text_of_hex (hex_text s) = s"
proof -
  have "char_of (unat (word_of_nat (of_char c) :: byte)) = c" for c :: char
  proof -
    have "(of_char c :: nat) mod 256 = of_char c"
      using of_char_of [of "of_char c :: nat"] by simp
    then show ?thesis by (simp add: unat_of_nat)
  qed
  then show ?thesis by (simp add: text_of_hex_def hex_text_def DecodeString_EncodeToString o_def)
qed

definition field_char :: "char \<Rightarrow> bool" where
  "field_char c \<longleftrightarrow> 48 \<le> (of_char c :: nat) \<and> of_char c \<le> (102 :: nat)"

lemma field_char_hex: "c \<in> set (hex_text s) \<Longrightarrow> field_char c"
proof -
  have h: "field_char (hex_char n)" if "n < 16" for n
    using that by (auto simp: field_char_def hex_char_def)
  have "unat b div 16 < 16" for b :: byte
    using unsigned_less [where 'a = nat, of b] by simp
  with h show "c \<in> set (hex_text s) \<Longrightarrow> field_char c"
    by (auto simp: hex_text_def EncodeToString_def)
qed

lemma field_char_dec: "c \<in> set (dec_string n) \<Longrightarrow> field_char c"
  using dec_string_digits [of c n] by (simp add: field_char_def)

definition demo_fields :: "receipt_record \<Rightarrow> string list" where
  "demo_fields r = [hex_text (PaymentID r), hex_text (SettlementTxHash r), dec_string (unat (rc_SatID r)),
     hex_text (rc_Amount r), dec_string (unat (AssetID r)), hex_text (rc_Wallet r), hex_text (PacketCHex r),
     dec_string (unat (rc_BlockNumber r)), dec_string (unat (TsMs r)), hex_text (DispatchStatus r)]"

definition demo_record :: "string list \<Rightarrow> receipt_record option" where
  "demo_record fs = (case fs of
     [a, b, c, d, e, f, g, h, i, j] \<Rightarrow> Some \<lparr>PaymentID = text_of_hex a, SettlementTxHash = text_of_hex b,
       rc_SatID = word_of_nat (dec_value c), rc_Amount = text_of_hex d, AssetID = word_of_nat (dec_value e),
       rc_Wallet = text_of_hex f, PacketCHex = text_of_hex g, rc_BlockNumber = word_of_nat (dec_value h),
       TsMs = word_of_nat (dec_value i), DispatchStatus = text_of_hex j\<rparr>
   | _ \<Rightarrow> None)"

definition demo_line :: "receipt_record \<Rightarrow> string" where
  "demo_line r = CHR ''{'' # join_with CHR '','' (demo_fields r) @ [CHR ''}'']"

definition demo_js :: json_codec where
  "demo_js = \<lparr>Marshal = (\<lambda>r. Some (demo_line r)),
     Unmarshal = (\<lambda>l. if l \<noteq> [] \<and> last l = CHR ''}'' then
       (case demo_record (split_on CHR '','' (butlast (tl l))) of Some r \<Rightarrow> Ok r | None \<Rightarrow> Err ''fields'')
       else Err ''unexpected end of JSON input'')\<rparr>"

lemma demo_fields_chars: "w \<in> set (demo_fields r) \<Longrightarrow> c \<in> set w \<Longrightarrow> field_char c"
  by (auto simp: demo_fields_def field_char_hex field_char_dec)

lemma demo_record_fields: "demo_record (demo_fields r) = Some r"
  by (simp add: demo_record_def demo_fields_def text_of_hex_text dec_value_dec_string)

lemma join_chars: "c \<in> set (join_with sep ws) \<Longrightarrow> c = sep \<or> (\<exists>w \<in> set ws. c \<in> set w)"
  by (induction sep ws rule: join_with.induct) auto

lemma demo_body_chars:
  "CHR ''}'' \<notin> set (join_with CHR '','' (demo_fields r))" "newline \<notin> set (join_with CHR '','' (demo_fields r))"
  "carriage_return \<notin> set (join_with CHR '','' (demo_fields r))"
proof -
  have "c = CHR '','' \<or> field_char c" if "c \<in> set (join_with CHR '','' (demo_fields r))" for c
    using join_chars [OF that] demo_fields_chars by blast
  from this [of "CHR ''}''"] this [of newline] this [of carriage_return]
  show "CHR ''}'' \<notin> set (join_with CHR '','' (demo_fields r))" "newline \<notin> set (join_with CHR '','' (demo_fields r))"
    "carriage_return \<notin> set (join_with CHR '','' (demo_fields r))"
    by (auto simp: field_char_def newline_def carriage_return_def)
qed

lemma demo_js_cut:
  assumes "0 < n" and "n < length (demo_line r)"
  shows "Unmarshal demo_js (take n (demo_line r)) = Err ''unexpected end of JSON input''"
proof -
  let ?body = "join_with CHR '','' (demo_fields r)"
  obtain m where m: "n = Suc m" "m \<le> length ?body" using assms by (cases n) (auto simp: demo_line_def)
  then have eq: "take n (demo_line r) = CHR ''{'' # take m ?body" by (simp add: demo_line_def)
  have "last (CHR ''{'' # take m ?body) \<noteq> CHR ''}''"
  proof (cases "take m ?body = []")
    case False
    then have "last (take m ?body) \<in> set ?body" by (meson in_set_takeD last_in_set)
    with demo_body_chars(1) False show ?thesis by (metis last_ConsR)
  qed simp
  then show ?thesis unfolding eq by (simp add: demo_js_def)
qed

lemma demo_js_ok: "json_ok demo_js"
  unfolding json_ok_def
proof (intro allI impI)
  fix r
  let ?body = "join_with CHR '','' (demo_fields r)"
  have split: "split_on CHR '','' ?body = demo_fields r"
  proof (rule split_join)
    show "demo_fields r \<noteq> []" by (simp add: demo_fields_def)
    have "\<not> field_char CHR '','' " by (simp add: field_char_def)
    then show "\<forall>w \<in> set (demo_fields r). CHR '','' \<notin> set w" using demo_fields_chars by blast
  qed
  show "\<exists>line. Marshal demo_js r = Some line \<and> line \<noteq> [] \<and> newline \<notin> set line \<and> carriage_return \<notin> set line \<and>
      Unmarshal demo_js line = Ok r \<and>
      (\<forall>n. 0 < n \<longrightarrow> n < length line \<longrightarrow> (\<exists>e. Unmarshal demo_js (take n line) = Err e))"
  proof (intro exI conjI)
    show "Marshal demo_js r = Some (demo_line r)" by (simp add: demo_js_def)
    show "demo_line r \<noteq> []" by (simp add: demo_line_def)
    show "newline \<notin> set (demo_line r)" "carriage_return \<notin> set (demo_line r)"
      using demo_body_chars [of r] by (simp_all add: demo_line_def newline_def carriage_return_def)
    show "Unmarshal demo_js (demo_line r) = Ok r"
      by (simp add: demo_js_def demo_line_def butlast_append split demo_record_fields)
    show "\<forall>n. 0 < n \<longrightarrow> n < length (demo_line r) \<longrightarrow> (\<exists>e. Unmarshal demo_js (take n (demo_line r)) = Err e)"
      using demo_js_cut by blast
  qed
qed

section \<open>Runs of the store\<close>

datatype store_call = CallAppend receipt_record | CallMark string string

fun run_call :: "json_codec \<Rightarrow> store_call \<times> io_fate \<Rightarrow> store \<Rightarrow> store" where
  "run_call js (CallAppend r, f) s = snd (Append js f r s)"
| "run_call js (CallMark p t, f) s = snd (MarkDispatched js f p t s)"

fun call_ok :: "json_codec \<Rightarrow> store_call \<times> io_fate \<Rightarrow> bool" where
  "call_ok js (CallAppend r, f) \<longleftrightarrow> storable js r \<and> clean f"
| "call_ok js (CallMark p t, f) \<longleftrightarrow> clean f"

definition empty_store :: "string \<Rightarrow> store" where
  "empty_store path = \<lparr>st_path = path, disk = '''', is_open = True, records = [], order = []\<rparr>"

lemma NewStore_empty: "NewStore js Loads path '''' = Ok (empty_store path)"
  by (simp add: NewStore_def loadRecords_def empty_store_def)

lemma durable_empty: "durable js (empty_store path)"
  by (rule durableI [of _ _ "[]"])
    (simp_all add: store_inv_def settlements_def render_def empty_store_def)

lemma durable_run_call: "json_ok js \<Longrightarrow> durable js s \<Longrightarrow> call_ok js c \<Longrightarrow> durable js (run_call js c s)"
  by (cases "(js, c)" rule: call_ok.cases) (auto intro: durable_Append durable_MarkDispatched)

lemma durable_run:
  "json_ok js \<Longrightarrow> durable js s \<Longrightarrow> \<forall>c \<in> set calls. call_ok js c \<Longrightarrow> durable js (fold (run_call js) calls s)"
  by (induction calls arbitrary: s) (simp_all add: durable_run_call)

lemma writeLineLocked_errors:
  "writeLineLocked js fate r s = (Some e, s') \<Longrightarrow> e \<noteq> ErrDuplicate \<and> e \<noteq> ErrUnknown"
  by (auto simp: writeLineLocked_def Let_def split: option.splits if_splits io_fate.splits)

lemma Append_error_iff:
  "Append js fate r s = (Some e, s') \<Longrightarrow> e = ErrDuplicate \<longleftrightarrow> Has (PaymentID r) (SettlementTxHash r) s"
  by (auto simp: Append_def Has_def Let_def split: if_splits prod.splits option.splits
      dest: writeLineLocked_errors)

lemma MarkDispatched_error_iff:
  "MarkDispatched js fate p t s = (Some e, s') \<Longrightarrow> e = ErrUnknown \<longleftrightarrow> \<not> Has p t s"
  by (auto simp: MarkDispatched_def Has_def Let_def split: if_splits prod.splits option.splits
      dest: writeLineLocked_errors)

section \<open>Properties\<close>

text \<open>
  C10.  The store implements a queue of receipts keyed by payment and transaction.  Whatever the
  operating system does with a write: \<^verbatim>\<open>Append\<close> either adds the receipt, PENDING by default, at the
  end of the queue under a key that was not there, or returns an error and leaves the queue as it
  was, and the error is \<^verbatim>\<open>ErrDuplicate\<close> exactly when the key was there; \<^verbatim>\<open>MarkDispatched\<close> either sets
  the status of that one receipt in place or changes nothing, \<^verbatim>\<open>ErrUnknown\<close> exactly when the key is
  absent; \<^verbatim>\<open>PendingRecords\<close> returns the oldest pending receipts up to the limit, \<^verbatim>\<open>Count\<close> the number
  of receipts; and no key ever occurs twice.
\<close>

theorem store_implements_queue:
  assumes "store_inv s"
  shows "(case Append js fate r s of
      (None, s') \<Rightarrow> store_inv s' \<and> settlements s' = settlements s @ [default_status r] \<and>
        \<not> Has (PaymentID r) (SettlementTxHash r) s
    | (Some e, s') \<Rightarrow> store_inv s' \<and> settlements s' = settlements s \<and>
        (e = ErrDuplicate \<longleftrightarrow> Has (PaymentID r) (SettlementTxHash r) s)) \<and>
    (case MarkDispatched js fate p t s of
      (None, s') \<Rightarrow> store_inv s' \<and> settlements s' = map (dispatch (dedupKey p t)) (settlements s) \<and> Has p t s
    | (Some e, s') \<Rightarrow> store_inv s' \<and> settlements s' = settlements s \<and> (e = ErrUnknown \<longleftrightarrow> \<not> Has p t s)) \<and>
    PendingRecords limit s = take (nat limit) (filter pending (settlements s)) \<and>
    Count s = length (settlements s) \<and> distinct (map record_key (settlements s))"
proof (intro conjI)
  show "case Append js fate r s of
      (None, s') \<Rightarrow> store_inv s' \<and> settlements s' = settlements s @ [default_status r] \<and>
        \<not> Has (PaymentID r) (SettlementTxHash r) s
    | (Some e, s') \<Rightarrow> store_inv s' \<and> settlements s' = settlements s \<and>
        (e = ErrDuplicate \<longleftrightarrow> Has (PaymentID r) (SettlementTxHash r) s)"
    using receipt_store.append_Ok [OF assms, of js fate r] receipt_store.append_Err [OF assms, of js fate r]
      Append_error_iff [of js fate r s] receipt_store.has_iff [OF assms]
    by (auto simp: record_key_def split: prod.splits option.splits)
  show "case MarkDispatched js fate p t s of
      (None, s') \<Rightarrow> store_inv s' \<and> settlements s' = map (dispatch (dedupKey p t)) (settlements s) \<and> Has p t s
    | (Some e, s') \<Rightarrow> store_inv s' \<and> settlements s' = settlements s \<and> (e = ErrUnknown \<longleftrightarrow> \<not> Has p t s)"
    using receipt_store.mark_Ok [OF assms, of js fate p t] receipt_store.mark_Err [OF assms, of js fate p t]
      MarkDispatched_error_iff [of js fate p t s] receipt_store.has_iff [OF assms]
    by (auto split: prod.splits option.splits)
  show "PendingRecords limit s = take (nat limit) (filter pending (settlements s))"
    using receipt_store.pending_eq [OF assms] .
  show "Count s = length (settlements s)" using Count_queue [OF assms] .
  show "distinct (map record_key (settlements s))" using receipt_store.keys_distinct [OF assms] .
qed

definition demo_receipt :: receipt_record where
  "demo_receipt = \<lparr>PaymentID = ''12'', SettlementTxHash = ''0xab'', rc_SatID = 7, rc_Amount = ''42'', AssetID = 1,
     rc_Wallet = ''0x01'', PacketCHex = ''1d01'', rc_BlockNumber = 3, TsMs = 1000, DispatchStatus = ''''\<rparr>"

theorem store_implements_queue_witness:
  "\<exists>s'. Append demo_js Stored demo_receipt (empty_store ''f'') = (None, s') \<and>
     settlements s' = [default_status demo_receipt]"
proof -
  have inv: "store_inv (empty_store ''f'')" using durable_empty by (simp add: durable_def)
  obtain s' where "Append demo_js Stored demo_receipt (empty_store ''f'') = (None, s')"
    by (simp add: Append_def empty_store_def writeLineLocked_def demo_js_def Let_def)
  moreover have "settlements (empty_store ''f'') = []" by (simp add: settlements_def empty_store_def)
  ultimately show ?thesis
    using store_implements_queue [where js = demo_js and fate = Stored and r = demo_receipt, OF inv] by simp
qed

text \<open>
  C26.  Crash safety.  Take a store whose file and memory agree and records whose line the loader can read
  back (\<^verbatim>\<open>storable\<close>: ASCII text, and a line within the scanner's limit).  After any run of \<^verbatim>\<open>Append\<close> and
  \<^verbatim>\<open>MarkDispatched\<close> calls whose writes were either stored and synced or failed before a byte reached the file, opening the file again gives the very
  state the process had in memory: the same receipts with the same statuses in the same drain order.
  So nothing a successful call recorded is lost by a crash, and a replayed settlement is still
  recognised as a duplicate.  Torn writes and failed syncs are outside this property.
\<close>

theorem reload_restores_store:
  assumes "json_ok js" and "durable js s" and "\<forall>c \<in> set calls. call_ok js c"
  shows "NewStore js Loads path (disk (fold (run_call js) calls s))
    = Ok ((fold (run_call js) calls s)\<lparr>st_path := path, is_open := True\<rparr>)"
  by (rule reload_durable [OF assms(1) durable_run [OF assms]])

lemma demo_receipt_storable: "storable demo_js demo_receipt"
proof -
  have "length (demo_line (default_status demo_receipt)) < 100"
    "length (demo_line (demo_receipt\<lparr>DispatchStatus := StatusDispatched\<rparr>)) < 100"
    by code_simp+
  moreover have "ascii_record (default_status demo_receipt)"
    "ascii_record (demo_receipt\<lparr>DispatchStatus := StatusDispatched\<rparr>)"
    by code_simp+
  ultimately show ?thesis
    by (simp add: storable_def good_line_def store_line_def demo_js_def maxTokenSize_def)
qed

theorem reload_restores_store_witness:
  "let s = fold (run_call demo_js) [(CallAppend demo_receipt, Stored), (CallMark ''12'' ''0xab'', Stored)]
     (empty_store ''f'')
   in NewStore demo_js Loads ''f'' (disk s) = Ok (s\<lparr>st_path := ''f'', is_open := True\<rparr>) \<and> Count s = 1 \<and>
     PendingRecords 10 s = []"
proof -
  let ?calls = "[(CallAppend demo_receipt, Stored), (CallMark ''12'' ''0xab'', Stored)]"
  have "\<forall>c \<in> set ?calls. call_ok demo_js c"
    using demo_receipt_storable by (simp add: clean_def)
  note reload_restores_store [OF demo_js_ok durable_empty this, of "''f''" "''f''"]
  moreover have "Count (fold (run_call demo_js) ?calls (empty_store ''f'')) = 1"
    "PendingRecords 10 (fold (run_call demo_js) ?calls (empty_store ''f'')) = []"
    by code_simp+
  ultimately show ?thesis by (simp add: Let_def)
qed

lemma not_Has_new: "\<not> Has (PaymentID r) (SettlementTxHash r) s \<Longrightarrow> map_of (records s) (record_key r) = None"
  by (simp add: Has_def record_key_def)

lemma settlements_snoc:
  assumes "store_inv s" and "map_of (records s) (record_key r) = None"
    and "records s' = records s @ [(record_key r, default_status r)]" and "order s' = order s @ [record_key r]"
  shows "settlements s' = settlements s @ [default_status r]"
proof -
  have "store_inv s'"
    using assms by (auto simp: store_inv_def map_of_eq_None_iff simp flip: set_map)
  with assms show ?thesis by (simp add: settlements_records)
qed

text \<open>
  C37.  A crash or a failed write in the middle of a line.  Take a store in a good state and an append
  of a new receipt of which only the first \<open>n\<close> bytes of the line reach the file.  With no byte
  written the file reopens to the state before; with the whole object written, its newline or not,
  to the state with the receipt; but with any proper part of the object the file can not be opened
  any more: \<^verbatim>\<open>NewStore\<close> fails on that line, and none of the receipts stored before is available.
\<close>

theorem crash_during_append:
  assumes "json_ok js" and "durable js s" and "storable js r" and "\<not> Has (PaymentID r) (SettlementTxHash r) s"
    and "is_open s"
  defines "line \<equiv> store_line js (default_status r)"
  shows "let torn = disk (snd (Append js (WriteError n e) r s)) in
    if n = 0 then NewStore js Loads path torn = Ok (s\<lparr>st_path := path, is_open := True\<rparr>)
    else if n < length line then \<exists>k err. NewStore js Loads path torn = Err (MalformedJSONL k err)
    else \<exists>s'. NewStore js Loads path torn = Ok s' \<and> settlements s' = settlements s @ [default_status r]"
proof -
  have inv: "store_inv s" using assms(2) by (simp add: durable_def)
  have good: "good_line js (default_status r)" using assms(3) by (simp add: storable_def)
  then have asc: "ascii_record (default_status r)" by (simp add: good_line_def)
  note jl = json_line [OF assms(1) asc, folded line_def]
  have torn: "disk (snd (Append js (WriteError n e) r s)) = disk s @ take n (line @ [newline])"
    using assms(4,5) jl(1) by (simp add: Append_def Has_def writeLineLocked_def Let_def)
  obtain log where log: "list_all (good_line js) log" "disk s = render js log"
    "(records s, order s) = foldl load_step ([], []) log"
    using assms(2) by (auto simp: durable_def)
  note open_torn = NewStore_render [OF assms(1) log(1), of path "take n (line @ [newline])",
      folded log(2) torn, folded log(3)]
  have nl: "newline \<notin> set (take n line)" using jl(3) by (meson in_set_takeD)
  have short: "length line < maxTokenSize" using good by (simp add: good_line_def line_def)
  show ?thesis
  proof (cases "n < length line")
    case True
    then have cut: "scan_from [] (take n (line @ [newline])) = (if n = 0 then [] else [take n line])"
      using jl(2) by (simp add: scan_from_open [OF nl])
    show ?thesis
    proof (cases "n = 0")
      case True
      with open_torn cut torn show ?thesis by simp
    next
      case False
      then obtain err where "Unmarshal js (take n line) = Err err" using jl(6) True by blast
      with open_torn cut False True short jl(7) [of n] torn show ?thesis by simp
    qed
  next
    case False
    then have tk: "take n (line @ [newline]) = line \<or> take n (line @ [newline]) = line @ [newline]"
      by (cases "n = length line") auto
    have sc: "scan_from [] (take n (line @ [newline])) = [line]"
      using tk scan_from_open [OF jl(3), of "[]"] scan_from_line [OF jl(3), of "[]" "[]"] jl(2) by auto
    note new = not_Has_new [OF assms(4)]
    let ?s = "\<lparr>st_path = path, disk = disk (snd (Append js (WriteError n e) r s)), is_open = True,
      records = records s @ [(record_key r, default_status r)], order = order s @ [record_key r]\<rparr>"
    have "NewStore js Loads path (disk (snd (Append js (WriteError n e) r s))) = Ok ?s"
      using open_torn sc short jl(4,5) new
      by (simp add: load_step_simp update_new map_of_eq_None_iff torn)
    moreover have "settlements ?s = settlements s @ [default_status r]"
      by (rule settlements_snoc [OF inv new]) simp_all
    ultimately show ?thesis using False jl(2) by auto
  qed
qed

theorem crash_during_append_witness:
  "\<exists>k err. NewStore demo_js Loads ''f'' (disk (snd (Append demo_js (WriteError 5 ''disk full'') demo_receipt
     (empty_store ''f'')))) = Err (MalformedJSONL k err)"
proof -
  have "\<not> Has (PaymentID demo_receipt) (SettlementTxHash demo_receipt) (empty_store ''f'')"
    by (simp add: Has_def empty_store_def)
  moreover have "is_open (empty_store ''f'')" by (simp add: empty_store_def)
  moreover have "5 < length (demo_line (default_status demo_receipt))" by code_simp
  then have "5 < length (store_line demo_js (default_status demo_receipt))"
    by (simp add: store_line_def demo_js_def)
  ultimately show ?thesis
    using crash_during_append [OF demo_js_ok durable_empty demo_receipt_storable,
        of "''f''" 5 "''disk full''" "''f''"] by simp
qed

end
