(* ===== verification/Egress_Page.thy ===== *)
theory Egress_Page
  imports Egress_Scanner Store_Durability
begin

text \<open>
  The page of receipts between the two programs: the JSON text that the gateway's
  \<^verbatim>\<open>GET /api/v1/egress/pending\<close> answers with, and what the ground station's scanner reads from it.
\<close>

section \<open>The page as the gateway writes it\<close>

text \<open>
  \<^verbatim>\<open>encoding/json\<close> on a slice of records: members in the order of the struct, no blanks, the status left
  out when it is empty.  The strings of a receipt are digits and hexadecimal, for which nothing is
  escaped; \<^verbatim>\<open>plain_record\<close> says so.
\<close>

definition json_str :: "string \<Rightarrow> string" where
  "json_str s = dquote # s @ [dquote]"

definition json_int :: "int \<Rightarrow> string" where
  "json_int i = (if i < 0 then CHR ''-'' # dec_string (nat (- i)) else dec_string (nat i))"

definition json_member :: "string \<Rightarrow> string \<Rightarrow> string" where
  "json_member k v = json_str k @ CHR '':'' # v"

definition record_members :: "receipt_record \<Rightarrow> string list" where
  "record_members r =
     [json_member ''payment_id'' (json_str (PaymentID r)), json_member ''settlement_tx_hash'' (json_str (SettlementTxHash r)),
      json_member ''sat_id'' (dec_string (unat (rc_SatID r))), json_member ''amount'' (json_str (rc_Amount r)),
      json_member ''asset_id'' (dec_string (unat (AssetID r))), json_member ''wallet'' (json_str (rc_Wallet r)),
      json_member ''packet_c_hex'' (json_str (PacketCHex r)), json_member ''block_number'' (dec_string (unat (rc_BlockNumber r))),
      json_member ''ts_ms'' (json_int (sint (TsMs r)))] @
     (if DispatchStatus r = '''' then [] else [json_member ''dispatch_status'' (json_str (DispatchStatus r))])"

definition record_json :: "receipt_record \<Rightarrow> string" where
  "record_json r = CHR ''{'' # join_with CHR '','' (record_members r) @ [CHR ''}'']"

definition records_json :: "receipt_record list \<Rightarrow> string" where
  "records_json rs = CHR ''['' # join_with CHR '','' (map record_json rs) @ [CHR '']'']"

definition json_plain :: "string \<Rightarrow> bool" where
  "json_plain s \<longleftrightarrow> list_all (\<lambda>c. let n = of_char c :: nat in 48 \<le> n \<and> n \<le> 57 \<or> 65 \<le> n \<and> n \<le> 90 \<or> 97 \<le> n \<and> n \<le> 122) s"

definition plain_record :: "receipt_record \<Rightarrow> bool" where
  "plain_record r \<longleftrightarrow> json_plain (PaymentID r) \<and> json_plain (SettlementTxHash r) \<and> json_plain (rc_Amount r) \<and>
     json_plain (rc_Wallet r) \<and> json_plain (PacketCHex r) \<and> json_plain (DispatchStatus r)"

definition egress_fields :: "receipt_record \<Rightarrow> egress_record" where
  "egress_fields r = \<lparr>eg_payment_id = PaymentID r, eg_settlement_tx_hash = SettlementTxHash r, eg_packet_c_hex = PacketCHex r\<rparr>"

section \<open>Scanning the page\<close>

lemma json_plain_unescaped: "json_plain s \<Longrightarrow> unescaped s"
  unfolding json_plain_def unescaped_def by (erule list.pred_mono_strong) (auto simp: Let_def)

lemma json_plain_not_key: "json_plain s \<Longrightarrow> s \<noteq> ''payment_id'' \<and> s \<noteq> ''settlement_tx_hash'' \<and> s \<noteq> ''packet_c_hex''"
  by (auto simp: json_plain_def)

text \<open>What the brace counter and the search for a key pass over.\<close>

definition passed :: "string \<Rightarrow> string \<Rightarrow> bool" where
  "passed key x \<longleftrightarrow> (\<forall>m w. key_value key m (x @ w) = key_value key m w)"

definition balanced :: "string \<Rightarrow> bool" where
  "balanced x \<longleftrightarrow> (\<forall>w. object_rest (x @ w) 1 False = object_rest w 1 False)"

definition bare :: "string \<Rightarrow> bool" where
  "bare x \<longleftrightarrow> list_all (\<lambda>c. c \<noteq> dquote \<and> c \<noteq> CHR ''{'' \<and> c \<noteq> CHR ''}'') x"

lemma passed_append: "passed key x \<Longrightarrow> passed key y \<Longrightarrow> passed key (x @ y)"
  by (simp add: passed_def)

lemma balanced_append: "balanced x \<Longrightarrow> balanced y \<Longrightarrow> balanced (x @ y)"
  by (simp add: balanced_def)

lemma bare_passes: "bare x \<Longrightarrow> passed key x" "bare x \<Longrightarrow> balanced x"
  unfolding bare_def passed_def balanced_def
  by (intro allI key_value_chars, erule list.pred_mono_strong, simp) (intro allI object_rest_chars)

lemma json_str_passes:
  "unescaped v \<Longrightarrow> unescaped key \<Longrightarrow> v \<noteq> key \<Longrightarrow> passed key (json_str v)" "unescaped v \<Longrightarrow> balanced (json_str v)"
  by (simp_all add: json_str_def passed_def balanced_def key_value_skip object_rest_string)

lemma bare_dec_string: "bare (dec_string n)"
  unfolding bare_def list_all_iff using dec_string_digits [of _ n] by force

lemma bare_json_int: "bare (json_int i)"
  using bare_dec_string by (simp add: json_int_def bare_def)

lemma member_passes:
  "unescaped k \<Longrightarrow> unescaped key \<Longrightarrow> k \<noteq> key \<Longrightarrow> passed key v \<Longrightarrow> passed key (json_member k v)"
  "unescaped k \<Longrightarrow> balanced v \<Longrightarrow> balanced (json_member k v)"
proof -
  have colon: "bare [CHR '':'']" by (simp add: bare_def)
  show "unescaped k \<Longrightarrow> unescaped key \<Longrightarrow> k \<noteq> key \<Longrightarrow> passed key v \<Longrightarrow> passed key (json_member k v)"
    using json_str_passes(1) bare_passes(1) [OF colon] passed_append [of key "json_str k" "CHR '':'' # v"]
      passed_append [of key "[CHR '':'']" v] by (simp add: json_member_def)
  show "unescaped k \<Longrightarrow> balanced v \<Longrightarrow> balanced (json_member k v)"
    using json_str_passes(2) bare_passes(2) [OF colon] balanced_append [of "json_str k" "CHR '':'' # v"]
      balanced_append [of "[CHR '':'']" v] by (simp add: json_member_def)
qed

lemma join_Cons: "ws \<noteq> [] \<Longrightarrow> join_with sep (w # ws) = w @ sep # join_with sep ws"
  by (cases ws) simp_all

lemma balanced_join: "list_all balanced ms \<Longrightarrow> balanced (join_with CHR '','' ms)"
proof (induction ms)
  case (Cons m ms)
  have comma: "balanced [CHR '','']" by (rule bare_passes(2)) (simp add: bare_def)
  show ?case
  proof (cases "ms = []")
    case False
    with Cons balanced_append [OF comma, of "join_with CHR '','' ms"] balanced_append [of m "CHR '','' # join_with CHR '','' ms"]
    show ?thesis by (simp add: join_Cons)
  qed (use Cons in simp)
qed (simp add: balanced_def)

lemma key_value_join:
  assumes "list_all (passed key) pre" and "unescaped v" and "length v < m"
  shows "key_value key m (join_with CHR '','' (pre @ json_member key (json_str v) # post) @ w) = Some v"
  using assms(1)
proof (induction pre)
  case Nil
  obtain u where "join_with CHR '','' (json_member key (json_str v) # post) @ w = json_member key (json_str v) @ u"
    by (cases post) simp_all
  moreover have "json_member key (json_str v) @ u = dquote # key @ dquote # CHR '':'' # dquote # v @ dquote # u"
    by (simp add: json_member_def json_str_def)
  ultimately show ?case using key_value_hit [OF assms(2), of m key u] assms(3) by simp
next
  case (Cons x pre)
  then have x: "passed key x" by simp
  have "passed key [CHR '','']" by (rule bare_passes(1)) (simp add: bare_def)
  with x Cons show ?case by (simp add: join_Cons passed_def)
qed

lemma key_unescaped [simp]:
  "unescaped ''payment_id''" "unescaped ''settlement_tx_hash''" "unescaped ''sat_id''" "unescaped ''amount''" "unescaped ''asset_id''"
  "unescaped ''wallet''" "unescaped ''packet_c_hex''" "unescaped ''block_number''" "unescaped ''ts_ms''" "unescaped ''dispatch_status''"
  by (simp_all add: unescaped_def)

lemma plain_value:
  assumes "json_plain v"
  shows "balanced (json_str v)" and "key \<in> {''payment_id'', ''settlement_tx_hash'', ''packet_c_hex''} \<Longrightarrow> passed key (json_str v)"
  using json_str_passes(2) [OF json_plain_unescaped [OF assms]] json_plain_not_key [OF assms]
    json_str_passes(1) [OF json_plain_unescaped [OF assms], of key]
  by auto

lemma record_object_rest:
  assumes "plain_record r" and "w \<noteq> []"
  shows "object_rest (record_json r @ w) 0 False = Some w"
proof -
  note v = plain_value(1) bare_passes(2) [OF bare_dec_string] bare_passes(2) [OF bare_json_int]
  have "list_all balanced (record_members r)"
    using assms(1) by (simp add: record_members_def plain_record_def member_passes(2) v)
  from balanced_join [OF this] assms(2) show ?thesis
    by (simp add: record_json_def object_rest_braces(1) balanced_def object_rest_braces(2))
qed

lemma record_key_values:
  assumes "plain_record r"
  shows "length (PaymentID r) < m \<Longrightarrow> key_value ''payment_id'' m (record_json r) = Some (PaymentID r)"
    and "length (SettlementTxHash r) < m \<Longrightarrow> key_value ''settlement_tx_hash'' m (record_json r) = Some (SettlementTxHash r)"
    and "length (PacketCHex r) < m \<Longrightarrow> key_value ''packet_c_hex'' m (record_json r) = Some (PacketCHex r)"
proof -
  note plain = assms [unfolded plain_record_def]
  note v = plain_value(2) bare_passes(1) [OF bare_dec_string] bare_passes(1) [OF bare_json_int]
  let ?pid = "json_member ''payment_id'' (json_str (PaymentID r))" and ?tx = "json_member ''settlement_tx_hash'' (json_str (SettlementTxHash r))"
  let ?mid = "[json_member ''sat_id'' (dec_string (unat (rc_SatID r))), json_member ''amount'' (json_str (rc_Amount r)),
      json_member ''asset_id'' (dec_string (unat (AssetID r))), json_member ''wallet'' (json_str (rc_Wallet r))]"
  obtain tail where tail: "record_members r = ?pid # ?tx # ?mid @ json_member ''packet_c_hex'' (json_str (PacketCHex r)) # tail"
    by (simp add: record_members_def)
  have brace: "key_value key m (record_json r) = key_value key m (join_with CHR '','' (record_members r) @ [CHR ''}''])" for key m
    by (simp add: record_json_def key_value_char)
  note expand = brace tail append_Cons append_Nil
  show "key_value ''payment_id'' m (record_json r) = Some (PaymentID r)" if "length (PaymentID r) < m"
    unfolding expand
    by (rule key_value_join [where pre = "[]", unfolded append_Nil]) (use plain that json_plain_unescaped in simp_all)
  have "list_all (passed ''settlement_tx_hash'') [?pid]"
    using plain by (simp add: member_passes(1) v)
  then show "key_value ''settlement_tx_hash'' m (record_json r) = Some (SettlementTxHash r)" if "length (SettlementTxHash r) < m"
    unfolding expand
    by (rule key_value_join [where pre = "[?pid]", unfolded append_Cons append_Nil]) (use plain that json_plain_unescaped in simp_all)
  have "list_all (passed ''packet_c_hex'') (?pid # ?tx # ?mid)"
    using plain by (simp add: member_passes(1) v)
  then show "key_value ''packet_c_hex'' m (record_json r) = Some (PacketCHex r)" if "length (PacketCHex r) < m"
    unfolding expand
    by (rule key_value_join [where pre = "?pid # ?tx # ?mid", unfolded append_Cons append_Nil])
      (use plain that json_plain_unescaped in simp_all)
qed

definition readable_record :: "receipt_record \<Rightarrow> bool" where
  "readable_record r \<longleftrightarrow> plain_record r \<and> length (PaymentID r) < 96 \<and> length (SettlementTxHash r) < 80 \<and> length (PacketCHex r) < 240"

lemma parse_entry_record:
  assumes "pos \<le> length body" and "seg body pos (length body) = record_json r @ w" and "w \<noteq> []" and "readable_record r"
    and "k < n"
  shows "parse_entry body pos k n = Ok (egress_fields r, length body - length w)"
proof -
  let ?n = "length body" and ?e = "length body - length w"
  have plain: "plain_record r" using assms(4) by (simp add: readable_record_def)
  obtain t where t: "record_json r = CHR ''{'' # t" by (simp add: record_json_def)
  have brace: "\<not> is_ws (CHR ''{'')" by (simp add: is_ws_def)
  have len: "length (record_json r) + length w = ?n - pos"
    using length_seg [of ?n body pos] assms(2) by simp
  have lt: "pos < ?n" using len t by simp
  have at: "char_at body pos = Some (CHR ''{'')"
    using seg_step [OF lt, of body] assms(2) t lt by (simp add: char_at_def)
  have ws: "skip_ws body pos ?n = Ok pos" using lt at brace by (intro skip_ws_stay)
  have fe: "find_object_end body pos ?n = Ok ?e"
    using object_end_text [of ?n body pos 0 False] assms(1,2) record_object_rest [OF plain assms(3)] lt at
    by (simp add: find_object_end_def)
  have e: "pos + length (record_json r) = ?e" "?e < ?n" "pos \<le> ?e" using len assms(1,3) by (cases w; simp)+
  have "seg body pos ?e = take (length (record_json r)) (seg body pos ?n)"
    using len e(1) by (simp add: seg_def e(1) [symmetric])
  then have obj: "seg body pos ?e = record_json r" using assms(2) by simp
  have "parse_record body pos ?e = Ok (egress_fields r)"
    using record_key_values [OF plain] assms(4) e(2,3)
    by (simp add: parse_record_def find_and_extract_key_text obj readable_record_def egress_fields_def
        EgressPaymentIdMaxLen_def EgressTxHashMaxLen_def EgressPacketCHexMaxLen_def)
  with ws lt at fe e(2) assms(5) show ?thesis by (simp add: parse_entry_def Let_def)
qed

lemma parse_loop_records:
  assumes "pos \<le> length body" and "seg body pos (length body) = join_with CHR '','' (map record_json rs) @ [CHR '']'']"
    and "rs \<noteq> []" and "list_all readable_record rs" and "length recs + length rs \<le> n"
  shows "parse_loop body pos n recs = Ok (recs @ map egress_fields rs)"
  using assms
proof (induction rs arbitrary: pos recs)
  case (Cons r rs)
  let ?n = "length body"
  obtain c w where split: "seg body pos ?n = record_json r @ c # w"
    and cw: "c # w = (if rs = [] then [CHR '']''] else CHR '','' # join_with CHR '','' (map record_json rs) @ [CHR '']''])"
    using Cons.prems(2) by (cases "rs = []") (auto simp: join_Cons)
  have entry: "parse_entry body pos (length recs) n = Ok (egress_fields r, ?n - length (c # w))"
    using parse_entry_record [OF Cons.prems(1) split] Cons.prems(4,5) by simp
  have lt: "pos < ?n" using Cons.prems(1) split by (cases "pos = ?n") auto
  obtain q where q: "q = ?n - length (c # w)" "q < ?n" "char_at body q = Some c" "seg body (Suc q) ?n = w"
    using left_Cons [of ?n body pos c w] Cons.prems(1) split by (auto simp: suffix_def)
  have "\<not> is_ws c" using cw by (auto simp: is_ws_def split: if_splits)
  then have ws: "skip_ws body q ?n = Ok q" using q(2,3) by (intro skip_ws_stay)
  show ?case
  proof (cases "rs = []")
    case True
    then show ?thesis using entry lt q ws cw by (simp add: parse_loop.simps [of body pos])
  next
    case False
    have "parse_loop body (Suc q) n (recs @ [egress_fields r]) = Ok ((recs @ [egress_fields r]) @ map egress_fields rs)"
      using Cons.prems(4,5) q(2,4) cw False by (intro Cons.IH) simp_all
    moreover have "length recs + 1 < n" using Cons.prems(5) False by (cases rs) simp_all
    ultimately show ?thesis using entry lt q ws cw False by (simp add: parse_loop.simps [of body pos])
  qed
qed simp

lemma parse_page:
  assumes "length rs \<le> n" and "0 < n" and "list_all readable_record rs"
  shows "parse_pending_response (records_json rs) n = Ok (map egress_fields rs)"
proof -
  let ?b = "records_json rs"
  let ?w = "join_with CHR '','' (map record_json rs) @ [CHR '']'']"
  have b: "?b = CHR ''['' # ?w" by (simp add: records_json_def)
  have ws: "\<not> is_ws (CHR ''['')" "\<not> is_ws (CHR '']'')" "\<not> is_ws (CHR ''{'')" by (simp_all add: is_ws_def)
  obtain c t where w: "?w = c # t" "\<not> is_ws c" "c = CHR '']'' \<longleftrightarrow> rs = []"
  proof (cases rs)
    case (Cons r rest)
    then show ?thesis using that ws(3) by (cases rest) (simp_all add: record_json_def)
  qed (use that ws(2) in simp)
  have at: "char_at ?b 0 = Some (CHR ''['')" "char_at ?b (Suc 0) = Some c" and lt: "Suc 0 < length ?b" and ne: "?b \<noteq> []"
    using w(1) by (simp_all add: char_at_def b)
  have "skip_ws ?b 0 (length ?b) = Ok 0" using Suc_lessD [OF lt] at(1) ws(1) by (rule skip_ws_stay)
  moreover have "skip_ws ?b (Suc 0) (length ?b) = Ok (Suc 0)" using lt at(2) w(2) by (intro skip_ws_stay)
  moreover have "seg ?b (Suc 0) (length ?b) = ?w" by (simp add: b seg_def)
  then have "rs \<noteq> [] \<Longrightarrow> parse_loop ?b (Suc 0) n [] = Ok (map egress_fields rs)"
    using parse_loop_records [of "Suc 0" ?b rs "[]" n] assms b by simp
  ultimately show ?thesis
    using assms(2) w(3) at lt ne by (cases "rs = []") (simp_all add: parse_pending_response_def Let_def)
qed

section \<open>Properties\<close>

text \<open>
  C22.  The page round trip.  On the JSON array that the gateway writes for up to ten receipts, whose strings
  need no escaping and fit the ground station's buckets, the scanner returns exactly their payment
  ids, transaction hashes and frames, one record each and in the order of the page; the other
  members, whatever their values, are passed over.
\<close>

theorem scanner_reads_page:
  assumes "length rs \<le> n" and "0 < n" and "list_all readable_record rs"
  shows "parse_pending_response (records_json rs) n = Ok (map (\<lambda>r. \<lparr>eg_payment_id = PaymentID r,
    eg_settlement_tx_hash = SettlementTxHash r, eg_packet_c_hex = PacketCHex r\<rparr>) rs)"
  using parse_page [OF assms] by (simp add: egress_fields_def [abs_def])

theorem scanner_reads_page_witness:
  "parse_pending_response (records_json [demo_receipt, demo_receipt\<lparr>PaymentID := ''7''\<rparr>]) 10
     = Ok [\<lparr>eg_payment_id = PaymentID demo_receipt, eg_settlement_tx_hash = SettlementTxHash demo_receipt,
            eg_packet_c_hex = PacketCHex demo_receipt\<rparr>,
           \<lparr>eg_payment_id = ''7'', eg_settlement_tx_hash = SettlementTxHash demo_receipt, eg_packet_c_hex = PacketCHex demo_receipt\<rparr>]"
proof -
  have "list_all readable_record [demo_receipt, demo_receipt\<lparr>PaymentID := ''7''\<rparr>]" by code_simp
  from scanner_reads_page [OF _ _ this, of 10] show ?thesis by simp
qed

end
