(* ===== verification/Egress_Client.thy ===== *)
theory Egress_Client
  imports Egress_Page
begin

text \<open>
  \<^verbatim>\<open>ground-station/src/egress_poll_client.cpp\<close> and \<^verbatim>\<open>include/egress_orchestrator.h\<close>: the HTTP client of the
  ground station and the loop that drains the gateway's receipts.  The network is a function from
  the request text to what \<^verbatim>\<open>recv\<close> then returns, threaded through a state: \<^verbatim>\<open>None\<close> when the connection or
  the sending failed, and otherwise the chunks until the peer closes, a failed \<^verbatim>\<open>recv\<close> being \<^verbatim>\<open>None\<close>.
\<close>

section \<open>Reading a response\<close>

abbreviation crlf :: string where "crlf \<equiv> [CHR 0x0D, CHR 0x0A]"

definition RESP_CAP :: nat where "RESP_CAP = 64 * 1024"
definition REQ_BUF_SIZE :: nat where "REQ_BUF_SIZE = 512"

definition is_digit :: "char \<Rightarrow> bool" where
  "is_digit c \<longleftrightarrow> 48 \<le> (of_char c :: nat) \<and> of_char c \<le> (57 :: nat)"

fun decimal_loop :: "string \<Rightarrow> u64 \<Rightarrow> nat \<Rightarrow> u64 \<times> nat" where
  "decimal_loop [] v i = (v, i)"
| "decimal_loop (c # s) v i =
     (if is_digit c then decimal_loop s (v * 10 + word_of_nat (of_char c - 48)) (Suc i) else (v, i))"

definition parse_decimal :: "string \<Rightarrow> u64 option" where
  "parse_decimal s = (case decimal_loop s 0 0 of (v, i) \<Rightarrow> if i = 0 then None else Some v)"

definition parse_status_line :: "string \<Rightarrow> int" where
  "parse_status_line buf =
     (if length buf < 12 then - 1
      else if take 9 buf \<noteq> ''HTTP/1.0 '' \<and> take 9 buf \<noteq> ''HTTP/1.1 '' then - 1
      else case parse_decimal (drop 9 buf) of
          None \<Rightarrow> - 1
        | Some code \<Rightarrow> sint (ucast code :: 32 word))"

fun header_end_from :: "string \<Rightarrow> nat \<Rightarrow> nat" where
  "header_end_from (a # b # c # d # s) i =
     (if a = CHR 0x0D \<and> b = CHR 0x0A \<and> c = CHR 0x0D \<and> d = CHR 0x0A then i + 4
      else header_end_from (b # c # d # s) (Suc i))"
| "header_end_from s i = 0"

definition find_header_end :: "string \<Rightarrow> nat" where
  "find_header_end buf = header_end_from buf 0"

definition to_lower :: "char \<Rightarrow> char" where
  "to_lower c = (if 65 \<le> (of_char c :: nat) \<and> of_char c \<le> (90 :: nat) then char_of (of_char c + 32 :: nat) else c)"

definition content_length_at :: "string \<Rightarrow> bool" where
  "content_length_at s \<longleftrightarrow> map to_lower (take 15 s) = ''content-length:''"

text \<open>The scan for the header; the value is read after blanks.  \<^verbatim>\<open>i + nlen < hdr_len\<close> bounds the loop.\<close>

fun parse_content_length :: "string \<Rightarrow> u64 option" where
  "parse_content_length [] = None"
| "parse_content_length (c # s) =
     (if \<not> 15 < length (c # s) then None
      else if content_length_at (c # s)
      then parse_decimal (dropWhile (\<lambda>c. c = CHR '' '' \<or> c = CHR 0x09) (drop 15 (c # s)))
      else parse_content_length s)"

fun read_full_response :: "string option list \<Rightarrow> string \<Rightarrow> string option" where
  "read_full_response [] resp = Some resp"
| "read_full_response (r # rs) resp =
     (if length resp < RESP_CAP
      then (case r of
              None \<Rightarrow> None
            | Some chunk \<Rightarrow>
                if chunk = [] then Some resp
                else if length resp + length chunk > RESP_CAP then None
                else read_full_response rs (resp @ chunk))
      else Some resp)"

text \<open>The part of \<^verbatim>\<open>do_round_trip\<close> after the network: the status and the body, or failure.\<close>

definition read_response :: "string option list \<Rightarrow> nat \<Rightarrow> (int \<times> string) option" where
  "read_response rs body_cap =
     (case read_full_response rs [] of
        None \<Rightarrow> None
      | Some resp \<Rightarrow>
          if length resp < 12 then None
          else let status_code = parse_status_line resp; body_off = find_header_end resp; body = drop body_off resp in
            if status_code < 0 then None
            else if body_off = 0 then None
            else if (case parse_content_length (take body_off resp) of
                       Some advertised \<Rightarrow> unat advertised \<noteq> length body | None \<Rightarrow> False) then None
            else if length body > body_cap then None
            else Some (status_code, body))"

type_synonym 'w network = "string \<Rightarrow> 'w \<Rightarrow> string option list option \<times> 'w"

definition do_round_trip :: "'w network \<Rightarrow> string \<Rightarrow> nat \<Rightarrow> 'w \<Rightarrow> (int \<times> string) option \<times> 'w" where
  "do_round_trip net req body_cap w = (case net req w of
     (None, w') \<Rightarrow> (None, w')
   | (Some rs, w') \<Rightarrow> (read_response rs body_cap, w'))"

section \<open>The two requests\<close>

definition get_request :: "string \<Rightarrow> nat \<Rightarrow> string" where
  "get_request host port = ''GET /api/v1/egress/pending HTTP/1.1'' @ crlf @ ''Host: '' @ host @ '':'' @ dec_string port @ crlf @
     ''Accept: application/json'' @ crlf @ ''Connection: close'' @ crlf @ crlf"

definition fetch_pending :: "'w network \<Rightarrow> string \<Rightarrow> nat \<Rightarrow> nat \<Rightarrow> 'w \<Rightarrow> (int \<times> string) option \<times> 'w" where
  "fetch_pending net host port body_cap w =
     (if body_cap = 0 then (None, w)
      else let req = get_request host port in
        if length req \<ge> REQ_BUF_SIZE then (None, w) else do_round_trip net req body_cap w)"

definition ack_json :: "string \<Rightarrow> string \<Rightarrow> string" where
  "ack_json p t = CHR ''{'' # dquote # ''payment_id'' @ [dquote, CHR '':'', dquote] @ p @ [dquote, CHR '','', dquote] @
     ''settlement_tx_hash'' @ [dquote, CHR '':'', dquote] @ t @ [dquote, CHR ''}'']"

definition post_request :: "string \<Rightarrow> nat \<Rightarrow> string \<Rightarrow> string" where
  "post_request host port json = ''POST /api/v1/egress/ack HTTP/1.1'' @ crlf @ ''Host: '' @ host @ '':'' @ dec_string port @ crlf @
     ''Content-Type: application/json'' @ crlf @ ''Content-Length: '' @ dec_string (length json) @ crlf @
     ''Connection: close'' @ crlf @ crlf @ json"

definition ack_dispatched :: "'w network \<Rightarrow> string \<Rightarrow> nat \<Rightarrow> string \<Rightarrow> string \<Rightarrow> 'w \<Rightarrow> int option \<times> 'w" where
  "ack_dispatched net host port paymentId txHash w =
     (let json = ack_json paymentId txHash; req = post_request host port json in
      if length json \<ge> 256 then (None, w)
      else if length req \<ge> REQ_BUF_SIZE then (None, w)
      else case do_round_trip net req 1024 w of (r, w') \<Rightarrow> (map_option fst r, w'))"

section \<open>The orchestrator\<close>

text \<open>The template parameter \<^verbatim>\<open>Client\<close> and the transmit callback, on a state they share.\<close>

record 'w egress_client =
  ec_fetch :: "nat \<Rightarrow> 'w \<Rightarrow> (int \<times> string) option \<times> 'w"
  ec_ack :: "string \<Rightarrow> string \<Rightarrow> 'w \<Rightarrow> int option \<times> 'w"

definition EgressMaxPerTick :: nat where "EgressMaxPerTick = 10"
definition EgressPacketCSize :: nat where "EgressPacketCSize = 112"
definition RESPONSE_BUF_SIZE :: nat where "RESPONSE_BUF_SIZE = 8192"

text \<open>A NUL-terminated bucket, read as a C string.\<close>

definition c_string :: "string \<Rightarrow> string" where
  "c_string s = takeWhile (\<lambda>c. c \<noteq> CHR 0x00) s"

definition dispatch_one ::
    "'w egress_client \<Rightarrow> (byte list \<Rightarrow> 'w \<Rightarrow> bool \<times> 'w) \<Rightarrow> egress_record \<Rightarrow> 'w \<Rightarrow> nat \<times> 'w" where
  "dispatch_one cl tx r w =
     (let hex = c_string (eg_packet_c_hex r) in
      if length hex \<noteq> EgressPacketCSize * 2 then (0, w)
      else case hex_decode hex (length hex) EgressPacketCSize of
          Ok frame \<Rightarrow>
            (case tx frame w of
               (False, w1) \<Rightarrow> (0, w1)
             | (True, w1) \<Rightarrow>
                 (case ec_ack cl (c_string (eg_payment_id r)) (c_string (eg_settlement_tx_hash r)) w1 of
                    (None, w2) \<Rightarrow> (0, w2)
                  | (Some code, w2) \<Rightarrow> (1, w2)))
        | _ \<Rightarrow> (0, w))"

fun dispatch_all ::
    "'w egress_client \<Rightarrow> (byte list \<Rightarrow> 'w \<Rightarrow> bool \<times> 'w) \<Rightarrow> egress_record list \<Rightarrow> nat \<Rightarrow> 'w \<Rightarrow> nat \<times> 'w" where
  "dispatch_all cl tx [] n w = (n, w)"
| "dispatch_all cl tx (r # rs) n w = (case dispatch_one cl tx r w of (k, w') \<Rightarrow> dispatch_all cl tx rs (n + k) w')"

definition tick :: "'w egress_client \<Rightarrow> (byte list \<Rightarrow> 'w \<Rightarrow> bool \<times> 'w) \<Rightarrow> 'w \<Rightarrow> int \<times> 'w" where
  "tick cl tx w =
     (case ec_fetch cl RESPONSE_BUF_SIZE w of
        (None, w1) \<Rightarrow> (- 1, w1)
      | (Some (status_code, body), w1) \<Rightarrow>
          if status_code \<noteq> 200 then (0, w1)
          else case parse_pending_response body EgressMaxPerTick of
              Ok recs \<Rightarrow> (case dispatch_all cl tx recs 0 w1 of (n, w2) \<Rightarrow> (int n, w2))
            | _ \<Rightarrow> (- 1, w1))"

section \<open>A response as the server writes it\<close>

text \<open>
  \<^verbatim>\<open>net/http\<close> for a handler that writes its body once and sets no length: up to 2048 bytes are buffered and
  announced with \<^verbatim>\<open>Content-Length\<close>, a longer body is sent as one chunk of the chunked transfer encoding.
  The reason phrase and the other header lines are a parameter.
\<close>

record http_lib =
  hl_reason :: "nat \<Rightarrow> string"
  hl_before :: "string list"
  hl_after :: "string list"

definition bufferBeforeChunkingSize :: nat where "bufferBeforeChunkingSize = 2048"

fun hex_string :: "nat \<Rightarrow> string" where
  "hex_string n = (if n < 16 then [hex_char n] else hex_string (n div 16) @ [hex_char (n mod 16)])"

declare hex_string.simps [simp del]

definition framing_line :: "string \<Rightarrow> string" where
  "framing_line body = (if length body \<le> bufferBeforeChunkingSize then ''Content-Length: '' @ dec_string (length body)
     else ''Transfer-Encoding: chunked'')"

definition http_payload :: "string \<Rightarrow> string" where
  "http_payload body = (if length body \<le> bufferBeforeChunkingSize then body
     else hex_string (length body) @ crlf @ body @ crlf @ ''0'' @ crlf @ crlf)"

definition status_line :: "http_lib \<Rightarrow> nat \<Rightarrow> string" where
  "status_line h code = ''HTTP/1.1 '' @ dec_string code @ CHR '' '' # hl_reason h code"

definition header_lines :: "string list \<Rightarrow> string" where
  "header_lines ls = concat (map (\<lambda>l. l @ crlf) ls)"

definition go_response :: "http_lib \<Rightarrow> nat \<Rightarrow> string \<Rightarrow> string" where
  "go_response h code body =
     header_lines (status_line h code # hl_before h @ framing_line body # hl_after h) @ crlf @ http_payload body"

text \<open>Header lines hold no line break, none is empty, and none but the framing line announces a length.\<close>

definition clean_line :: "string \<Rightarrow> bool" where
  "clean_line l \<longleftrightarrow> l \<noteq> [] \<and> CHR 0x0D \<notin> set l"

definition silent_line :: "string \<Rightarrow> bool" where
  "silent_line l \<longleftrightarrow> (\<forall>i. \<not> content_length_at (drop i l @ crlf))"

definition http_ok :: "http_lib \<Rightarrow> bool" where
  "http_ok h \<longleftrightarrow> list_all (\<lambda>l. clean_line l \<and> silent_line l) (hl_before h @ hl_after h) \<and>
     (\<forall>code. CHR 0x0D \<notin> set (hl_reason h code) \<and> silent_line (status_line h code)) \<and>
     (\<forall>code < 1000. length (header_lines (status_line h code # hl_before h @ hl_after h)) \<le> 4096)"

section \<open>Reading it back\<close>

lemma header_end_short: "length s < 4 \<Longrightarrow> header_end_from s i = 0"
  by (cases "(s, i)" rule: header_end_from.cases) auto

lemma header_end_char: "a \<noteq> CHR 0x0D \<Longrightarrow> header_end_from (a # w) i = header_end_from w (Suc i)"
proof (cases "length w < 3")
  case False
  moreover assume "a \<noteq> CHR 0x0D"
  moreover obtain b c d s where "w = b # c # d # s"
    using False by (metis length_Suc_conv_rev list.exhaust list.size(3) not_less numeral_3_eq_3 zero_less_Suc Suc_less_eq length_Cons)
  ultimately show ?thesis by simp
qed (simp add: header_end_short)

lemma header_end_break: "c \<noteq> CHR 0x0D \<Longrightarrow> header_end_from (CHR 0x0D # CHR 0x0A # c # w) i = header_end_from (c # w) (i + 2)"
proof -
  assume c: "c \<noteq> CHR 0x0D"
  have "header_end_from (CHR 0x0D # CHR 0x0A # c # w) i = header_end_from (CHR 0x0A # c # w) (Suc i)"
    using c by (cases w) (simp_all add: header_end_short)
  then show ?thesis by (simp add: header_end_char)
qed

lemma header_end_line:
  assumes "CHR 0x0D \<notin> set l" and "c \<noteq> CHR 0x0D"
  shows "header_end_from (l @ crlf @ c # w) i = header_end_from (c # w) (i + length l + 2)"
  using assms(1)
proof (induction l arbitrary: i)
  case (Cons a l)
  then have "a \<noteq> CHR 0x0D" by auto
  with Cons show ?case by (simp add: header_end_char)
qed (simp add: header_end_break [OF assms(2), simplified])

lemma header_end_last: "CHR 0x0D \<notin> set l \<Longrightarrow> header_end_from (l @ crlf @ crlf @ w) i = i + length l + 4"
proof (induction l arbitrary: i)
  case (Cons a l)
  then have "a \<noteq> CHR 0x0D" by auto
  with Cons show ?case by (simp add: header_end_char)
qed simp

lemma header_end_lines:
  assumes "CHR 0x0D \<notin> set l" and "list_all clean_line ls"
  shows "header_end_from (header_lines (l # ls) @ crlf @ w) i = i + length (header_lines (l # ls)) + 2"
  using assms
proof (induction ls arbitrary: l i)
  case Nil
  then show ?case using header_end_last [of l w i] by (simp add: header_lines_def)
next
  case (Cons l' ls)
  obtain c t where l': "l' = c # t" "c \<noteq> CHR 0x0D" "CHR 0x0D \<notin> set l'"
    using Cons.prems(2) by (cases l') (auto simp: clean_line_def)
  have "header_end_from (header_lines (l # l' # ls) @ crlf @ w) i
      = header_end_from (header_lines (l' # ls) @ crlf @ w) (i + length l + 2)"
    using header_end_line [OF Cons.prems(1) l'(2), of "t @ crlf @ header_lines ls @ crlf @ w" i] l'(1)
    by (simp add: header_lines_def)
  also have "\<dots> = i + length (header_lines (l # l' # ls)) + 2"
    using Cons.IH [OF l'(3)] Cons.prems(2) by (simp add: header_lines_def)
  finally show ?case .
qed

text \<open>The search for the length passes over silent lines and stops at the framing line.\<close>

lemma parse_content_length_step: "\<not> content_length_at (c # s) \<Longrightarrow> parse_content_length (c # s) = parse_content_length s"
  by (cases s) auto

lemma not_content_length: "CHR 0x0D \<in> set t \<Longrightarrow> map to_lower t \<noteq> ''content-length:''"
proof
  assume "CHR 0x0D \<in> set t"
  then have "to_lower (CHR 0x0D) \<in> set (map to_lower t)" by simp
  moreover assume "map to_lower t = ''content-length:''"
  ultimately have "to_lower (CHR 0x0D) \<in> set ''content-length:''" by (simp only:)
  then show False by (simp add: to_lower_def)
qed

lemma content_length_at_line: "content_length_at (x @ crlf @ w) \<longleftrightarrow> content_length_at (x @ crlf)"
proof (cases "length x < 14")
  case True
  then have "CHR 0x0D \<in> set (take 15 (x @ crlf @ u))" for u by (simp add: take_Cons')
  from not_content_length [OF this [of w]] not_content_length [OF this [of "[]"]] show ?thesis
    by (simp only: content_length_at_def append_Nil2)
next
  case False
  then have "15 - length x \<le> 1" by simp
  then have "take 15 (x @ crlf @ w) = take 15 (x @ crlf)" by (auto simp: take_Cons')
  then show ?thesis by (simp only: content_length_at_def)
qed

lemma parse_content_length_skip:
  assumes "silent_line l"
  shows "parse_content_length (l @ crlf @ w) = parse_content_length w"
  using assms
proof (induction l)
  case Nil
  have "\<not> content_length_at (CHR 0x0D # u)" "\<not> content_length_at (CHR 0x0A # u)" for u
    by (simp_all add: content_length_at_def to_lower_def)
  then show ?case by (simp add: parse_content_length_step del: parse_content_length.simps)
next
  case (Cons c l)
  have "\<not> content_length_at ((c # l) @ crlf @ w)"
    unfolding content_length_at_line using spec [OF Cons.prems [unfolded silent_line_def], of 0] by simp
  moreover have "silent_line l"
    unfolding silent_line_def using Cons.prems [unfolded silent_line_def] by (metis drop_Suc_Cons)
  ultimately show ?case using Cons.IH by (simp add: parse_content_length_step del: parse_content_length.simps)
qed

lemma decimal_loop_digits:
  "list_all is_digit ds \<Longrightarrow> decimal_loop (ds @ s) v i
     = decimal_loop s (foldl (\<lambda>v c. v * 10 + word_of_nat (of_char c - 48)) v ds) (i + length ds)"
  by (induction ds arbitrary: v i) simp_all

lemma foldl_dec_value:
  "foldl (\<lambda>v c. v * 10 + word_of_nat (of_char c - 48)) (word_of_nat a) ds
     = (word_of_nat (foldl (\<lambda>v c. 10 * v + (of_char c - 48)) a ds) :: u64)"
proof (induction ds arbitrary: a)
  case (Cons c ds)
  have "word_of_nat a * 10 + word_of_nat (of_char c - 48) = (word_of_nat (10 * a + (of_char c - 48)) :: u64)" by simp
  with Cons show ?case by (simp del: of_nat_add of_nat_mult)
qed simp

lemma parse_decimal_dec_string:
  assumes "\<not> is_digit c"
  shows "parse_decimal (dec_string n @ c # w) = Some (word_of_nat n)"
proof -
  have digits: "list_all is_digit (dec_string n)"
    unfolding list_all_iff is_digit_def using dec_string_digits by blast
  have "decimal_loop (dec_string n @ c # w) 0 0 = (word_of_nat n, length (dec_string n))"
    using decimal_loop_digits [OF digits, of "c # w" 0 0] foldl_dec_value [of 0 "dec_string n"] assms
      dec_value_dec_string [of n] by (simp add: dec_value_def)
  then show ?thesis using dec_string_not_Nil [of n] by (simp add: parse_decimal_def)
qed

lemma silent_lineI: "list_all (\<lambda>i. \<not> content_length_at (drop i l @ crlf)) [0..<Suc (length l)] \<Longrightarrow> silent_line l"
proof -
  assume all: "list_all (\<lambda>i. \<not> content_length_at (drop i l @ crlf)) [0..<Suc (length l)]"
  have "\<not> content_length_at (drop i l @ crlf)" for i
  proof (cases "i < Suc (length l)")
    case True
    then have "i \<in> set [0..<Suc (length l)]" by auto
    from bspec [OF all [unfolded list_all_iff] this] show ?thesis .
  next
    case False
    then have "drop i l = drop (length l) l" by simp
    with all show ?thesis by (simp add: list_all_iff)
  qed
  then show ?thesis by (simp add: silent_line_def)
qed

lemma silent_lines: "list_all silent_line ls \<Longrightarrow> parse_content_length (header_lines ls @ w) = parse_content_length w"
  by (induction ls) (simp_all add: header_lines_def parse_content_length_skip [simplified])

lemma chunked_line: "clean_line ''Transfer-Encoding: chunked''" "silent_line ''Transfer-Encoding: chunked''"
  by (simp add: clean_line_def) (rule silent_lineI, code_simp)

lemma length_line: "clean_line (''Content-Length: '' @ dec_string n)"
  using dec_string_digits [of "CHR 0x0D" n] by (auto simp: clean_line_def)

lemma framing_clean: "clean_line (framing_line body)"
  using chunked_line(1) length_line by (simp add: framing_line_def)

lemma content_length_line:
  "parse_content_length ((''Content-Length: '' @ dec_string n) @ crlf @ w) = Some (word_of_nat n)"
proof -
  let ?s = "dec_string n @ crlf @ w"
  have low: "map to_lower ''Content-Length:'' = ''content-length:''" by code_simp
  obtain d t where d: "dec_string n = d # t" using dec_string_not_Nil [of n] by (cases "dec_string n") auto
  then have "is_digit d" using dec_string_digits [of d n] by (simp add: is_digit_def)
  then have "dropWhile (\<lambda>c. c = CHR '' '' \<or> c = CHR 0x09) (CHR '' '' # ?s) = ?s" using d by (auto simp: is_digit_def)
  moreover have "parse_decimal ?s = Some (word_of_nat n)"
    using parse_decimal_dec_string [of "CHR 0x0D" n "CHR 0x0A # w"] by (simp add: is_digit_def)
  moreover have "content_length_at ((''Content-Length: '' @ dec_string n) @ crlf @ w)"
    unfolding content_length_at_def using low by simp
  ultimately show ?thesis by simp
qed

lemma read_full_chunks:
  "[] \<notin> set chunks \<Longrightarrow> length resp + length (concat chunks) \<le> RESP_CAP \<Longrightarrow>
     read_full_response (map Some chunks) resp = Some (resp @ concat chunks)"
proof (induction chunks arbitrary: resp)
  case (Cons c cs)
  then have "c \<noteq> []" "length resp < RESP_CAP" by (cases c; simp)+
  with Cons show ?case by simp
qed simp

lemma status_code_word: "code < 1000 \<Longrightarrow> sint (ucast (word_of_nat code :: u64) :: 32 word) = int code"
  by (simp add: unsigned_of_nat signed_of_nat take_bit_nat_eq_self signed_take_bit_int_eq_self)

lemma parse_status_response: "code < 1000 \<Longrightarrow> parse_status_line (status_line h code @ crlf @ w) = int code"
proof -
  assume code: "code < 1000"
  have "parse_decimal (dec_string code @ CHR '' '' # hl_reason h code @ crlf @ w) = Some (word_of_nat code)"
    by (rule parse_decimal_dec_string) (simp add: is_digit_def)
  moreover have "0 < length (dec_string code)" using dec_string_not_Nil by simp
  ultimately show ?thesis
    using status_code_word [OF code] by (simp add: parse_status_line_def status_line_def)
qed

lemma parse_framing:
  assumes "list_all silent_line ls"
  shows "parse_content_length (framing_line body @ crlf @ header_lines ls @ crlf)
    = (if length body \<le> bufferBeforeChunkingSize then Some (word_of_nat (length body)) else None)"
proof (cases "length body \<le> bufferBeforeChunkingSize")
  case True
  then have "framing_line body = ''Content-Length: '' @ dec_string (length body)" by (simp only: framing_line_def if_True)
  with True content_length_line [of "length body" "header_lines ls @ crlf"] show ?thesis by (simp only: if_True)
next
  case False
  then have "framing_line body = ''Transfer-Encoding: chunked''" by (simp only: framing_line_def if_False)
  moreover have "parse_content_length crlf = None" by code_simp
  ultimately show ?thesis
    using False parse_content_length_skip [OF chunked_line(2), of "header_lines ls @ crlf"] silent_lines [OF assms, of crlf]
    by (simp only: if_False)
qed

lemma read_go_response:
  assumes "http_ok h" and "code < 1000" and "read_full_response rs [] = Some (go_response h code body)"
    and "length body < 2 ^ 64"
  shows "read_response rs cap = (if length (http_payload body) \<le> cap then Some (int code, http_payload body) else None)"
proof -
  let ?ls = "hl_before h @ framing_line body # hl_after h"
  let ?head = "header_lines (status_line h code # ?ls) @ crlf"
  have head: "go_response h code body = ?head @ http_payload body" by (simp add: go_response_def)
  have lines: "list_all silent_line (hl_before h)" "list_all silent_line (hl_after h)" "silent_line (status_line h code)"
    and clean: "list_all clean_line ?ls" and reason: "CHR 0x0D \<notin> set (hl_reason h code)"
    using assms(1) framing_clean by (auto simp: http_ok_def list_all_iff)
  have cr: "CHR 0x0D \<notin> set (status_line h code)"
    using reason dec_string_digits [of "CHR 0x0D" code] by (auto simp: status_line_def)
  have off: "find_header_end (go_response h code body) = length ?head"
    using header_end_lines [OF cr clean, of "http_payload body" 0] by (simp add: find_header_end_def head)
  have status: "parse_status_line (go_response h code body) = int code"
    using parse_status_response [OF assms(2), of h "header_lines ?ls @ crlf @ http_payload body"]
    by (simp add: head header_lines_def)
  have "parse_content_length ?head = parse_content_length (framing_line body @ crlf @ header_lines (hl_after h) @ crlf)"
    using silent_lines [of "status_line h code # hl_before h" "framing_line body @ crlf @ header_lines (hl_after h) @ crlf"] lines
    by (simp add: header_lines_def)
  also have "\<dots> = (if length body \<le> bufferBeforeChunkingSize then Some (word_of_nat (length body)) else None)"
    by (rule parse_framing [OF lines(2)])
  finally have cl: "parse_content_length ?head
    = (if length body \<le> bufferBeforeChunkingSize then Some (word_of_nat (length body)) else None)" .
  have "unat (word_of_nat (length body) :: u64) = length body" using assms(4) by (simp add: unat_of_nat)
  moreover have "12 \<le> length (go_response h code body)" by (simp add: head header_lines_def status_line_def)
  ultimately show ?thesis
    using assms(3) off status cl unfolding head
    by (simp add: read_response_def Let_def http_payload_def)
qed

section \<open>The orchestrator on two states\<close>

text \<open>
  The orchestrator is a template over its client and its callback.  When two of each agree on every call,
  up to a relation of the states they work on, so do two ticks.  The callback is only ever called
  with a whole frame.
\<close>

locale client_simulation =
  fixes R :: "'a \<Rightarrow> 'b \<Rightarrow> bool"
    and cl :: "'a egress_client" and tx :: "byte list \<Rightarrow> 'a \<Rightarrow> bool \<times> 'a"
    and cl' :: "'b egress_client" and tx' :: "byte list \<Rightarrow> 'b \<Rightarrow> bool \<times> 'b"
  assumes fetch_law: "R a b \<Longrightarrow> rel_prod (=) R (ec_fetch cl cap a) (ec_fetch cl' cap b)"
    and ack_law: "R a b \<Longrightarrow> rel_prod (=) R (ec_ack cl p t a) (ec_ack cl' p t b)"
    and tx_law: "R a b \<Longrightarrow> length frame = EgressPacketCSize \<Longrightarrow> rel_prod (=) R (tx frame a) (tx' frame b)"
begin

lemma dispatch_one_sim: "R a b \<Longrightarrow> rel_prod (=) R (dispatch_one cl tx r a) (dispatch_one cl' tx' r b)"
proof -
  assume R: "R a b"
  let ?hex = "c_string (eg_packet_c_hex r)"
  show ?thesis
  proof (cases "length ?hex = EgressPacketCSize * 2 \<and> (\<exists>frame. hex_decode ?hex (length ?hex) EgressPacketCSize = Ok frame)")
    case True
    then obtain frame where hex: "length ?hex = EgressPacketCSize * 2" "hex_decode ?hex (length ?hex) EgressPacketCSize = Ok frame" by blast
    from hex(2) have "DecodeString ?hex = Ok frame" unfolding hex_decode_DecodeString by (auto split: outcome.splits if_splits)
    then have "length frame = EgressPacketCSize" using DecodeString_length [of ?hex frame] hex(1) by simp
    from tx_law [OF R this] obtain ok a1 b1 where sent: "tx frame a = (ok, a1)" "tx' frame b = (ok, b1)" "R a1 b1"
      by (cases "tx frame a"; cases "tx' frame b") simp
    from ack_law [OF sent(3), of "c_string (eg_payment_id r)" "c_string (eg_settlement_tx_hash r)"]
    show ?thesis using hex sent by (auto simp: dispatch_one_def Let_def rel_prod.simps split: bool.splits option.splits)
  next
    case False
    with R show ?thesis by (auto simp: dispatch_one_def Let_def split: outcome.splits)
  qed
qed

lemma dispatch_all_sim: "R a b \<Longrightarrow> rel_prod (=) R (dispatch_all cl tx rs n a) (dispatch_all cl' tx' rs n b)"
proof (induction rs arbitrary: n a b)
  case (Cons r rs)
  obtain k a1 b1 where "dispatch_one cl tx r a = (k, a1)" "dispatch_one cl' tx' r b = (k, b1)" "R a1 b1"
    using dispatch_one_sim [OF Cons.prems, of r] by (cases "dispatch_one cl tx r a"; cases "dispatch_one cl' tx' r b") simp
  with Cons.IH [of a1 b1 "n + k"] show ?case by simp
qed simp

lemma tick_sim: "R a b \<Longrightarrow> rel_prod (=) R (tick cl tx a) (tick cl' tx' b)"
proof -
  assume R: "R a b"
  obtain r a1 b1 where fetch: "ec_fetch cl RESPONSE_BUF_SIZE a = (r, a1)" "ec_fetch cl' RESPONSE_BUF_SIZE b = (r, b1)" "R a1 b1"
    using fetch_law [OF R, of RESPONSE_BUF_SIZE] by (cases "ec_fetch cl RESPONSE_BUF_SIZE a"; cases "ec_fetch cl' RESPONSE_BUF_SIZE b") simp
  have "rel_prod (=) R (case dispatch_all cl tx recs 0 a1 of (n, x) \<Rightarrow> (int n, x)) (case dispatch_all cl' tx' recs 0 b1 of (n, x) \<Rightarrow> (int n, x))" for recs
    using dispatch_all_sim [OF fetch(3), of recs 0] by (cases "dispatch_all cl tx recs 0 a1"; cases "dispatch_all cl' tx' recs 0 b1") simp
  then show ?thesis using fetch by (auto simp: tick_def split: option.splits outcome.splits)
qed

end

end
