(* ===== verification/Crc32.thy ===== *)
theory Crc32
  imports Void_Prelude
begin

text \<open>
  \<^verbatim>\<open>gateway/internal/void_protocol/crc.go\<close>: the CRC pre-validation gate, with the IEEE 802.3
  checksum of Go's \<^verbatim>\<open>hash/crc32\<close> it calls.  The checksum is table driven; it is shown equal to
  the bitwise shift register, whose step is linear and injective, and from that the gate is
  shown to reject every corruption confined to four consecutive bytes of the covered region.
\<close>

unbundle bit_operations_syntax

section \<open>The checksum of hash/crc32\<close>

definition crc_poly :: u32 where
  "crc_poly = 0xEDB88320"

definition crc_bit :: "u32 \<Rightarrow> u32" where
  "crc_bit c = (if bit c 0 then drop_bit 1 c XOR crc_poly else drop_bit 1 c)"

text \<open>One entry of the table that \<^verbatim>\<open>hash/crc32\<close> precomputes for a byte.\<close>

definition crc_tab :: "byte \<Rightarrow> u32" where
  "crc_tab b = (crc_bit ^^ 8) (ucast b)"

definition crc_update :: "u32 \<Rightarrow> byte \<Rightarrow> u32" where
  "crc_update c v = crc_tab (ucast c XOR v) XOR drop_bit 8 c"

definition ChecksumIEEE :: "byte list \<Rightarrow> u32" where
  "ChecksumIEEE data = NOT (foldl crc_update (NOT 0) data)"

section \<open>The frame gate\<close>

text \<open>Go's \<^verbatim>\<open>int\<close> is 64 bits wide: the sum in the guard wraps.\<close>

definition go_int :: "int \<Rightarrow> int" where
  "go_int x = (x + 2 ^ 63) mod 2 ^ 64 - 2 ^ 63"

definition PacketDCrcOffsetFromEnd :: int where
  "PacketDCrcOffsetFromEnd = 10"

definition PacketAckCrcOffsetFromEnd :: int where
  "PacketAckCrcOffsetFromEnd = 4"

datatype crc_error =
    CrcOffsetOutOfBounds int nat
  | CrcMismatch u32 u32

definition ValidateFrameCRC32 :: "byte list \<Rightarrow> int \<Rightarrow> (crc_error, unit) outcome" where
  "ValidateFrameCRC32 frame crcOffset =
     (if crcOffset < 0 \<or> go_int (crcOffset + 4) > int (length frame)
      then Err (CrcOffsetOutOfBounds crcOffset (length frame))
      else bind_ok (go_slice frame crcOffset (go_int (crcOffset + 4))) (\<lambda>field.
           bind_ok (go_slice frame 0 crcOffset) (\<lambda>covered.
             let wire = le_word field; computed = ChecksumIEEE covered in
             if wire \<noteq> computed then Err (CrcMismatch computed wire) else Ok ())))"

section \<open>Linearity and injectivity of the shift register\<close>

lemma crc_bit_xor: "crc_bit (a XOR b) = crc_bit a XOR crc_bit b"
  by (rule bit_word_eqI) (auto simp: crc_bit_def bit_simps)

lemma crc_bit_zero_iff: "crc_bit c = 0 \<longleftrightarrow> c = 0"
proof
  assume z: "crc_bit c = 0"
  have top: "bit crc_poly 31"
    by (simp add: crc_poly_def)
  have b0: "\<not> bit c 0"
  proof
    assume "bit c 0"
    with z have "drop_bit 1 c XOR crc_poly = 0"
      by (simp add: crc_bit_def)
    then have "bit (drop_bit 1 c XOR crc_poly) 31 \<longleftrightarrow> bit (0 :: u32) 31"
      by simp
    with top show False
      by (auto simp: bit_simps dest: bit_imp_le_length)
  qed
  with z have d: "drop_bit 1 c = 0"
    by (simp add: crc_bit_def)
  show "c = 0"
  proof (rule bit_word_eqI)
    fix n
    have "bit (drop_bit 1 c) (n - 1) \<longleftrightarrow> bit (0 :: u32) (n - 1)"
      by (simp only: d)
    with b0 show "bit c n \<longleftrightarrow> bit (0 :: u32) n"
      by (cases n) (auto simp: bit_simps)
  qed
qed (simp add: crc_bit_def)

lemma crc_bits_xor: "(crc_bit ^^ n) (a XOR b) = (crc_bit ^^ n) a XOR (crc_bit ^^ n) b"
  by (induction n) (simp_all add: crc_bit_xor)

lemma crc_bits_zero_iff: "(crc_bit ^^ n) c = 0 \<longleftrightarrow> c = 0"
  by (induction n) (simp_all add: crc_bit_zero_iff)

lemma xor_eq_0_word_iff: "a XOR b = 0 \<longleftrightarrow> a = (b :: 'a::len word)"
  by (metis bit.xor_self bit.xor_left_self xor.comm_neutral)

lemma crc_bits_inject: "(crc_bit ^^ n) a = (crc_bit ^^ n) b \<longleftrightarrow> a = b"
proof -
  have "(crc_bit ^^ n) a = (crc_bit ^^ n) b \<longleftrightarrow> (crc_bit ^^ n) (a XOR b) = 0"
    by (simp add: crc_bits_xor xor_eq_0_word_iff)
  then show ?thesis
    by (simp add: crc_bits_zero_iff xor_eq_0_word_iff)
qed

text \<open>While only zero bits leave at the bottom, the register is a plain shift.\<close>

lemma crc_bits_plain_shift: "(\<And>i. i < n \<Longrightarrow> \<not> bit c i) \<Longrightarrow> (crc_bit ^^ n) c = drop_bit n c"
proof (induction n)
  case 0
  then show ?case by simp
next
  case (Suc n)
  then have IH: "(crc_bit ^^ n) c = drop_bit n c" and b: "\<not> bit (drop_bit n c) 0"
    by (simp_all add: bit_drop_bit_eq)
  from b have "crc_bit (drop_bit n c) = drop_bit 1 (drop_bit n c)"
    by (simp only: crc_bit_def if_False)
  then show ?case
    by (simp add: IH)
qed

lemma crc_bits_shift: "(crc_bit ^^ n) (push_bit n c) = drop_bit n (push_bit n c)"
  by (rule crc_bits_plain_shift) (simp add: bit_push_bit_iff)

lemma word_split_low8: "c = ucast (ucast c :: byte) XOR push_bit 8 (drop_bit 8 (c :: u32))"
  by (rule bit_word_eqI) (auto simp: bit_simps)

lemma push_drop_shift8: "drop_bit 8 (push_bit 8 (drop_bit 8 c)) = drop_bit 8 (c :: u32)"
  by (rule bit_word_eqI) (auto simp: bit_simps dest: bit_imp_le_length)

lemma ucast_xor_byte: "ucast (a XOR (b :: byte)) = (ucast a XOR ucast b :: u32)"
  by (rule bit_word_eqI) (auto simp: bit_simps)

text \<open>The table look-up computes eight steps of the register.\<close>

lemma crc_update_bitwise: "crc_update c v = (crc_bit ^^ 8) (c XOR ucast v)"
proof -
  have split: "c XOR ucast v = ucast (ucast c XOR v) XOR push_bit 8 (drop_bit 8 c)"
    by (subst word_split_low8 [of c]) (simp add: ucast_xor_byte xor.assoc xor.commute xor.left_commute)
  show ?thesis
    by (simp only: split crc_bits_xor crc_bits_shift push_drop_shift8 crc_update_def crc_tab_def)
qed

section \<open>Folds that never merge two states\<close>

text \<open>
  The interface the detection argument needs of a checksum: a step that keeps distinct states
  distinct, and a window inside which distinct inputs lead one state to distinct states.
\<close>

locale injective_fold =
  fixes upd :: "'s \<Rightarrow> 'b \<Rightarrow> 's"
  assumes upd_inject_state: "upd c b = upd c' b \<Longrightarrow> c = c'"
begin

lemma foldl_inject_state: "foldl upd c xs = foldl upd c' xs \<longleftrightarrow> c = c'"
proof (induction xs arbitrary: c c')
  case Nil
  then show ?case by simp
next
  case (Cons x xs)
  then show ?case by (auto dest: upd_inject_state)
qed

end

locale window_fold = injective_fold upd for upd :: "'s \<Rightarrow> 'b \<Rightarrow> 's" +
  fixes w :: nat
  assumes window_inject:
    "length xs = length ys \<Longrightarrow> length xs \<le> w \<Longrightarrow> foldl upd c xs = foldl upd c ys \<Longrightarrow> xs = ys"
begin

lemma window_detected:
  assumes "length bad = length good" and "length good \<le> w" and "bad \<noteq> good"
  shows "foldl upd c (pre @ bad @ post) \<noteq> foldl upd c (pre @ good @ post)"
proof
  assume "foldl upd c (pre @ bad @ post) = foldl upd c (pre @ good @ post)"
  then have "foldl upd (foldl upd c pre) bad = foldl upd (foldl upd c pre) good"
    by (simp add: foldl_inject_state)
  with assms window_inject [of bad good] show False by simp
qed

end

lemma drop_push_le_word:
  "8 * length bs \<le> 24 \<Longrightarrow> drop_bit 8 (push_bit 8 (le_word bs)) = (le_word bs :: u32)"
  by (rule bit_word_eqI) (auto simp: bit_simps bit_le_word)

lemma le_word_Cons_xor: "le_word (b # bs) = (ucast b XOR push_bit 8 (le_word bs) :: u32)"
  by (rule bit_word_eqI) (auto simp: bit_simps dest: bit_imp_le_length)

text \<open>Up to four bytes enter the register as one little-endian word.\<close>

lemma foldl_crc_update_word:
  "length bs \<le> 4 \<Longrightarrow> foldl crc_update c bs = (crc_bit ^^ (8 * length bs)) (c XOR le_word bs)"
proof (induction bs arbitrary: c)
  case Nil
  then show ?case by simp
next
  case (Cons b bs)
  then have len: "length bs \<le> 4" "8 * length bs \<le> 24" by auto
  have L8: "(crc_bit ^^ 8) (push_bit 8 (le_word bs)) = (le_word bs :: u32)"
    using len by (simp only: crc_bits_shift drop_push_le_word)
  have "foldl crc_update c (b # bs)
      = (crc_bit ^^ (8 * length bs)) ((crc_bit ^^ 8) (c XOR ucast b) XOR le_word bs)"
    using Cons.IH [OF len(1), of "crc_update c b"]
    by (simp only: foldl_Cons crc_update_bitwise [of c b])
  also have "(crc_bit ^^ 8) (c XOR ucast b) XOR le_word bs
      = (crc_bit ^^ 8) (c XOR ucast b) XOR (crc_bit ^^ 8) (push_bit 8 (le_word bs))"
    by (simp only: L8)
  also have "\<dots> = (crc_bit ^^ 8) (c XOR le_word (b # bs))"
    by (simp only: crc_bits_xor le_word_Cons_xor xor.assoc)
  finally have "foldl crc_update c (b # bs)
      = (crc_bit ^^ (8 * length bs)) ((crc_bit ^^ 8) (c XOR le_word (b # bs)))" .
  moreover have "8 * length (b # bs) = 8 * length bs + 8"
    by simp
  ultimately show ?case
    by (simp only: funpow_add o_apply)
qed

lemma le_word_inject_bytes:
  assumes "length xs = length ys" and "length xs \<le> 4" and "le_word xs = (le_word ys :: u32)"
  shows "xs = ys"
proof -
  have inverse: "le_bytes (length zs) (le_word zs :: u32) = zs" if "length zs \<le> 4" for zs
    using that by (simp add: le_bytes_le_word)
  have "xs = le_bytes (length xs) (le_word xs :: u32)"
    using inverse assms(2) by simp
  also have "\<dots> = le_bytes (length ys) (le_word ys :: u32)"
    by (simp only: assms)
  also have "\<dots> = ys"
    using inverse assms(1,2) by simp
  finally show ?thesis .
qed

lemma xor_left_inject_word: "c XOR a = c XOR b \<longleftrightarrow> a = (b :: 'a::len word)"
  by (metis bit.xor_left_self)

interpretation crc: window_fold crc_update 4
proof unfold_locales
  fix c c' :: u32 and b :: byte
  assume "crc_update c b = crc_update c' b"
  then show "c = c'"
    by (simp only: crc_update_bitwise crc_bits_inject xor.commute [of _ "ucast b"] xor_left_inject_word)
next
  fix xs ys :: "byte list" and c
  assume len: "length xs = length ys" "length xs \<le> 4"
    and eq: "foldl crc_update c xs = foldl crc_update c ys"
  then have "c XOR le_word xs = c XOR (le_word ys :: u32)"
    by (simp add: foldl_crc_update_word crc_bits_inject)
  with len show "xs = ys"
    by (simp add: xor_left_inject_word le_word_inject_bytes)
qed

section \<open>What the gate accepts\<close>

lemma go_int_id: "- (2 ^ 63) \<le> x \<Longrightarrow> x < 2 ^ 63 \<Longrightarrow> go_int x = x"
  by (simp add: go_int_def)

lemma go_int_range: "- (2 ^ 63) \<le> go_int x \<and> go_int x < 2 ^ 63"
  by (simp add: go_int_def)

lemma go_int_wraps: "2 ^ 63 \<le> x \<Longrightarrow> x < 2 ^ 63 + 2 ^ 63 \<Longrightarrow> go_int x = x - 2 ^ 64"
proof -
  assume "2 ^ 63 \<le> x" "x < 2 ^ 63 + 2 ^ 63"
  then have "(x - 2 ^ 63) mod 2 ^ 64 = x - 2 ^ 63"
    by (simp add: mod_pos_pos_trivial)
  moreover have "x + 2 ^ 63 = x - 2 ^ 63 + 2 ^ 64"
    by simp
  ultimately show "go_int x = x - 2 ^ 64"
    by (simp only: go_int_def mod_add_self2)
qed

lemma ValidateFrameCRC32_Ok_iff:
  "ValidateFrameCRC32 frame off = Ok () \<longleftrightarrow>
     0 \<le> off \<and> off + 4 \<le> int (length frame) \<and> off + 4 < 2 ^ 63 \<and>
     le_word (seg frame (nat off) (nat off + 4)) = ChecksumIEEE (take (nat off) frame)"
    (is "?l \<longleftrightarrow> ?r")
proof (cases "0 \<le> off \<and> off + 4 < 2 ^ 63")
  case True
  then have "go_int (off + 4) = off + 4" and "nat (off + 4) = nat off + 4"
    by (simp_all add: go_int_id nat_add_distrib)
  with True show ?thesis
    by (auto simp: ValidateFrameCRC32_def go_slice_def seg_zero Let_def split: if_splits)
next
  case False
  have "go_int (off + 4) < off" if "0 \<le> off"
  proof (cases "off < 2 ^ 63")
    case True
    with False that go_int_wraps [of "off + 4"] show ?thesis by simp
  next
    case big: False
    with go_int_range [of "off + 4"] show ?thesis by simp
  qed
  with False show ?thesis
    by (auto simp: ValidateFrameCRC32_def go_slice_def)
qed

definition crc_residue :: u32 where
  "crc_residue = (crc_bit ^^ 32) (NOT 0)"

lemma not_word_xor: "NOT a = a XOR (NOT 0 :: 'a::len word)"
  by (rule bit_word_eqI) (simp add: bit_simps)

text \<open>A frame passes exactly when the register, run over the data and the field, ends in one constant.\<close>

lemma ValidateFrameCRC32_residue:
  assumes "0 \<le> off" and "off + 4 \<le> int (length frame)" and "off + 4 < 2 ^ 63"
  shows "ValidateFrameCRC32 frame off = Ok () \<longleftrightarrow>
    foldl crc_update (NOT 0) (take (nat off + 4) frame) = crc_residue"
proof -
  define st field where "st = foldl crc_update (NOT 0) (take (nat off) frame)"
    and "field = seg frame (nat off) (nat off + 4)"
  have len: "length field = 4"
    using assms by (simp add: field_def)
  have "take (nat off + 4) frame = take (nat off) frame @ field"
    by (simp add: take_add field_def seg_def)
  then have "foldl crc_update (NOT 0) (take (nat off + 4) frame) = (crc_bit ^^ 32) (st XOR le_word field)"
    using len by (simp add: st_def foldl_crc_update_word)
  then have "foldl crc_update (NOT 0) (take (nat off + 4) frame) = crc_residue
      \<longleftrightarrow> st XOR le_word field = NOT 0"
    by (simp add: crc_residue_def crc_bits_inject)
  also have "\<dots> \<longleftrightarrow> le_word field = NOT st"
    by (metis not_word_xor bit.xor_left_self)
  finally show ?thesis
    using assms by (simp add: ValidateFrameCRC32_Ok_iff ChecksumIEEE_def st_def field_def)
qed

text \<open>In range, the gate never panics: it accepts or names the mismatch.\<close>

lemma ValidateFrameCRC32_mismatch:
  assumes "0 \<le> off" and "off + 4 \<le> int (length frame)" and "off + 4 < 2 ^ 63"
    and "ValidateFrameCRC32 frame off \<noteq> Ok ()"
  shows "\<exists>computed wire. ValidateFrameCRC32 frame off = Err (CrcMismatch computed wire) \<and> computed \<noteq> wire"
  using assms
  by (auto simp: ValidateFrameCRC32_def go_slice_def go_int_id Let_def split: if_splits)

text \<open>The frame a sender makes by appending the checksum passes.\<close>

lemma ValidateFrameCRC32_self:
  assumes "int (length data) < 2 ^ 32"
  shows "ValidateFrameCRC32 (data @ le_bytes 4 (ChecksumIEEE data) @ tail) (int (length data)) = Ok ()"
  using assms
  by (simp add: ValidateFrameCRC32_Ok_iff seg_append_right seg_append_left seg_zero codec_simps)

lemma ValidateFrameCRC32_burst:
  assumes ok: "ValidateFrameCRC32 (pre @ good @ post) off = Ok ()"
    and len: "length bad = length good" "length good \<le> 4"
    and window: "int (length pre + length good) \<le> off + 4"
    and diff: "bad \<noteq> good"
  shows "\<exists>computed wire. ValidateFrameCRC32 (pre @ bad @ post) off = Err (CrcMismatch computed wire)
    \<and> computed \<noteq> wire"
proof -
  from ok have range: "0 \<le> off" "off + 4 \<le> int (length (pre @ good @ post))" "off + 4 < 2 ^ 63"
    by (simp_all add: ValidateFrameCRC32_Ok_iff)
  define rest where "rest = take (nat off + 4 - length pre - length good) post"
  have split: "take (nat off + 4) (pre @ x @ post) = pre @ x @ rest" if "length x = length good" for x
    using window range(1) that by (simp add: rest_def)
  have "foldl crc_update (NOT 0) (pre @ good @ rest) = crc_residue"
    using ok ValidateFrameCRC32_residue [OF range] split [of good] by (simp only:)
  then have "foldl crc_update (NOT 0) (pre @ bad @ rest) \<noteq> crc_residue"
    using crc.window_detected [OF len diff] by metis
  moreover have range': "off + 4 \<le> int (length (pre @ bad @ post))"
    using range(2) len(1) by simp
  ultimately have "ValidateFrameCRC32 (pre @ bad @ post) off \<noteq> Ok ()"
    using ValidateFrameCRC32_residue [OF range(1) range' range(3)] split [OF len(1)]
    by (simp only: not_False_eq_True)
  then show ?thesis
    by (rule ValidateFrameCRC32_mismatch [OF range(1) range' range(3)])
qed

section \<open>Properties\<close>

text \<open>
  The CRC gate detects every burst of up to four bytes: take a frame that passes
  \<^verbatim>\<open>ValidateFrameCRC32\<close>, replace a window of at most four consecutive bytes that lies inside the
  covered data and the CRC field by different bytes, and the gate returns the mismatch error.
  In particular a single flipped bit, or a single garbled byte, never reaches the dispatcher.
\<close>

lemma ValidateFrameCRC32_rejects_burst:
  assumes ok: "ValidateFrameCRC32 (pre @ good @ post) off = Ok ()"
    and len: "length bad = length good" "length good \<le> 4"
    and window: "int (length pre + length good) \<le> off + 4"
    and diff: "bad \<noteq> good"
  shows "\<exists>computed wire. ValidateFrameCRC32 (pre @ bad @ post) off = Err (CrcMismatch computed wire)
    \<and> computed \<noteq> wire"
  by (rule ValidateFrameCRC32_burst [OF assms])

text \<open>
  The table-driven checksum that the gate, the receipt builder and the packet generator
  share computes the reflected CRC-32 register bit by bit.
\<close>

lemma ChecksumIEEE_is_bitwise_register:
  "ChecksumIEEE data = NOT (foldl (\<lambda>c v. (crc_bit ^^ 8) (c XOR ucast v)) (NOT 0) data)"
proof -
  have "crc_update = (\<lambda>c v. (crc_bit ^^ 8) (c XOR ucast v))"
    by (intro ext) (rule crc_update_bitwise)
  then show ?thesis by (simp only: ChecksumIEEE_def)
qed

end
