(* ===== verification/Kaitai_Stream.thy ===== *)
theory Kaitai_Stream
  imports Void_Prelude
begin

text \<open>
  The generated parsers run on \<^verbatim>\<open>kaitai.Stream\<close>, a third-party runtime that is not part of the
  repository.  Here it is a parameter: a record of the stream operations the parsers call, over an
  arbitrary stream type.  The locale \<^verbatim>\<open>kaitai_stream\<close> states the documented behaviour the parsers
  rely on (a read consumes exactly its width and decodes those bytes, or fails at the end of the
  data; a seek moves the position and nothing else) and derives the composition rules with which
  every parser is shown to decode a fixed layout.  The runtime over a byte slice, which is what
  \<^verbatim>\<open>kaitai.NewStream(bytes.NewReader(raw))\<close> gives, interprets it.
\<close>

section \<open>Parsers\<close>

datatype parse_error =
    StreamError string
  | ValidationNotEqualBytes "byte list" "byte list" string
  | ValidationNotEqualU4 u32 u32 string

type_synonym ('a, 's) reader = "'s \<Rightarrow> (parse_error, 'a \<times> 's) outcome"

definition rret :: "'a \<Rightarrow> ('a, 's) reader" where
  "rret x s = Ok (x, s)"

definition rfail :: "parse_error \<Rightarrow> ('a, 's) reader" where
  "rfail e s = Err e"

definition rbind :: "('a, 's) reader \<Rightarrow> ('a \<Rightarrow> ('b, 's) reader) \<Rightarrow> ('b, 's) reader" where
  "rbind f g s = bind_ok (f s) (\<lambda>(x, s'). g x s')"

text \<open>The \<^verbatim>\<open>if !(...) { return kaitai.NewValidationNotEqualError(...) }\<close> of a \<^verbatim>\<open>valid:\<close> key.\<close>

definition rguard :: "bool \<Rightarrow> parse_error \<Rightarrow> (unit, 's) reader" where
  "rguard c e = (if c then rret () else rfail e)"

section \<open>The runtime as a parameter\<close>

record 's kaitai_rt =
  NewStream :: "byte list \<Rightarrow> 's"
  ReadBytes :: "int \<Rightarrow> (byte list, 's) reader"
  ReadU1 :: "(byte, 's) reader"
  ReadU2be :: "(u16, 's) reader"
  ReadU4be :: "(u32, 's) reader"
  ReadU2le :: "(u16, 's) reader"
  ReadU4le :: "(u32, 's) reader"
  ReadU8le :: "(u64, 's) reader"
  ReadS2le :: "(u16, 's) reader"
  ReadS4le :: "(u32, 's) reader"
  ReadF4le :: "(float32, 's) reader"
  ReadF8le :: "(float64, 's) reader"
  Pos :: "(int, 's) reader"
  Seek :: "int \<Rightarrow> (int, 's) reader"

text \<open>
  \<^verbatim>\<open>reads view f n dec\<close>: on a stream seen through \<^verbatim>\<open>view\<close> as the whole data and a position, the
  reader \<^verbatim>\<open>f\<close> consumes exactly the next \<^verbatim>\<open>n\<close> bytes and returns what \<^verbatim>\<open>dec\<close> makes of them; it
  returns an error (and never panics) when they are not there or \<^verbatim>\<open>dec\<close> rejects them.
\<close>

definition reads :: "('s \<Rightarrow> byte list \<times> nat) \<Rightarrow> ('a, 's) reader \<Rightarrow> nat \<Rightarrow> (byte list \<Rightarrow> 'a option) \<Rightarrow> bool" where
  "reads view f n dec \<longleftrightarrow>
     (\<forall>s d p. view s = (d, p) \<longrightarrow> p \<le> length d \<longrightarrow>
       (if p + n \<le> length d
        then (case dec (seg d p (p + n)) of
                Some v \<Rightarrow> \<exists>s'. f s = Ok (v, s') \<and> view s' = (d, p + n)
              | None \<Rightarrow> \<exists>e. f s = Err e)
        else \<exists>e. f s = Err e))"

section \<open>Composition of layouts\<close>

lemma reads_ret: "reads view (rret x) 0 (\<lambda>bs. Some x)"
  by (simp add: reads_def rret_def)

lemma reads_guard: "reads view (rguard c e) 0 (\<lambda>bs. if c then Some () else None)"
  by (simp add: reads_def rguard_def rret_def rfail_def)

lemma reads_Err_short:
  "reads view f n dec \<Longrightarrow> view s = (d, p) \<Longrightarrow> p \<le> length d \<Longrightarrow> length d < p + n \<Longrightarrow> \<exists>e. f s = Err e"
  unfolding reads_def by (metis not_le)

lemma reads_Ok:
  "reads view f n dec \<Longrightarrow> view s = (d, p) \<Longrightarrow> p + n \<le> length d \<Longrightarrow> dec (seg d p (p + n)) = Some v \<Longrightarrow>
     \<exists>s'. f s = Ok (v, s') \<and> view s' = (d, p + n)"
  unfolding reads_def by force

lemma reads_Err:
  "reads view f n dec \<Longrightarrow> view s = (d, p) \<Longrightarrow> p + n \<le> length d \<Longrightarrow> dec (seg d p (p + n)) = None \<Longrightarrow>
     \<exists>e. f s = Err e"
  unfolding reads_def by force

lemma reads_at:
  "reads view f n dec \<Longrightarrow> view s = (d, p) \<Longrightarrow> p \<le> length d \<Longrightarrow>
     (if p + n \<le> length d
      then (case dec (seg d p (p + n)) of
              Some v \<Rightarrow> \<exists>s'. f s = Ok (v, s') \<and> view s' = (d, p + n)
            | None \<Rightarrow> \<exists>e. f s = Err e)
      else \<exists>e. f s = Err e)"
  unfolding reads_def by blast

lemma reads_bind:
  assumes f: "reads view f m df" and g: "\<And>x. reads view (g x) n (dg x)"
  shows "reads view (rbind f g) (m + n) (\<lambda>bs. Option.bind (df (take m bs)) (\<lambda>x. dg x (drop m bs)))"
  unfolding reads_def
proof (intro allI impI)
  fix s d p
  assume v: "view s = (d, p)" and p: "p \<le> length d"
  let ?bs = "seg d p (p + (m + n))"
  have tk: "take m ?bs = seg d p (p + m)"
    by (simp add: seg_def)
  have dr: "p + (m + n) \<le> length d \<Longrightarrow> drop m ?bs = seg d (p + m) (p + m + n)"
    by (simp add: seg_def drop_take add.commute)
  show "if p + (m + n) \<le> length d
    then (case Option.bind (df (take m ?bs)) (\<lambda>x. dg x (drop m ?bs)) of
        Some v \<Rightarrow> \<exists>s'. rbind f g s = Ok (v, s') \<and> view s' = (d, p + (m + n))
      | None \<Rightarrow> \<exists>e. rbind f g s = Err e)
    else \<exists>e. rbind f g s = Err e"
  proof (cases "p + m \<le> length d \<and> df (seg d p (p + m)) \<noteq> None")
    case False
    with reads_at [OF f v p] show ?thesis
      by (auto simp: rbind_def tk split: if_splits)
  next
    case True
    then obtain x s' where x: "df (seg d p (p + m)) = Some x" and s': "f s = Ok (x, s')" "view s' = (d, p + m)"
      using reads_Ok [OF f v] by blast
    with True dr reads_at [OF g [of x] s'(2)] show ?thesis
      by (auto simp: rbind_def tk add.assoc split: option.splits)
  qed
qed

lemma reads_cong:
  assumes "reads view f n dec" and "n = n'" and "\<And>bs. length bs = n' \<Longrightarrow> dec bs = dec' bs"
  shows "reads view f n' dec'"
  unfolding reads_def
proof (intro allI impI)
  fix s d p
  assume v: "view s = (d, p)" and p: "p \<le> length d"
  show "if p + n' \<le> length d
    then (case dec' (seg d p (p + n')) of
        Some v \<Rightarrow> \<exists>s'. f s = Ok (v, s') \<and> view s' = (d, p + n')
      | None \<Rightarrow> \<exists>e. f s = Err e)
    else \<exists>e. f s = Err e"
  proof (cases "p + n' \<le> length d")
    case True
    then have "dec' (seg d p (p + n')) = dec (seg d p (p + n'))"
      using assms(3) [of "seg d p (p + n')"] by simp
    with True show ?thesis
      using reads_Ok [OF assms(1) v] reads_Err [OF assms(1) v] assms(2)
      by (simp split: option.split)
  next
    case False
    with reads_Err_short [OF assms(1) v p] assms(2) show ?thesis by simp
  qed
qed

text \<open>A peek: read at the start of the data and return to where the stream was.\<close>

definition rpeek :: "'s kaitai_rt \<Rightarrow> ('a, 's) reader \<Rightarrow> ('a, 's) reader" where
  "rpeek k f = rbind (Pos k) (\<lambda>pos. rbind (Seek k 0) (\<lambda>_. rbind f (\<lambda>v.
     rbind (Seek k pos) (\<lambda>_. rret v))))"

section \<open>The documented behaviour\<close>

locale kaitai_stream =
  fixes k :: "'s kaitai_rt" and view :: "'s \<Rightarrow> byte list \<times> nat"
  assumes view_NewStream: "view (NewStream k bs) = (bs, 0)"
    and reads_ReadBytes: "0 \<le> n \<Longrightarrow> reads view (ReadBytes k n) (nat n) Some"
    and reads_ReadU1: "reads view (ReadU1 k) 1 (\<lambda>bs. Some (le_word bs))"
    and reads_ReadU2be: "reads view (ReadU2be k) 2 (\<lambda>bs. Some (be_word bs))"
    and reads_ReadU4be: "reads view (ReadU4be k) 4 (\<lambda>bs. Some (be_word bs))"
    and reads_ReadU2le: "reads view (ReadU2le k) 2 (\<lambda>bs. Some (le_word bs))"
    and reads_ReadU4le: "reads view (ReadU4le k) 4 (\<lambda>bs. Some (le_word bs))"
    and reads_ReadU8le: "reads view (ReadU8le k) 8 (\<lambda>bs. Some (le_word bs))"
    and reads_ReadS2le: "reads view (ReadS2le k) 2 (\<lambda>bs. Some (le_word bs))"
    and reads_ReadS4le: "reads view (ReadS4le k) 4 (\<lambda>bs. Some (le_word bs))"
    and reads_ReadF4le: "reads view (ReadF4le k) 4 (\<lambda>bs. Some (le_word bs))"
    and reads_ReadF8le: "reads view (ReadF8le k) 8 (\<lambda>bs. Some (le_word bs))"
    and Pos_view: "view s = (d, p) \<Longrightarrow> \<exists>s'. Pos k s = Ok (int p, s') \<and> view s' = (d, p)"
    and Seek_view: "view s = (d, p) \<Longrightarrow> q \<le> length d \<Longrightarrow>
      \<exists>s'. Seek k (int q) s = Ok (int q, s') \<and> view s' = (d, q)"
begin

lemmas reads_rules =
  reads_bind reads_ret reads_guard reads_ReadBytes reads_ReadU1 reads_ReadU2be reads_ReadU4be
  reads_ReadU2le reads_ReadU4le reads_ReadU8le reads_ReadS2le reads_ReadS4le reads_ReadF4le
  reads_ReadF8le

lemma rpeek_Ok:
  assumes "reads view f n dec" and "view s = (d, p)" and "p \<le> length d"
    and "n \<le> length d" and "dec (take n d) = Some v"
  shows "\<exists>s'. rpeek k f s = Ok (v, s') \<and> view s' = (d, p)"
proof -
  obtain s1 where s1: "Pos k s = Ok (int p, s1)" "view s1 = (d, p)"
    using Pos_view [OF assms(2)] by blast
  obtain s2 where s2: "Seek k 0 s1 = Ok (0, s2)" "view s2 = (d, 0)"
    using Seek_view [OF s1(2), of 0] by auto
  obtain s3 where s3: "f s2 = Ok (v, s3)" "view s3 = (d, n)"
    using reads_Ok [OF assms(1) s2(2)] assms(4,5) by (auto simp: seg_zero)
  obtain s4 where s4: "Seek k (int p) s3 = Ok (int p, s4)" "view s4 = (d, p)"
    using Seek_view [OF s3(2) assms(3)] by blast
  show ?thesis
    by (simp add: rpeek_def rbind_def rret_def s1 s2 s3 s4)
qed

lemma rpeek_Err:
  assumes "reads view f n dec" and "view s = (d, p)" and "length d < n"
  shows "\<exists>e. rpeek k f s = Err e"
proof -
  obtain s1 where s1: "Pos k s = Ok (int p, s1)" "view s1 = (d, p)"
    using Pos_view [OF assms(2)] by blast
  obtain s2 where s2: "Seek k 0 s1 = Ok (0, s2)" "view s2 = (d, 0)"
    using Seek_view [OF s1(2), of 0] by auto
  obtain e where "f s2 = Err e"
    using reads_Err_short [OF assms(1) s2(2)] assms(3) by auto
  then show ?thesis
    by (simp add: rpeek_def rbind_def s1 s2)
qed

end

section \<open>The runtime over a byte slice\<close>

definition take_n :: "nat \<Rightarrow> (byte list \<Rightarrow> 'a) \<Rightarrow> ('a, byte list \<times> nat) reader" where
  "take_n n dec = (\<lambda>(d, p).
     if p + n \<le> length d then Ok (dec (seg d p (p + n)), (d, p + n)) else Err (StreamError ''EOF''))"

definition bytes_rt :: "(byte list \<times> nat) kaitai_rt" where
  "bytes_rt = \<lparr>
     NewStream = (\<lambda>bs. (bs, 0)),
     ReadBytes = (\<lambda>n. if n < 0 then rfail (StreamError ''negative'') else take_n (nat n) (\<lambda>bs. bs)),
     ReadU1 = take_n 1 le_word, ReadU2be = take_n 2 be_word, ReadU4be = take_n 4 be_word,
     ReadU2le = take_n 2 le_word, ReadU4le = take_n 4 le_word, ReadU8le = take_n 8 le_word,
     ReadS2le = take_n 2 le_word, ReadS4le = take_n 4 le_word,
     ReadF4le = take_n 4 le_word, ReadF8le = take_n 8 le_word,
     Pos = (\<lambda>(d, p). Ok (int p, (d, p))),
     Seek = (\<lambda>q (d, p). if q < 0 then Err (StreamError ''seek'') else Ok (q, (d, nat q)))\<rparr>"

lemma reads_take_n: "reads (\<lambda>s. s) (take_n n dec) n (\<lambda>bs. Some (dec bs))"
  by (simp add: reads_def take_n_def)

interpretation bytes_stream: kaitai_stream bytes_rt "\<lambda>s. s"
proof unfold_locales
  fix n :: int
  assume "0 \<le> n"
  then show "reads (\<lambda>s. s) (ReadBytes bytes_rt n) (nat n) Some"
    using reads_take_n [of "nat n" "\<lambda>bs. bs"] by (simp add: bytes_rt_def)
qed (simp_all add: bytes_rt_def reads_take_n)

end
