(* ===== verification/Ccsds_Primary_Header.thy ===== *)
theory Ccsds_Primary_Header
  imports Kaitai_Stream
begin

text \<open>
  \<^verbatim>\<open>protocol/ccsds_primary_header.go\<close>: the six-octet CCSDS primary header, its reader and its
  eight memoised accessors.  Each accessor keeps a flag and a value in the object; the contract
  they share (the memo is invisible) is the locale \<^verbatim>\<open>memo_accessor\<close>, interpreted for each.
\<close>

unbundle bit_operations_syntax

section \<open>The header object\<close>

record ccsds_primary_header =
  VersionTypeFlagApid :: u16
  SeqFlagsCount :: u16
  PacketDataLength :: u16
  f_apid :: bool
  m_apid :: int
  f_dataFieldLength :: bool
  m_dataFieldLength :: int
  f_packetType :: bool
  m_packetType :: int
  f_secHeaderFlag :: bool
  m_secHeaderFlag :: int
  f_seqCount :: bool
  m_seqCount :: int
  f_seqFlags :: bool
  m_seqFlags :: int
  f_totalPacketLength :: bool
  m_totalPacketLength :: int
  f_version :: bool
  m_version :: int

definition NewCcsdsPrimaryHeader :: ccsds_primary_header where
  "NewCcsdsPrimaryHeader = \<lparr>VersionTypeFlagApid = 0, SeqFlagsCount = 0, PacketDataLength = 0,
     f_apid = False, m_apid = 0, f_dataFieldLength = False, m_dataFieldLength = 0,
     f_packetType = False, m_packetType = 0, f_secHeaderFlag = False, m_secHeaderFlag = 0,
     f_seqCount = False, m_seqCount = 0, f_seqFlags = False, m_seqFlags = 0,
     f_totalPacketLength = False, m_totalPacketLength = 0, f_version = False, m_version = 0\<rparr>"

definition CcsdsPrimaryHeader_Read :: "'s kaitai_rt \<Rightarrow> (ccsds_primary_header, 's) reader" where
  "CcsdsPrimaryHeader_Read k =
     rbind (ReadU2be k) (\<lambda>tmp1. rbind (ReadU2be k) (\<lambda>tmp2. rbind (ReadU2be k) (\<lambda>tmp3.
       rret (NewCcsdsPrimaryHeader\<lparr>VersionTypeFlagApid := tmp1, SeqFlagsCount := tmp2,
         PacketDataLength := tmp3\<rparr>))))"

section \<open>Memoised accessors\<close>

definition Apid :: "ccsds_primary_header \<Rightarrow> int \<times> ccsds_primary_header" where
  "Apid h = (if f_apid h then (m_apid h, h)
     else let v = uint (VersionTypeFlagApid h AND 2047) in (v, h\<lparr>f_apid := True, m_apid := v\<rparr>))"

definition DataFieldLength :: "ccsds_primary_header \<Rightarrow> int \<times> ccsds_primary_header" where
  "DataFieldLength h = (if f_dataFieldLength h then (m_dataFieldLength h, h)
     else let v = uint (PacketDataLength h + 1)
       in (v, h\<lparr>f_dataFieldLength := True, m_dataFieldLength := v\<rparr>))"

definition PacketType :: "ccsds_primary_header \<Rightarrow> int \<times> ccsds_primary_header" where
  "PacketType h = (if f_packetType h then (m_packetType h, h)
     else let v = uint (drop_bit 12 (VersionTypeFlagApid h) AND 1)
       in (v, h\<lparr>f_packetType := True, m_packetType := v\<rparr>))"

definition SecHeaderFlag :: "ccsds_primary_header \<Rightarrow> int \<times> ccsds_primary_header" where
  "SecHeaderFlag h = (if f_secHeaderFlag h then (m_secHeaderFlag h, h)
     else let v = uint (drop_bit 11 (VersionTypeFlagApid h) AND 1)
       in (v, h\<lparr>f_secHeaderFlag := True, m_secHeaderFlag := v\<rparr>))"

definition SeqCount :: "ccsds_primary_header \<Rightarrow> int \<times> ccsds_primary_header" where
  "SeqCount h = (if f_seqCount h then (m_seqCount h, h)
     else let v = uint (SeqFlagsCount h AND 16383) in (v, h\<lparr>f_seqCount := True, m_seqCount := v\<rparr>))"

definition SeqFlags :: "ccsds_primary_header \<Rightarrow> int \<times> ccsds_primary_header" where
  "SeqFlags h = (if f_seqFlags h then (m_seqFlags h, h)
     else let v = uint (drop_bit 14 (SeqFlagsCount h) AND 3)
       in (v, h\<lparr>f_seqFlags := True, m_seqFlags := v\<rparr>))"

definition TotalPacketLength :: "ccsds_primary_header \<Rightarrow> int \<times> ccsds_primary_header" where
  "TotalPacketLength h = (if f_totalPacketLength h then (m_totalPacketLength h, h)
     else let v = uint (PacketDataLength h + 7)
       in (v, h\<lparr>f_totalPacketLength := True, m_totalPacketLength := v\<rparr>))"

definition Version :: "ccsds_primary_header \<Rightarrow> int \<times> ccsds_primary_header" where
  "Version h = (if f_version h then (m_version h, h)
     else let v = uint (drop_bit 13 (VersionTypeFlagApid h) AND 7)
       in (v, h\<lparr>f_version := True, m_version := v\<rparr>))"

lemmas ccsds_accessor_defs =
  Apid_def DataFieldLength_def PacketType_def SecHeaderFlag_def SeqCount_def SeqFlags_def
  TotalPacketLength_def Version_def

section \<open>The memo invariant\<close>

text \<open>What a set flag promises: the stored value is the one the three wire words give.\<close>

definition memo_ok :: "ccsds_primary_header \<Rightarrow> bool" where
  "memo_ok h \<longleftrightarrow>
     (f_apid h \<longrightarrow> m_apid h = uint (VersionTypeFlagApid h AND 2047)) \<and>
     (f_dataFieldLength h \<longrightarrow> m_dataFieldLength h = uint (PacketDataLength h + 1)) \<and>
     (f_packetType h \<longrightarrow> m_packetType h = uint (drop_bit 12 (VersionTypeFlagApid h) AND 1)) \<and>
     (f_secHeaderFlag h \<longrightarrow> m_secHeaderFlag h = uint (drop_bit 11 (VersionTypeFlagApid h) AND 1)) \<and>
     (f_seqCount h \<longrightarrow> m_seqCount h = uint (SeqFlagsCount h AND 16383)) \<and>
     (f_seqFlags h \<longrightarrow> m_seqFlags h = uint (drop_bit 14 (SeqFlagsCount h) AND 3)) \<and>
     (f_totalPacketLength h \<longrightarrow> m_totalPacketLength h = uint (PacketDataLength h + 7)) \<and>
     (f_version h \<longrightarrow> m_version h = uint (drop_bit 13 (VersionTypeFlagApid h) AND 7))"

definition wire_words :: "ccsds_primary_header \<Rightarrow> u16 \<times> u16 \<times> u16" where
  "wire_words h = (VersionTypeFlagApid h, SeqFlagsCount h, PacketDataLength h)"

text \<open>
  The contract of a memoised accessor: on an object whose memo is right it returns the value the
  wire words determine, keeps the memo right and leaves the wire words alone.
\<close>

locale memo_accessor =
  fixes acc :: "'h \<Rightarrow> 'v \<times> 'h" and inv :: "'h \<Rightarrow> bool" and core :: "'h \<Rightarrow> 'c" and pure_val :: "'c \<Rightarrow> 'v"
  assumes acc_value: "inv h \<Longrightarrow> fst (acc h) = pure_val (core h)"
    and acc_inv: "inv h \<Longrightarrow> inv (snd (acc h))"
    and acc_core: "core (snd (acc h)) = core h"
begin

lemma acc_again: "inv h \<Longrightarrow> fst (acc (snd (acc h))) = fst (acc h)"
  by (simp add: acc_value acc_inv acc_core)

lemma acc_core_only: "inv h \<Longrightarrow> inv h' \<Longrightarrow> core h = core h' \<Longrightarrow> fst (acc h) = fst (acc h')"
  by (simp add: acc_value)

lemma acc_pair: "inv h \<Longrightarrow> \<exists>h'. acc h = (pure_val (core h), h') \<and> inv h' \<and> core h' = core h"
  using acc_value [of h] acc_inv [of h] acc_core [of h] by (cases "acc h") auto

end

lemmas memo_simps = memo_ok_def wire_words_def ccsds_accessor_defs Let_def

interpretation apid: memo_accessor Apid memo_ok wire_words "\<lambda>(v, q, l). uint (v AND 2047)"
  by unfold_locales (simp_all add: memo_simps)

interpretation data_length: memo_accessor DataFieldLength memo_ok wire_words "\<lambda>(v, q, l). uint (l + 1)"
  by unfold_locales (simp_all add: memo_simps)

interpretation packet_type: memo_accessor PacketType memo_ok wire_words
  "\<lambda>(v, q, l). uint (drop_bit 12 v AND 1)"
  by unfold_locales (simp_all add: memo_simps)

interpretation sec_flag: memo_accessor SecHeaderFlag memo_ok wire_words
  "\<lambda>(v, q, l). uint (drop_bit 11 v AND 1)"
  by unfold_locales (simp_all add: memo_simps)

interpretation seq_count: memo_accessor SeqCount memo_ok wire_words "\<lambda>(v, q, l). uint (q AND 16383)"
  by unfold_locales (simp_all add: memo_simps)

interpretation seq_flags: memo_accessor SeqFlags memo_ok wire_words
  "\<lambda>(v, q, l). uint (drop_bit 14 q AND 3)"
  by unfold_locales (simp_all add: memo_simps)

interpretation total_length: memo_accessor TotalPacketLength memo_ok wire_words
  "\<lambda>(v, q, l). uint (l + 7)"
  by unfold_locales (simp_all add: memo_simps)

interpretation version_nr: memo_accessor Version memo_ok wire_words
  "\<lambda>(v, q, l). uint (drop_bit 13 v AND 7)"
  by unfold_locales (simp_all add: memo_simps)

section \<open>Layout\<close>

definition ccsds_of_words :: "u16 \<Rightarrow> u16 \<Rightarrow> u16 \<Rightarrow> ccsds_primary_header" where
  "ccsds_of_words v q l = NewCcsdsPrimaryHeader\<lparr>VersionTypeFlagApid := v, SeqFlagsCount := q,
     PacketDataLength := l\<rparr>"

definition decode_ccsds :: "byte list \<Rightarrow> ccsds_primary_header" where
  "decode_ccsds bs = ccsds_of_words (be_word (seg bs 0 2)) (be_word (seg bs 2 4)) (be_word (seg bs 4 6))"

lemma ccsds_of_words_simps [simp]:
  "VersionTypeFlagApid (ccsds_of_words v q l) = v"
  "SeqFlagsCount (ccsds_of_words v q l) = q"
  "PacketDataLength (ccsds_of_words v q l) = l"
  "wire_words (ccsds_of_words v q l) = (v, q, l)"
  "memo_ok (ccsds_of_words v q l)"
  by (simp_all add: ccsds_of_words_def NewCcsdsPrimaryHeader_def wire_words_def memo_ok_def)

lemma memo_ok_decode_ccsds [simp]: "memo_ok (decode_ccsds bs)"
  by (simp add: decode_ccsds_def)

context kaitai_stream
begin

lemma reads_CcsdsPrimaryHeader:
  "reads view (CcsdsPrimaryHeader_Read k) 6 (\<lambda>bs. Some (decode_ccsds bs))"
  unfolding CcsdsPrimaryHeader_Read_def
  by (rule reads_cong, (rule reads_rules)+)
    (simp_all add: decode_ccsds_def ccsds_of_words_def seg_def)

end

end
