(* ===== verification/Snlp_Header.thy ===== *)
theory Snlp_Header
  imports Ccsds_Primary_Header
begin

text \<open>
  \<^verbatim>\<open>protocol/snlp_header.go\<close>: the fourteen-byte SNLP header, a sync word, an embedded CCSDS
  primary header and an alignment pad, with the two validations of the generated reader.
\<close>

record snlp_header =
  SyncWord :: "byte list"
  Ccsds :: ccsds_primary_header
  AlignPad :: u32

definition SnlpHeader_Read :: "'s kaitai_rt \<Rightarrow> (snlp_header, 's) reader" where
  "SnlpHeader_Read k =
     rbind (ReadBytes k 4) (\<lambda>tmp1.
     rbind (rguard (tmp1 = [29, 1, 165, 165])
       (ValidationNotEqualBytes [29, 1, 165, 165] tmp1 ''/seq/0'')) (\<lambda>_.
     rbind (CcsdsPrimaryHeader_Read k) (\<lambda>tmp2.
     rbind (ReadU4be k) (\<lambda>tmp3.
     rbind (rguard (tmp3 = 0) (ValidationNotEqualU4 0 tmp3 ''/seq/2'')) (\<lambda>_.
     rret \<lparr>SyncWord = tmp1, Ccsds = tmp2, AlignPad = tmp3\<rparr>)))))"

definition decode_snlp :: "byte list \<Rightarrow> snlp_header option" where
  "decode_snlp bs =
     (if take 4 bs = [29, 1, 165, 165] \<and> be_word (seg bs 10 14) = (0 :: u32)
      then Some \<lparr>SyncWord = [29, 1, 165, 165], Ccsds = decode_ccsds (seg bs 4 10), AlignPad = 0\<rparr>
      else None)"

context kaitai_stream
begin

lemma reads_SnlpHeader: "reads view (SnlpHeader_Read k) 14 decode_snlp"
  unfolding SnlpHeader_Read_def
  by (rule reads_cong, (rule reads_rules reads_CcsdsPrimaryHeader | simp)+)
    (auto simp: decode_snlp_def seg_def)

end

end
