(* ===== verification/Tig_Common_Types.thy ===== *)
theory Tig_Common_Types
  imports Kaitai_Stream
begin

text \<open>
  \<^verbatim>\<open>protocol/tig_common_types.go\<close>: the enumerations and the fixed-size field types that packet
  bodies share.  Every type comes with its reader, the layout it decodes and the encoder that
  inverts it; the contract of such a pair is the locale \<^verbatim>\<open>wire_layout\<close>.
\<close>

section \<open>Enumerations\<close>

text \<open>A Go enumeration is an integer type: a conversion from the wire never fails.\<close>

type_synonym TigCommonTypes_AssetId = int
type_synonym TigCommonTypes_CmdCode = int
type_synonym TigCommonTypes_PacketTypeId = int
type_synonym TigCommonTypes_SettlementStatus = int
type_synonym TigCommonTypes_SysState = int

definition AssetId_isDefined :: "TigCommonTypes_AssetId \<Rightarrow> bool" where
  "AssetId_isDefined v \<longleftrightarrow> v \<in> {1}"

definition CmdCode_isDefined :: "TigCommonTypes_CmdCode \<Rightarrow> bool" where
  "CmdCode_isDefined v \<longleftrightarrow> v \<in> {1, 255}"

definition PacketTypeId_isDefined :: "TigCommonTypes_PacketTypeId \<Rightarrow> bool" where
  "PacketTypeId_isDefined v \<longleftrightarrow> v \<in> {0, 1}"

definition SettlementStatus_isDefined :: "TigCommonTypes_SettlementStatus \<Rightarrow> bool" where
  "SettlementStatus_isDefined v \<longleftrightarrow> v \<in> {1, 255}"

definition SysState_isDefined :: "TigCommonTypes_SysState \<Rightarrow> bool" where
  "SysState_isDefined v \<longleftrightarrow> v \<in> {0, 1, 2, 3, 4, 5, 6}"

section \<open>Field types\<close>

record ed25519_signature =
  sig_Raw :: "byte list"

record gps_fixed_point =
  gps_Latitude :: u32
  gps_Longitude :: u32

record relay_ops =
  Azimuth :: u16
  Elevation :: u16
  Frequency :: u32
  DurationMs :: u32

record vector3d =
  d_X :: float64
  d_Y :: float64
  d_Z :: float64

record vector3f =
  f_X :: float32
  f_Y :: float32
  f_Z :: float32

record x25519_public_key =
  key_Raw :: "byte list"

definition Ed25519Signature_Read :: "'s kaitai_rt \<Rightarrow> (ed25519_signature, 's) reader" where
  "Ed25519Signature_Read k = rbind (ReadBytes k 64) (\<lambda>tmp1. rret \<lparr>sig_Raw = tmp1\<rparr>)"

definition GpsFixedPoint_Read :: "'s kaitai_rt \<Rightarrow> (gps_fixed_point, 's) reader" where
  "GpsFixedPoint_Read k = rbind (ReadS4le k) (\<lambda>tmp2. rbind (ReadS4le k) (\<lambda>tmp3.
     rret \<lparr>gps_Latitude = tmp2, gps_Longitude = tmp3\<rparr>))"

definition RelayOps_Read :: "'s kaitai_rt \<Rightarrow> (relay_ops, 's) reader" where
  "RelayOps_Read k = rbind (ReadU2le k) (\<lambda>tmp4. rbind (ReadU2le k) (\<lambda>tmp5.
     rbind (ReadU4le k) (\<lambda>tmp6. rbind (ReadU4le k) (\<lambda>tmp7.
     rret \<lparr>Azimuth = tmp4, Elevation = tmp5, Frequency = tmp6, DurationMs = tmp7\<rparr>))))"

definition Vector3d_Read :: "'s kaitai_rt \<Rightarrow> (vector3d, 's) reader" where
  "Vector3d_Read k = rbind (ReadF8le k) (\<lambda>tmp8. rbind (ReadF8le k) (\<lambda>tmp9.
     rbind (ReadF8le k) (\<lambda>tmp10. rret \<lparr>d_X = tmp8, d_Y = tmp9, d_Z = tmp10\<rparr>)))"

definition Vector3f_Read :: "'s kaitai_rt \<Rightarrow> (vector3f, 's) reader" where
  "Vector3f_Read k = rbind (ReadF4le k) (\<lambda>tmp11. rbind (ReadF4le k) (\<lambda>tmp12.
     rbind (ReadF4le k) (\<lambda>tmp13. rret \<lparr>f_X = tmp11, f_Y = tmp12, f_Z = tmp13\<rparr>)))"

definition X25519PublicKey_Read :: "'s kaitai_rt \<Rightarrow> (x25519_public_key, 's) reader" where
  "X25519PublicKey_Read k = rbind (ReadBytes k 32) (\<lambda>tmp14. rret \<lparr>key_Raw = tmp14\<rparr>)"

section \<open>Layouts\<close>

text \<open>
  A fixed wire layout: values that fit it and byte strings of its width correspond one to one.
\<close>

locale wire_layout =
  fixes enc :: "'a \<Rightarrow> byte list" and dec :: "byte list \<Rightarrow> 'a" and width :: nat and fits :: "'a \<Rightarrow> bool"
  assumes length_enc: "fits x \<Longrightarrow> length (enc x) = width"
    and dec_enc: "fits x \<Longrightarrow> dec (enc x) = x"
    and fits_dec: "length bs = width \<Longrightarrow> fits (dec bs)"
    and enc_dec: "length bs = width \<Longrightarrow> enc (dec bs) = bs"
begin

lemma dec_inject: "length bs = width \<Longrightarrow> length cs = width \<Longrightarrow> dec bs = dec cs \<longleftrightarrow> bs = cs"
  by (metis enc_dec)

lemma enc_inject: "fits x \<Longrightarrow> fits y \<Longrightarrow> enc x = enc y \<longleftrightarrow> x = y"
  by (metis dec_enc)

end

text \<open>Rules that take a concatenation apart at constant offsets and put it together again.\<close>

lemma seg_join_more: "lo \<le> m \<Longrightarrow> m \<le> hi \<Longrightarrow> seg xs lo m @ seg xs m hi @ ys = seg xs lo hi @ ys"
  by (simp flip: append_assoc add: seg_join)

lemma seg_all: "length xs = n \<Longrightarrow> seg xs 0 n = xs"
  by (simp add: seg_def)

lemma seg_mid:
  "length xs \<le> lo \<Longrightarrow> seg (xs @ ys) lo hi = seg ys (lo - length xs) (hi - length xs)"
  by (rule seg_append_right)

lemma seg_head: "length xs = hi \<Longrightarrow> seg (xs @ ys) 0 hi = xs"
  by (simp add: seg_def)

lemma le_bytes_seg:
  "hi \<le> length bs \<Longrightarrow> 8 * (hi - lo) \<le> LENGTH('a) \<Longrightarrow> n = hi - lo \<Longrightarrow>
     le_bytes n (le_word (seg bs lo hi) :: 'a::len word) = seg bs lo hi"
  by (simp add: le_bytes_le_word)

lemmas layout_simps = seg_mid seg_head seg_all seg_seg le_word_le_bytes
lemmas layout_join = le_bytes_seg seg_join seg_join_more seg_all

definition decode_relay_ops :: "byte list \<Rightarrow> relay_ops" where
  "decode_relay_ops bs = \<lparr>Azimuth = le_word (seg bs 0 2), Elevation = le_word (seg bs 2 4),
     Frequency = le_word (seg bs 4 8), DurationMs = le_word (seg bs 8 12)\<rparr>"

definition encode_relay_ops :: "relay_ops \<Rightarrow> byte list" where
  "encode_relay_ops r = le_bytes 2 (Azimuth r) @ le_bytes 2 (Elevation r) @
     le_bytes 4 (Frequency r) @ le_bytes 4 (DurationMs r)"

definition decode_vector3d :: "byte list \<Rightarrow> vector3d" where
  "decode_vector3d bs = \<lparr>d_X = le_word (seg bs 0 8), d_Y = le_word (seg bs 8 16), d_Z = le_word (seg bs 16 24)\<rparr>"

definition encode_vector3d :: "vector3d \<Rightarrow> byte list" where
  "encode_vector3d v = le_bytes 8 (d_X v) @ le_bytes 8 (d_Y v) @ le_bytes 8 (d_Z v)"

definition decode_vector3f :: "byte list \<Rightarrow> vector3f" where
  "decode_vector3f bs = \<lparr>f_X = le_word (seg bs 0 4), f_Y = le_word (seg bs 4 8), f_Z = le_word (seg bs 8 12)\<rparr>"

definition encode_vector3f :: "vector3f \<Rightarrow> byte list" where
  "encode_vector3f v = le_bytes 4 (f_X v) @ le_bytes 4 (f_Y v) @ le_bytes 4 (f_Z v)"

definition decode_gps :: "byte list \<Rightarrow> gps_fixed_point" where
  "decode_gps bs = \<lparr>gps_Latitude = le_word (seg bs 0 4), gps_Longitude = le_word (seg bs 4 8)\<rparr>"

definition encode_gps :: "gps_fixed_point \<Rightarrow> byte list" where
  "encode_gps g = le_bytes 4 (gps_Latitude g) @ le_bytes 4 (gps_Longitude g)"

interpretation relay_ops_layout: wire_layout encode_relay_ops decode_relay_ops 12 "\<lambda>_. True"
  by unfold_locales (simp_all add: encode_relay_ops_def decode_relay_ops_def layout_simps layout_join)

interpretation vector3d_layout: wire_layout encode_vector3d decode_vector3d 24 "\<lambda>_. True"
  by unfold_locales (simp_all add: encode_vector3d_def decode_vector3d_def layout_simps layout_join)

interpretation vector3f_layout: wire_layout encode_vector3f decode_vector3f 12 "\<lambda>_. True"
  by unfold_locales (simp_all add: encode_vector3f_def decode_vector3f_def layout_simps layout_join)

interpretation gps_layout: wire_layout encode_gps decode_gps 8 "\<lambda>_. True"
  by unfold_locales (simp_all add: encode_gps_def decode_gps_def layout_simps layout_join)

context kaitai_stream
begin

lemma reads_Ed25519Signature: "reads view (Ed25519Signature_Read k) 64 (\<lambda>bs. Some \<lparr>sig_Raw = bs\<rparr>)"
  unfolding Ed25519Signature_Read_def
  by (rule reads_cong, (rule reads_rules | simp)+)

lemma reads_X25519PublicKey: "reads view (X25519PublicKey_Read k) 32 (\<lambda>bs. Some \<lparr>key_Raw = bs\<rparr>)"
  unfolding X25519PublicKey_Read_def
  by (rule reads_cong, (rule reads_rules | simp)+)

lemma reads_GpsFixedPoint: "reads view (GpsFixedPoint_Read k) 8 (\<lambda>bs. Some (decode_gps bs))"
  unfolding GpsFixedPoint_Read_def
  by (rule reads_cong, (rule reads_rules)+) (simp_all add: decode_gps_def seg_def)

lemma reads_RelayOps: "reads view (RelayOps_Read k) 12 (\<lambda>bs. Some (decode_relay_ops bs))"
  unfolding RelayOps_Read_def
  by (rule reads_cong, (rule reads_rules)+) (simp_all add: decode_relay_ops_def seg_def)

lemma reads_Vector3d: "reads view (Vector3d_Read k) 24 (\<lambda>bs. Some (decode_vector3d bs))"
  unfolding Vector3d_Read_def
  by (rule reads_cong, (rule reads_rules)+) (simp_all add: decode_vector3d_def seg_def)

lemma reads_Vector3f: "reads view (Vector3f_Read k) 12 (\<lambda>bs. Some (decode_vector3f bs))"
  unfolding Vector3f_Read_def
  by (rule reads_cong, (rule reads_rules)+) (simp_all add: decode_vector3f_def seg_def)

lemmas reads_field_rules =
  reads_rules reads_Ed25519Signature reads_X25519PublicKey reads_GpsFixedPoint reads_RelayOps
  reads_Vector3d reads_Vector3f

end

end
