(* ===== verification/Packet_Bodies.thy ===== *)
theory Packet_Bodies
  imports Tig_Common_Types
begin

text \<open>
  The eight packet bodies of \<^verbatim>\<open>protocol/void_protocol.go\<close>.  For each: the struct as a record, the
  generated \<^verbatim>\<open>Read\<close> field by field over the stream parameter, and the wire layout it decodes, as a
  decoder at constant offsets and its inverse.  Inside \<^verbatim>\<open>kaitai_stream\<close> every \<^verbatim>\<open>Read\<close> is shown to
  consume exactly its width and return what the layout says; \<^verbatim>\<open>wire_layout\<close> is interpreted for
  every layout, so the fields determine the bytes and the bytes the fields.
\<close>

lemma uint_word_byte: "0 \<le> x \<Longrightarrow> x < 256 \<Longrightarrow> uint (word_of_int x :: byte) = x"
  by (simp add: uint_word_of_int)

lemma uint_word_u16: "0 \<le> x \<Longrightarrow> x < 65536 \<Longrightarrow> uint (word_of_int x :: u16) = x"
  by (simp add: uint_word_of_int)

lemma uint_byte_range: "0 \<le> uint (w :: byte) \<and> uint w < 256"
  using uint_lt2p [of w] by simp

lemma uint_u16_range: "0 \<le> uint (w :: u16) \<and> uint w < 65536"
  using uint_lt2p [of w] by simp

lemma le_word_le_bytes1: "le_word (le_bytes 1 w) = (w :: byte)"
  by (simp add: le_word_le_bytes)

lemmas body_layout_simps = layout_simps layout_join uint_word_byte uint_word_u16 uint_byte_range
  uint_u16_range le_word_le_bytes1 relay_ops_layout.dec_enc relay_ops_layout.enc_dec relay_ops_layout.length_enc
  vector3d_layout.dec_enc vector3d_layout.enc_dec vector3d_layout.length_enc
  vector3f_layout.dec_enc vector3f_layout.enc_dec vector3f_layout.length_enc

section \<open>Heartbeat (34 bytes)\<close>

record heartbeat_body =
  hb_PadHead :: "byte list"
  hb_EpochTs :: u64
  hb_PressurePa :: u32
  hb_LatFixed :: u32
  hb_LonFixed :: u32
  hb_VbattMv :: u16
  hb_TempC :: u16
  hb_GpsSpeedCms :: u16
  hb_SysState :: TigCommonTypes_SysState
  hb_SatLock :: byte
  hb_Crc32 :: u32

definition HeartbeatBody_Read :: "'s kaitai_rt \<Rightarrow> (heartbeat_body, 's) reader" where
  "HeartbeatBody_Read k =
     rbind (ReadBytes k 2) (\<lambda>tmp46.
     rbind (ReadU8le k) (\<lambda>tmp47.
     rbind (ReadU4le k) (\<lambda>tmp48.
     rbind (ReadS4le k) (\<lambda>tmp49.
     rbind (ReadS4le k) (\<lambda>tmp50.
     rbind (ReadU2le k) (\<lambda>tmp51.
     rbind (ReadS2le k) (\<lambda>tmp52.
     rbind (ReadU2le k) (\<lambda>tmp53.
     rbind (ReadU1 k) (\<lambda>tmp54.
     rbind (ReadU1 k) (\<lambda>tmp55.
     rbind (ReadU4le k) (\<lambda>tmp56.
       rret \<lparr>hb_PadHead = tmp46, hb_EpochTs = tmp47, hb_PressurePa = tmp48,
         hb_LatFixed = tmp49, hb_LonFixed = tmp50, hb_VbattMv = tmp51, hb_TempC = tmp52,
         hb_GpsSpeedCms = tmp53, hb_SysState = uint tmp54, hb_SatLock = tmp55,
         hb_Crc32 = tmp56\<rparr>)))))))))))"

definition decode_HeartbeatBody :: "byte list \<Rightarrow> heartbeat_body" where
  "decode_HeartbeatBody bs = \<lparr>
     hb_PadHead = seg bs 0 2,
     hb_EpochTs = le_word (seg bs 2 10),
     hb_PressurePa = le_word (seg bs 10 14),
     hb_LatFixed = le_word (seg bs 14 18),
     hb_LonFixed = le_word (seg bs 18 22),
     hb_VbattMv = le_word (seg bs 22 24),
     hb_TempC = le_word (seg bs 24 26),
     hb_GpsSpeedCms = le_word (seg bs 26 28),
     hb_SysState = uint (le_word (seg bs 28 29) :: byte),
     hb_SatLock = le_word (seg bs 29 30),
     hb_Crc32 = le_word (seg bs 30 34)\<rparr>"

definition encode_HeartbeatBody :: "heartbeat_body \<Rightarrow> byte list" where
  "encode_HeartbeatBody b =
     hb_PadHead b @
     le_bytes 8 (hb_EpochTs b) @
     le_bytes 4 (hb_PressurePa b) @
     le_bytes 4 (hb_LatFixed b) @
     le_bytes 4 (hb_LonFixed b) @
     le_bytes 2 (hb_VbattMv b) @
     le_bytes 2 (hb_TempC b) @
     le_bytes 2 (hb_GpsSpeedCms b) @
     le_bytes 1 (word_of_int (hb_SysState b) :: byte) @
     le_bytes 1 (hb_SatLock b) @
     le_bytes 4 (hb_Crc32 b)"

definition fits_HeartbeatBody :: "heartbeat_body \<Rightarrow> bool" where
  "fits_HeartbeatBody b \<longleftrightarrow>
     length (hb_PadHead b) = 2 \<and>
     0 \<le> hb_SysState b \<and>
     hb_SysState b < 256"

interpretation heartbeat_body_layout: wire_layout encode_HeartbeatBody decode_HeartbeatBody 34 fits_HeartbeatBody
  by unfold_locales
    (simp_all add: encode_HeartbeatBody_def decode_HeartbeatBody_def fits_HeartbeatBody_def body_layout_simps)

section \<open>Packet A, the invoice (66 bytes)\<close>

record packet_a_body =
  pa_PadHead :: "byte list"
  pa_EpochTs :: u64
  pa_PosVec :: vector3d
  pa_VelVec :: vector3f
  pa_SatId :: u32
  pa_Amount :: u64
  pa_AssetId :: TigCommonTypes_AssetId
  pa_PreCrc :: "byte list"
  pa_Crc32 :: u32

definition PacketABody_Read :: "'s kaitai_rt \<Rightarrow> (packet_a_body, 's) reader" where
  "PacketABody_Read k =
     rbind (ReadBytes k 2) (\<lambda>tmp57.
     rbind (ReadU8le k) (\<lambda>tmp58.
     rbind (Vector3d_Read k) (\<lambda>tmp59.
     rbind (Vector3f_Read k) (\<lambda>tmp60.
     rbind (ReadU4le k) (\<lambda>tmp61.
     rbind (ReadU8le k) (\<lambda>tmp62.
     rbind (ReadU2le k) (\<lambda>tmp63.
     rbind (ReadBytes k 2) (\<lambda>tmp64.
     rbind (ReadU4le k) (\<lambda>tmp65.
       rret \<lparr>pa_PadHead = tmp57, pa_EpochTs = tmp58, pa_PosVec = tmp59,
         pa_VelVec = tmp60, pa_SatId = tmp61, pa_Amount = tmp62, pa_AssetId = uint tmp63,
         pa_PreCrc = tmp64, pa_Crc32 = tmp65\<rparr>)))))))))"

definition decode_PacketABody :: "byte list \<Rightarrow> packet_a_body" where
  "decode_PacketABody bs = \<lparr>
     pa_PadHead = seg bs 0 2,
     pa_EpochTs = le_word (seg bs 2 10),
     pa_PosVec = decode_vector3d (seg bs 10 34),
     pa_VelVec = decode_vector3f (seg bs 34 46),
     pa_SatId = le_word (seg bs 46 50),
     pa_Amount = le_word (seg bs 50 58),
     pa_AssetId = uint (le_word (seg bs 58 60) :: u16),
     pa_PreCrc = seg bs 60 62,
     pa_Crc32 = le_word (seg bs 62 66)\<rparr>"

definition encode_PacketABody :: "packet_a_body \<Rightarrow> byte list" where
  "encode_PacketABody b =
     pa_PadHead b @
     le_bytes 8 (pa_EpochTs b) @
     encode_vector3d (pa_PosVec b) @
     encode_vector3f (pa_VelVec b) @
     le_bytes 4 (pa_SatId b) @
     le_bytes 8 (pa_Amount b) @
     le_bytes 2 (word_of_int (pa_AssetId b) :: u16) @
     pa_PreCrc b @
     le_bytes 4 (pa_Crc32 b)"

definition fits_PacketABody :: "packet_a_body \<Rightarrow> bool" where
  "fits_PacketABody b \<longleftrightarrow>
     length (pa_PadHead b) = 2 \<and>
     0 \<le> pa_AssetId b \<and>
     pa_AssetId b < 65536 \<and>
     length (pa_PreCrc b) = 2"

interpretation packet_a_body_layout: wire_layout encode_PacketABody decode_PacketABody 66 fits_PacketABody
  by unfold_locales
    (simp_all add: encode_PacketABody_def decode_PacketABody_def fits_PacketABody_def body_layout_simps)

section \<open>Packet ACK, CCSDS tier (114 bytes)\<close>

record packet_ack_body_ccsds =
  ac_Magic :: "byte list"
  ac_PadA :: "byte list"
  ac_TargetTxId :: u32
  ac_Status :: TigCommonTypes_SettlementStatus
  ac_PadB :: "byte list"
  ac_RelayOps :: relay_ops
  ac_EncTunnel :: "byte list"
  ac_PadC :: "byte list"
  ac_Crc32 :: u32

definition PacketAckBodyCcsds_Read :: "'s kaitai_rt \<Rightarrow> (packet_ack_body_ccsds, 's) reader" where
  "PacketAckBodyCcsds_Read k =
     rbind (ReadBytes k 1) (\<lambda>tmp66.
     rbind (rguard (tmp66 = [172]) (ValidationNotEqualBytes [172] tmp66 ''/types/packet_ack_body_ccsds/seq/0'')) (\<lambda>_.
     rbind (ReadBytes k 1) (\<lambda>tmp67.
     rbind (ReadU4le k) (\<lambda>tmp68.
     rbind (ReadU1 k) (\<lambda>tmp69.
     rbind (ReadBytes k 1) (\<lambda>tmp70.
     rbind (RelayOps_Read k) (\<lambda>tmp71.
     rbind (ReadBytes k 88) (\<lambda>tmp72.
     rbind (ReadBytes k 2) (\<lambda>tmp73.
     rbind (ReadU4le k) (\<lambda>tmp74.
       rret \<lparr>ac_Magic = tmp66, ac_PadA = tmp67, ac_TargetTxId = tmp68,
         ac_Status = uint tmp69, ac_PadB = tmp70, ac_RelayOps = tmp71,
         ac_EncTunnel = tmp72, ac_PadC = tmp73, ac_Crc32 = tmp74\<rparr>))))))))))"

definition decode_PacketAckBodyCcsds :: "byte list \<Rightarrow> packet_ack_body_ccsds" where
  "decode_PacketAckBodyCcsds bs = \<lparr>
     ac_Magic = seg bs 0 1,
     ac_PadA = seg bs 1 2,
     ac_TargetTxId = le_word (seg bs 2 6),
     ac_Status = uint (le_word (seg bs 6 7) :: byte),
     ac_PadB = seg bs 7 8,
     ac_RelayOps = decode_relay_ops (seg bs 8 20),
     ac_EncTunnel = seg bs 20 108,
     ac_PadC = seg bs 108 110,
     ac_Crc32 = le_word (seg bs 110 114)\<rparr>"

definition encode_PacketAckBodyCcsds :: "packet_ack_body_ccsds \<Rightarrow> byte list" where
  "encode_PacketAckBodyCcsds b =
     ac_Magic b @
     ac_PadA b @
     le_bytes 4 (ac_TargetTxId b) @
     le_bytes 1 (word_of_int (ac_Status b) :: byte) @
     ac_PadB b @
     encode_relay_ops (ac_RelayOps b) @
     ac_EncTunnel b @
     ac_PadC b @
     le_bytes 4 (ac_Crc32 b)"

definition fits_PacketAckBodyCcsds :: "packet_ack_body_ccsds \<Rightarrow> bool" where
  "fits_PacketAckBodyCcsds b \<longleftrightarrow>
     length (ac_Magic b) = 1 \<and>
     length (ac_PadA b) = 1 \<and>
     0 \<le> ac_Status b \<and>
     ac_Status b < 256 \<and>
     length (ac_PadB b) = 1 \<and>
     length (ac_EncTunnel b) = 88 \<and>
     length (ac_PadC b) = 2"

interpretation packet_ack_body_ccsds_layout: wire_layout encode_PacketAckBodyCcsds decode_PacketAckBodyCcsds 114 fits_PacketAckBodyCcsds
  by unfold_locales
    (simp_all add: encode_PacketAckBodyCcsds_def decode_PacketAckBodyCcsds_def fits_PacketAckBodyCcsds_def body_layout_simps)

section \<open>Packet ACK, SNLP tier (122 bytes)\<close>

record packet_ack_body_snlp =
  as_Magic :: "byte list"
  as_PadA :: "byte list"
  as_TargetTxId :: u32
  as_Status :: TigCommonTypes_SettlementStatus
  as_PadB :: "byte list"
  as_RelayOps :: relay_ops
  as_EncTunnel :: "byte list"
  as_PadC :: "byte list"
  as_Crc32 :: u32

definition PacketAckBodySnlp_Read :: "'s kaitai_rt \<Rightarrow> (packet_ack_body_snlp, 's) reader" where
  "PacketAckBodySnlp_Read k =
     rbind (ReadBytes k 1) (\<lambda>tmp75.
     rbind (rguard (tmp75 = [172]) (ValidationNotEqualBytes [172] tmp75 ''/types/packet_ack_body_snlp/seq/0'')) (\<lambda>_.
     rbind (ReadBytes k 1) (\<lambda>tmp76.
     rbind (ReadU4le k) (\<lambda>tmp77.
     rbind (ReadU1 k) (\<lambda>tmp78.
     rbind (ReadBytes k 1) (\<lambda>tmp79.
     rbind (RelayOps_Read k) (\<lambda>tmp80.
     rbind (ReadBytes k 96) (\<lambda>tmp81.
     rbind (ReadBytes k 2) (\<lambda>tmp82.
     rbind (ReadU4le k) (\<lambda>tmp83.
       rret \<lparr>as_Magic = tmp75, as_PadA = tmp76, as_TargetTxId = tmp77,
         as_Status = uint tmp78, as_PadB = tmp79, as_RelayOps = tmp80,
         as_EncTunnel = tmp81, as_PadC = tmp82, as_Crc32 = tmp83\<rparr>))))))))))"

definition decode_PacketAckBodySnlp :: "byte list \<Rightarrow> packet_ack_body_snlp" where
  "decode_PacketAckBodySnlp bs = \<lparr>
     as_Magic = seg bs 0 1,
     as_PadA = seg bs 1 2,
     as_TargetTxId = le_word (seg bs 2 6),
     as_Status = uint (le_word (seg bs 6 7) :: byte),
     as_PadB = seg bs 7 8,
     as_RelayOps = decode_relay_ops (seg bs 8 20),
     as_EncTunnel = seg bs 20 116,
     as_PadC = seg bs 116 118,
     as_Crc32 = le_word (seg bs 118 122)\<rparr>"

definition encode_PacketAckBodySnlp :: "packet_ack_body_snlp \<Rightarrow> byte list" where
  "encode_PacketAckBodySnlp b =
     as_Magic b @
     as_PadA b @
     le_bytes 4 (as_TargetTxId b) @
     le_bytes 1 (word_of_int (as_Status b) :: byte) @
     as_PadB b @
     encode_relay_ops (as_RelayOps b) @
     as_EncTunnel b @
     as_PadC b @
     le_bytes 4 (as_Crc32 b)"

definition fits_PacketAckBodySnlp :: "packet_ack_body_snlp \<Rightarrow> bool" where
  "fits_PacketAckBodySnlp b \<longleftrightarrow>
     length (as_Magic b) = 1 \<and>
     length (as_PadA b) = 1 \<and>
     0 \<le> as_Status b \<and>
     as_Status b < 256 \<and>
     length (as_PadB b) = 1 \<and>
     length (as_EncTunnel b) = 96 \<and>
     length (as_PadC b) = 2"

interpretation packet_ack_body_snlp_layout: wire_layout encode_PacketAckBodySnlp decode_PacketAckBodySnlp 122 fits_PacketAckBodySnlp
  by unfold_locales
    (simp_all add: encode_PacketAckBodySnlp_def decode_PacketAckBodySnlp_def fits_PacketAckBodySnlp_def body_layout_simps)

section \<open>Packet B, the payment (178 bytes)\<close>

record packet_b_body =
  pb_PadHead :: "byte list"
  pb_EpochTs :: u64
  pb_PosVec :: vector3d
  pb_EncPayload :: "byte list"
  pb_PreSat :: "byte list"
  pb_SatId :: u32
  pb_PreSig :: "byte list"
  pb_Signature :: ed25519_signature
  pb_GlobalCrc :: u32
  pb_TailPad :: "byte list"

definition PacketBBody_Read :: "'s kaitai_rt \<Rightarrow> (packet_b_body, 's) reader" where
  "PacketBBody_Read k =
     rbind (ReadBytes k 2) (\<lambda>tmp84.
     rbind (ReadU8le k) (\<lambda>tmp85.
     rbind (Vector3d_Read k) (\<lambda>tmp86.
     rbind (ReadBytes k 62) (\<lambda>tmp87.
     rbind (ReadBytes k 2) (\<lambda>tmp88.
     rbind (ReadU4le k) (\<lambda>tmp89.
     rbind (ReadBytes k 4) (\<lambda>tmp90.
     rbind (Ed25519Signature_Read k) (\<lambda>tmp91.
     rbind (ReadU4le k) (\<lambda>tmp92.
     rbind (ReadBytes k 4) (\<lambda>tmp93.
       rret \<lparr>pb_PadHead = tmp84, pb_EpochTs = tmp85, pb_PosVec = tmp86,
         pb_EncPayload = tmp87, pb_PreSat = tmp88, pb_SatId = tmp89, pb_PreSig = tmp90,
         pb_Signature = tmp91, pb_GlobalCrc = tmp92, pb_TailPad = tmp93\<rparr>))))))))))"

definition decode_PacketBBody :: "byte list \<Rightarrow> packet_b_body" where
  "decode_PacketBBody bs = \<lparr>
     pb_PadHead = seg bs 0 2,
     pb_EpochTs = le_word (seg bs 2 10),
     pb_PosVec = decode_vector3d (seg bs 10 34),
     pb_EncPayload = seg bs 34 96,
     pb_PreSat = seg bs 96 98,
     pb_SatId = le_word (seg bs 98 102),
     pb_PreSig = seg bs 102 106,
     pb_Signature = \<lparr>sig_Raw = seg bs 106 170\<rparr>,
     pb_GlobalCrc = le_word (seg bs 170 174),
     pb_TailPad = seg bs 174 178\<rparr>"

definition encode_PacketBBody :: "packet_b_body \<Rightarrow> byte list" where
  "encode_PacketBBody b =
     pb_PadHead b @
     le_bytes 8 (pb_EpochTs b) @
     encode_vector3d (pb_PosVec b) @
     pb_EncPayload b @
     pb_PreSat b @
     le_bytes 4 (pb_SatId b) @
     pb_PreSig b @
     sig_Raw (pb_Signature b) @
     le_bytes 4 (pb_GlobalCrc b) @
     pb_TailPad b"

definition fits_PacketBBody :: "packet_b_body \<Rightarrow> bool" where
  "fits_PacketBBody b \<longleftrightarrow>
     length (pb_PadHead b) = 2 \<and>
     length (pb_EncPayload b) = 62 \<and>
     length (pb_PreSat b) = 2 \<and>
     length (pb_PreSig b) = 4 \<and>
     length (sig_Raw (pb_Signature b)) = 64 \<and>
     length (pb_TailPad b) = 4"

interpretation packet_b_body_layout: wire_layout encode_PacketBBody decode_PacketBBody 178 fits_PacketBBody
  by unfold_locales
    (simp_all add: encode_PacketBBody_def decode_PacketBBody_def fits_PacketBBody_def body_layout_simps)

section \<open>Packet C, the receipt (98 bytes)\<close>

record packet_c_body =
  pc_PadHead :: "byte list"
  pc_ExecTime :: u64
  pc_EncTxId :: u64
  pc_EncStatus :: byte
  pc_PadSig :: "byte list"
  pc_Signature :: ed25519_signature
  pc_Crc32 :: u32
  pc_TailPad :: "byte list"

definition PacketCBody_Read :: "'s kaitai_rt \<Rightarrow> (packet_c_body, 's) reader" where
  "PacketCBody_Read k =
     rbind (ReadBytes k 2) (\<lambda>tmp94.
     rbind (ReadU8le k) (\<lambda>tmp95.
     rbind (ReadU8le k) (\<lambda>tmp96.
     rbind (ReadU1 k) (\<lambda>tmp97.
     rbind (ReadBytes k 7) (\<lambda>tmp98.
     rbind (Ed25519Signature_Read k) (\<lambda>tmp99.
     rbind (ReadU4le k) (\<lambda>tmp100.
     rbind (ReadBytes k 4) (\<lambda>tmp101.
       rret \<lparr>pc_PadHead = tmp94, pc_ExecTime = tmp95, pc_EncTxId = tmp96,
         pc_EncStatus = tmp97, pc_PadSig = tmp98, pc_Signature = tmp99, pc_Crc32 = tmp100,
         pc_TailPad = tmp101\<rparr>))))))))"

definition decode_PacketCBody :: "byte list \<Rightarrow> packet_c_body" where
  "decode_PacketCBody bs = \<lparr>
     pc_PadHead = seg bs 0 2,
     pc_ExecTime = le_word (seg bs 2 10),
     pc_EncTxId = le_word (seg bs 10 18),
     pc_EncStatus = le_word (seg bs 18 19),
     pc_PadSig = seg bs 19 26,
     pc_Signature = \<lparr>sig_Raw = seg bs 26 90\<rparr>,
     pc_Crc32 = le_word (seg bs 90 94),
     pc_TailPad = seg bs 94 98\<rparr>"

definition encode_PacketCBody :: "packet_c_body \<Rightarrow> byte list" where
  "encode_PacketCBody b =
     pc_PadHead b @
     le_bytes 8 (pc_ExecTime b) @
     le_bytes 8 (pc_EncTxId b) @
     le_bytes 1 (pc_EncStatus b) @
     pc_PadSig b @
     sig_Raw (pc_Signature b) @
     le_bytes 4 (pc_Crc32 b) @
     pc_TailPad b"

definition fits_PacketCBody :: "packet_c_body \<Rightarrow> bool" where
  "fits_PacketCBody b \<longleftrightarrow>
     length (pc_PadHead b) = 2 \<and>
     length (pc_PadSig b) = 7 \<and>
     length (sig_Raw (pc_Signature b)) = 64 \<and>
     length (pc_TailPad b) = 4"

interpretation packet_c_body_layout: wire_layout encode_PacketCBody decode_PacketCBody 98 fits_PacketCBody
  by unfold_locales
    (simp_all add: encode_PacketCBody_def decode_PacketCBody_def fits_PacketCBody_def body_layout_simps)

section \<open>Packet D, the delivery (122 bytes)\<close>

record packet_d_body =
  pd_Magic :: "byte list"
  pd_PadHead :: "byte list"
  pd_DownlinkTs :: u64
  pd_SatBId :: u32
  pd_Payload :: "byte list"
  pd_GlobalCrc :: u32
  pd_Tail :: "byte list"

definition PacketDBody_Read :: "'s kaitai_rt \<Rightarrow> (packet_d_body, 's) reader" where
  "PacketDBody_Read k =
     rbind (ReadBytes k 1) (\<lambda>tmp102.
     rbind (rguard (tmp102 = [208]) (ValidationNotEqualBytes [208] tmp102 ''/types/packet_d_body/seq/0'')) (\<lambda>_.
     rbind (ReadBytes k 1) (\<lambda>tmp103.
     rbind (ReadU8le k) (\<lambda>tmp104.
     rbind (ReadU4le k) (\<lambda>tmp105.
     rbind (ReadBytes k 98) (\<lambda>tmp106.
     rbind (ReadU4le k) (\<lambda>tmp107.
     rbind (ReadBytes k 6) (\<lambda>tmp108.
       rret \<lparr>pd_Magic = tmp102, pd_PadHead = tmp103, pd_DownlinkTs = tmp104,
         pd_SatBId = tmp105, pd_Payload = tmp106, pd_GlobalCrc = tmp107, pd_Tail = tmp108\<rparr>))))))))"

definition decode_PacketDBody :: "byte list \<Rightarrow> packet_d_body" where
  "decode_PacketDBody bs = \<lparr>
     pd_Magic = seg bs 0 1,
     pd_PadHead = seg bs 1 2,
     pd_DownlinkTs = le_word (seg bs 2 10),
     pd_SatBId = le_word (seg bs 10 14),
     pd_Payload = seg bs 14 112,
     pd_GlobalCrc = le_word (seg bs 112 116),
     pd_Tail = seg bs 116 122\<rparr>"

definition encode_PacketDBody :: "packet_d_body \<Rightarrow> byte list" where
  "encode_PacketDBody b =
     pd_Magic b @
     pd_PadHead b @
     le_bytes 8 (pd_DownlinkTs b) @
     le_bytes 4 (pd_SatBId b) @
     pd_Payload b @
     le_bytes 4 (pd_GlobalCrc b) @
     pd_Tail b"

definition fits_PacketDBody :: "packet_d_body \<Rightarrow> bool" where
  "fits_PacketDBody b \<longleftrightarrow>
     length (pd_Magic b) = 1 \<and>
     length (pd_PadHead b) = 1 \<and>
     length (pd_Payload b) = 98 \<and>
     length (pd_Tail b) = 6"

interpretation packet_d_body_layout: wire_layout encode_PacketDBody decode_PacketDBody 122 fits_PacketDBody
  by unfold_locales
    (simp_all add: encode_PacketDBody_def decode_PacketDBody_def fits_PacketDBody_def body_layout_simps)

section \<open>Packet H, the handshake (106 bytes)\<close>

record packet_h_body =
  ph_SessionTtl :: u16
  ph_Timestamp :: u64
  ph_EphPubKey :: x25519_public_key
  ph_Signature :: ed25519_signature

definition PacketHBody_Read :: "'s kaitai_rt \<Rightarrow> (packet_h_body, 's) reader" where
  "PacketHBody_Read k =
     rbind (ReadU2le k) (\<lambda>tmp109.
     rbind (ReadU8le k) (\<lambda>tmp110.
     rbind (X25519PublicKey_Read k) (\<lambda>tmp111.
     rbind (Ed25519Signature_Read k) (\<lambda>tmp112.
       rret \<lparr>ph_SessionTtl = tmp109, ph_Timestamp = tmp110, ph_EphPubKey = tmp111,
         ph_Signature = tmp112\<rparr>))))"

definition decode_PacketHBody :: "byte list \<Rightarrow> packet_h_body" where
  "decode_PacketHBody bs = \<lparr>
     ph_SessionTtl = le_word (seg bs 0 2),
     ph_Timestamp = le_word (seg bs 2 10),
     ph_EphPubKey = \<lparr>key_Raw = seg bs 10 42\<rparr>,
     ph_Signature = \<lparr>sig_Raw = seg bs 42 106\<rparr>\<rparr>"

definition encode_PacketHBody :: "packet_h_body \<Rightarrow> byte list" where
  "encode_PacketHBody b =
     le_bytes 2 (ph_SessionTtl b) @
     le_bytes 8 (ph_Timestamp b) @
     key_Raw (ph_EphPubKey b) @
     sig_Raw (ph_Signature b)"

definition fits_PacketHBody :: "packet_h_body \<Rightarrow> bool" where
  "fits_PacketHBody b \<longleftrightarrow>
     length (key_Raw (ph_EphPubKey b)) = 32 \<and>
     length (sig_Raw (ph_Signature b)) = 64"

interpretation packet_h_body_layout: wire_layout encode_PacketHBody decode_PacketHBody 106 fits_PacketHBody
  by unfold_locales
    (simp_all add: encode_PacketHBody_def decode_PacketHBody_def fits_PacketHBody_def body_layout_simps)

section \<open>Every body reader follows its layout\<close>

context kaitai_stream
begin

lemma reads_HeartbeatBody: "reads view (HeartbeatBody_Read k) 34 (\<lambda>bs. Some (decode_HeartbeatBody bs))"
  unfolding HeartbeatBody_Read_def
  by (rule reads_cong, (rule reads_field_rules | simp)+)
    (simp_all add: decode_HeartbeatBody_def seg_def numeral_2_eq_2)

lemma reads_PacketABody: "reads view (PacketABody_Read k) 66 (\<lambda>bs. Some (decode_PacketABody bs))"
  unfolding PacketABody_Read_def
  by (rule reads_cong, (rule reads_field_rules | simp)+)
    (simp_all add: decode_PacketABody_def seg_def numeral_2_eq_2)

lemma reads_PacketAckBodyCcsds:
  "reads view (PacketAckBodyCcsds_Read k) 114
     (\<lambda>bs. if take 1 bs = [172] then Some (decode_PacketAckBodyCcsds bs) else None)"
  unfolding PacketAckBodyCcsds_Read_def
  by (rule reads_cong, (rule reads_field_rules | simp)+)
    (simp_all add: decode_PacketAckBodyCcsds_def seg_def numeral_2_eq_2)

lemma reads_PacketAckBodySnlp:
  "reads view (PacketAckBodySnlp_Read k) 122
     (\<lambda>bs. if take 1 bs = [172] then Some (decode_PacketAckBodySnlp bs) else None)"
  unfolding PacketAckBodySnlp_Read_def
  by (rule reads_cong, (rule reads_field_rules | simp)+)
    (simp_all add: decode_PacketAckBodySnlp_def seg_def numeral_2_eq_2)

lemma reads_PacketBBody: "reads view (PacketBBody_Read k) 178 (\<lambda>bs. Some (decode_PacketBBody bs))"
  unfolding PacketBBody_Read_def
  by (rule reads_cong, (rule reads_field_rules | simp)+)
    (simp_all add: decode_PacketBBody_def seg_def numeral_2_eq_2)

lemma reads_PacketCBody: "reads view (PacketCBody_Read k) 98 (\<lambda>bs. Some (decode_PacketCBody bs))"
  unfolding PacketCBody_Read_def
  by (rule reads_cong, (rule reads_field_rules | simp)+)
    (simp_all add: decode_PacketCBody_def seg_def numeral_2_eq_2)

lemma reads_PacketDBody:
  "reads view (PacketDBody_Read k) 122
     (\<lambda>bs. if take 1 bs = [208] then Some (decode_PacketDBody bs) else None)"
  unfolding PacketDBody_Read_def
  by (rule reads_cong, (rule reads_field_rules | simp)+)
    (simp_all add: decode_PacketDBody_def seg_def numeral_2_eq_2)

lemma reads_PacketHBody: "reads view (PacketHBody_Read k) 106 (\<lambda>bs. Some (decode_PacketHBody bs))"
  unfolding PacketHBody_Read_def
  by (rule reads_cong, (rule reads_field_rules | simp)+)
    (simp_all add: decode_PacketHBody_def seg_def numeral_2_eq_2)

end

end
