(* ===== verification/Void_Protocol.thy ===== *)
theory Void_Protocol
  imports Snlp_Header Packet_Bodies
begin

text \<open>
  The root parser of \<^verbatim>\<open>protocol/void_protocol.go\<close>: tier selection by peeking at the first four
  bytes, the routing header, dispatch on the body length the header announces, and the collision
  resolver for 122-byte bodies.  The parser object and the stream are threaded as one state, so
  that the memo flags of the object are part of the model.
\<close>

section \<open>The collision resolver for 122-byte bodies\<close>

datatype dispatch_content =
    PacketAckBodySnlp packet_ack_body_snlp
  | PacketDBody packet_d_body

record dispatch122 =
  Content :: "dispatch_content option"
  f_magicPeek8 :: bool
  m_magicPeek8 :: byte

definition NewDispatch122 :: dispatch122 where
  "NewDispatch122 = \<lparr>Content = None, f_magicPeek8 = False, m_magicPeek8 = 0\<rparr>"

text \<open>A reader on the stream, run with the parser object beside it.\<close>

definition on_stream :: "('a, 's) reader \<Rightarrow> ('a, 'o \<times> 's) reader" where
  "on_stream f = (\<lambda>(this, s). bind_ok (f s) (\<lambda>(v, s'). Ok (v, (this, s'))))"

definition get_this :: "('o, 'o \<times> 's) reader" where
  "get_this = (\<lambda>(this, s). Ok (this, (this, s)))"

definition put_this :: "'o \<Rightarrow> (unit, 'o \<times> 's) reader" where
  "put_this this' = (\<lambda>(this, s). Ok ((), (this', s)))"

definition Dispatch122_MagicPeek :: "'s kaitai_rt \<Rightarrow> (byte, dispatch122 \<times> 's) reader" where
  "Dispatch122_MagicPeek k =
     rbind get_this (\<lambda>this.
       if f_magicPeek8 this then rret (m_magicPeek8 this)
       else rbind (put_this (this\<lparr>f_magicPeek8 := True\<rparr>)) (\<lambda>_.
            rbind (on_stream (rpeek k (ReadU1 k))) (\<lambda>tmp45.
            rbind (put_this (this\<lparr>f_magicPeek8 := True, m_magicPeek8 := tmp45\<rparr>)) (\<lambda>_.
            rret tmp45))))"

definition Dispatch122_body :: "'s kaitai_rt \<Rightarrow> (unit, dispatch122 \<times> 's) reader" where
  "Dispatch122_body k =
     rbind (Dispatch122_MagicPeek k) (\<lambda>tmp42.
       if tmp42 = 172 then
         rbind (on_stream (PacketAckBodySnlp_Read k)) (\<lambda>tmp43.
         rbind get_this (\<lambda>this. put_this (this\<lparr>Content := Some (PacketAckBodySnlp tmp43)\<rparr>)))
       else if tmp42 = 208 then
         rbind (on_stream (PacketDBody_Read k)) (\<lambda>tmp44.
         rbind get_this (\<lambda>this. put_this (this\<lparr>Content := Some (PacketDBody tmp44)\<rparr>)))
       else rret ())"

definition Dispatch122_Read :: "'s kaitai_rt \<Rightarrow> (dispatch122, 's) reader" where
  "Dispatch122_Read k s =
     bind_ok (Dispatch122_body k (NewDispatch122, s)) (\<lambda>(_, (this, s')). Ok (this, s'))"

section \<open>The parser object\<close>

datatype routing_header =
    NoHeader
  | CcsdsHeader ccsds_primary_header
  | SnlpHeader snlp_header

datatype void_body =
    NilBody
  | HeartbeatBody heartbeat_body
  | PacketABody packet_a_body
  | PacketAckBodyCcsds packet_ack_body_ccsds
  | PacketBBody packet_b_body
  | PacketCBody packet_c_body
  | PacketHBody packet_h_body
  | Dispatch122 dispatch122

record void_protocol =
  RoutingHeader :: routing_header
  Body :: void_body
  raw_Body :: "byte list"
  f_bodyLength :: bool
  m_bodyLength :: int
  f_globalApid :: bool
  m_globalApid :: int
  f_globalPacketType :: bool
  m_globalPacketType :: int
  f_isSnlp :: bool
  m_isSnlp :: bool
  f_magicPeek :: bool
  m_magicPeek :: u32

definition NewVoidProtocol :: void_protocol where
  "NewVoidProtocol = \<lparr>RoutingHeader = NoHeader, Body = NilBody, raw_Body = [],
     f_bodyLength = False, m_bodyLength = 0, f_globalApid = False, m_globalApid = 0,
     f_globalPacketType = False, m_globalPacketType = 0, f_isSnlp = False, m_isSnlp = False,
     f_magicPeek = False, m_magicPeek = 0\<rparr>"

type_synonym ('a, 's) parser_method = "('a, void_protocol \<times> 's) reader"

definition rpanic :: "('a, 's) reader" where
  "rpanic s = Panic"

definition MagicPeek :: "'s kaitai_rt \<Rightarrow> (u32, 's) parser_method" where
  "MagicPeek k =
     rbind get_this (\<lambda>this.
       if f_magicPeek this then rret (m_magicPeek this)
       else rbind (put_this (this\<lparr>f_magicPeek := True\<rparr>)) (\<lambda>_.
            rbind (on_stream (rpeek k (ReadU4be k))) (\<lambda>tmp41.
            rbind get_this (\<lambda>this'.
            rbind (put_this (this'\<lparr>m_magicPeek := tmp41\<rparr>)) (\<lambda>_. rret tmp41)))))"

definition IsSnlp :: "'s kaitai_rt \<Rightarrow> (bool, 's) parser_method" where
  "IsSnlp k =
     rbind get_this (\<lambda>this.
       if f_isSnlp this then rret (m_isSnlp this)
       else rbind (put_this (this\<lparr>f_isSnlp := True\<rparr>)) (\<lambda>_.
            rbind (MagicPeek k) (\<lambda>tmp40.
            rbind get_this (\<lambda>this'.
            rbind (put_this (this'\<lparr>m_isSnlp := (tmp40 = 486647205)\<rparr>)) (\<lambda>_. rret (tmp40 = 486647205))))))"

text \<open>
  \<^verbatim>\<open>this.RoutingHeader.(*SnlpHeader).Ccsds.F()\<close> on the SNLP branch and
  \<^verbatim>\<open>this.RoutingHeader.(*CcsdsPrimaryHeader).F()\<close> on the other: the type assertion panics on the
  wrong header, and the accessor updates the memo inside the header it is called on.
\<close>

definition header_call ::
    "bool \<Rightarrow> (ccsds_primary_header \<Rightarrow> int \<times> ccsds_primary_header) \<Rightarrow> (int, 's) parser_method" where
  "header_call snlp acc =
     rbind get_this (\<lambda>this.
       case (snlp, RoutingHeader this) of
         (True, SnlpHeader h) \<Rightarrow>
           (let (v, c) = acc (Ccsds h) in
            rbind (put_this (this\<lparr>RoutingHeader := SnlpHeader (h\<lparr>Ccsds := c\<rparr>)\<rparr>)) (\<lambda>_. rret v))
       | (False, CcsdsHeader h) \<Rightarrow>
           (let (v, c) = acc h in
            rbind (put_this (this\<lparr>RoutingHeader := CcsdsHeader c\<rparr>)) (\<lambda>_. rret v))
       | _ \<Rightarrow> rpanic)"

definition BodyLength :: "'s kaitai_rt \<Rightarrow> (int, 's) parser_method" where
  "BodyLength k =
     rbind get_this (\<lambda>this.
       if f_bodyLength this then rret (m_bodyLength this)
       else rbind (put_this (this\<lparr>f_bodyLength := True\<rparr>)) (\<lambda>_.
            rbind (IsSnlp k) (\<lambda>tmp29.
            rbind (header_call tmp29 DataFieldLength) (\<lambda>tmp28.
            rbind get_this (\<lambda>this'.
            rbind (put_this (this'\<lparr>m_bodyLength := tmp28\<rparr>)) (\<lambda>_. rret tmp28))))))"

definition GlobalApid :: "'s kaitai_rt \<Rightarrow> (int, 's) parser_method" where
  "GlobalApid k =
     rbind get_this (\<lambda>this.
       if f_globalApid this then rret (m_globalApid this)
       else rbind (put_this (this\<lparr>f_globalApid := True\<rparr>)) (\<lambda>_.
            rbind (IsSnlp k) (\<lambda>tmp33.
            rbind (header_call tmp33 Apid) (\<lambda>tmp32.
            rbind get_this (\<lambda>this'.
            rbind (put_this (this'\<lparr>m_globalApid := tmp32\<rparr>)) (\<lambda>_. rret tmp32))))))"

definition GlobalPacketType :: "'s kaitai_rt \<Rightarrow> (int, 's) parser_method" where
  "GlobalPacketType k =
     rbind get_this (\<lambda>this.
       if f_globalPacketType this then rret (m_globalPacketType this)
       else rbind (put_this (this\<lparr>f_globalPacketType := True\<rparr>)) (\<lambda>_.
            rbind (IsSnlp k) (\<lambda>tmp37.
            rbind (header_call tmp37 PacketType) (\<lambda>tmp36.
            rbind get_this (\<lambda>this'.
            rbind (put_this (this'\<lparr>m_globalPacketType := tmp36\<rparr>)) (\<lambda>_. rret tmp36))))))"

text \<open>
  One case of the body switch: read the announced number of bytes, open a sub-stream on them and
  let the body type's \<^verbatim>\<open>Read\<close> fill the body.
\<close>

definition read_raw_body :: "'s kaitai_rt \<Rightarrow> (byte list, 's) parser_method" where
  "read_raw_body k =
     rbind (BodyLength k) (\<lambda>len.
     rbind (on_stream (ReadBytes k len)) (\<lambda>raw.
     rbind get_this (\<lambda>this.
     rbind (put_this (this\<lparr>raw_Body := raw\<rparr>)) (\<lambda>_. rret raw))))"

definition read_body_as ::
    "'s kaitai_rt \<Rightarrow> ('b, 's) reader \<Rightarrow> ('b \<Rightarrow> void_body) \<Rightarrow> (unit, 's) parser_method" where
  "read_body_as k rd con =
     rbind (read_raw_body k) (\<lambda>raw st.
       bind_ok (rd (NewStream k raw)) (\<lambda>(b, _).
         rbind get_this (\<lambda>this. put_this (this\<lparr>Body := con b\<rparr>)) st))"

definition read_routing_header :: "'s kaitai_rt \<Rightarrow> bool \<Rightarrow> (unit, 's) parser_method" where
  "read_routing_header k snlp =
     (if snlp
      then rbind (on_stream (SnlpHeader_Read k)) (\<lambda>tmp3.
           rbind get_this (\<lambda>this. put_this (this\<lparr>RoutingHeader := SnlpHeader tmp3\<rparr>)))
      else rbind (on_stream (CcsdsPrimaryHeader_Read k)) (\<lambda>tmp2.
           rbind get_this (\<lambda>this. put_this (this\<lparr>RoutingHeader := CcsdsHeader tmp2\<rparr>))))"

definition read_body :: "'s kaitai_rt \<Rightarrow> int \<Rightarrow> (unit, 's) parser_method" where
  "read_body k len =
     (if len = 106 then read_body_as k (PacketHBody_Read k) PacketHBody
      else if len = 114 then read_body_as k (PacketAckBodyCcsds_Read k) PacketAckBodyCcsds
      else if len = 122 then read_body_as k (Dispatch122_Read k) Dispatch122
      else if len = 178 then read_body_as k (PacketBBody_Read k) PacketBBody
      else if len = 34 then read_body_as k (HeartbeatBody_Read k) HeartbeatBody
      else if len = 66 then read_body_as k (PacketABody_Read k) PacketABody
      else if len = 98 then read_body_as k (PacketCBody_Read k) PacketCBody
      else rbind (read_raw_body k) (\<lambda>_. rret ()))"

definition VoidProtocol_Read :: "'s kaitai_rt \<Rightarrow> (unit, 's) parser_method" where
  "VoidProtocol_Read k =
     rbind (IsSnlp k) (\<lambda>tmp1.
     rbind (read_routing_header k tmp1) (\<lambda>_.
     rbind (BodyLength k) (\<lambda>tmp4. read_body k tmp4)))"

text \<open>\<^verbatim>\<open>packet := NewVoidProtocol(); packet.Read(kaitai.NewStream(bytes.NewReader(raw)), nil, packet)\<close>\<close>

definition parse_frame :: "'s kaitai_rt \<Rightarrow> byte list \<Rightarrow> (parse_error, void_protocol \<times> 's) outcome" where
  "parse_frame k raw =
     bind_ok (VoidProtocol_Read k (NewVoidProtocol, NewStream k raw)) (\<lambda>(_, st). Ok st)"

section \<open>What a frame means\<close>

text \<open>
  The abstract reading of a frame, on the byte string alone: the tier and the CCSDS header, and the
  body its length selects.  An error of the parser is \<^verbatim>\<open>None\<close>.
\<close>

definition frame_header :: "byte list \<Rightarrow> (bool \<times> ccsds_primary_header) option" where
  "frame_header raw =
     (if length raw < 4 then None
      else if be_word (take 4 raw) = (486647205 :: u32) then
        (if 14 \<le> length raw \<and> be_word (seg raw 10 14) = (0 :: u32)
         then Some (True, decode_ccsds (seg raw 4 10)) else None)
      else if 6 \<le> length raw then Some (False, decode_ccsds (seg raw 0 6)) else None)"

definition decode_dispatch :: "byte list \<Rightarrow> dispatch122" where
  "decode_dispatch bs =
     (let m = le_word (take 1 bs) in
      \<lparr>Content = (if m = 172 then Some (PacketAckBodySnlp (decode_PacketAckBodySnlp bs))
                  else if m = 208 then Some (PacketDBody (decode_PacketDBody bs)) else None),
       f_magicPeek8 = True, m_magicPeek8 = m\<rparr>)"

definition decode_body :: "nat \<Rightarrow> byte list \<Rightarrow> void_body option" where
  "decode_body n bs =
     (if n = 106 then Some (PacketHBody (decode_PacketHBody bs))
      else if n = 114 then
        (if take 1 bs = [172] then Some (PacketAckBodyCcsds (decode_PacketAckBodyCcsds bs)) else None)
      else if n = 122 then Some (Dispatch122 (decode_dispatch bs))
      else if n = 178 then Some (PacketBBody (decode_PacketBBody bs))
      else if n = 34 then Some (HeartbeatBody (decode_HeartbeatBody bs))
      else if n = 66 then Some (PacketABody (decode_PacketABody bs))
      else if n = 98 then Some (PacketCBody (decode_PacketCBody bs))
      else Some NilBody)"

definition header_len :: "bool \<Rightarrow> nat" where
  "header_len snlp = (if snlp then 14 else 6)"

definition body_len :: "ccsds_primary_header \<Rightarrow> nat" where
  "body_len c = unat (PacketDataLength c + 1)"

definition decode_frame ::
    "byte list \<Rightarrow> (bool \<times> ccsds_primary_header \<times> byte list \<times> void_body) option" where
  "decode_frame raw =
     (case frame_header raw of None \<Rightarrow> None
      | Some (snlp, c) \<Rightarrow>
          (let lo = header_len snlp; hi = lo + body_len c in
           if length raw < hi then None
           else map_option (\<lambda>b. (snlp, c, seg raw lo hi, b)) (decode_body (body_len c) (seg raw lo hi))))"

text \<open>The parser object after a successful parse, memo fields included.\<close>

definition header_object :: "bool \<Rightarrow> ccsds_primary_header \<Rightarrow> routing_header" where
  "header_object snlp c =
     (if snlp then SnlpHeader \<lparr>SyncWord = [29, 1, 165, 165], Ccsds = c, AlignPad = 0\<rparr> else CcsdsHeader c)"

definition parsed_object ::
    "u32 \<Rightarrow> ccsds_primary_header \<Rightarrow> byte list \<Rightarrow> void_body \<Rightarrow> void_protocol" where
  "parsed_object m c bs b = \<lparr>RoutingHeader = header_object (m = 486647205) (snd (DataFieldLength c)),
     Body = b, raw_Body = bs, f_bodyLength = True, m_bodyLength = int (body_len c),
     f_globalApid = False, m_globalApid = 0, f_globalPacketType = False, m_globalPacketType = 0,
     f_isSnlp = True, m_isSnlp = (m = 486647205), f_magicPeek = True, m_magicPeek = m\<rparr>"

section \<open>The parser implements it\<close>

text \<open>A body reader on a fresh sub-stream: it fills the body from the whole of it, or fails.\<close>

definition fills :: "('s \<Rightarrow> byte list \<times> nat) \<Rightarrow> ('a, 's) reader \<Rightarrow> nat \<Rightarrow> (byte list \<Rightarrow> 'a option) \<Rightarrow> bool" where
  "fills view rd n dec \<longleftrightarrow> (\<forall>s bs. view s = (bs, 0) \<longrightarrow> length bs = n \<longrightarrow>
     (case dec bs of Some b \<Rightarrow> \<exists>s'. rd s = Ok (b, s') | None \<Rightarrow> \<exists>e. rd s = Err e))"

lemma sync_word_bytes: "length bs = 4 \<Longrightarrow> be_word bs = (486647205 :: u32) \<longleftrightarrow> bs = [29, 1, 165, 165]"
proof -
  assume len: "length bs = 4"
  have w: "be_word [29, 1, 165, 165] = (486647205 :: u32)"
    by (simp add: be_word_def)
  have inv: "be_bytes 4 (be_word cs :: u32) = cs" if "length cs = 4" for cs
    using that by (simp add: be_bytes_be_word)
  show ?thesis
    using inv [OF len] inv [of "[29, 1, 165, 165]"] w by auto
qed

lemmas method_simps = rbind_def rret_def get_this_def put_this_def on_stream_def

lemma decode_snlp_header:
  "14 \<le> length raw \<Longrightarrow> decode_snlp (seg raw 0 14) =
     (if be_word (take 4 raw) = (486647205 :: u32) \<and> be_word (seg raw 10 14) = (0 :: u32)
      then Some \<lparr>SyncWord = [29, 1, 165, 165], Ccsds = decode_ccsds (seg raw 4 10), AlignPad = 0\<rparr>
      else None)"
  by (auto simp: decode_snlp_def sync_word_bytes seg_zero seg_take take_take)

lemma DataFieldLength_fresh:
  "fst (DataFieldLength (decode_ccsds bs)) = int (body_len (decode_ccsds bs))"
  using data_length.acc_value [OF memo_ok_decode_ccsds, of bs]
  by (simp add: body_len_def wire_words_def)

lemma IsSnlp_cached: "f_isSnlp this \<Longrightarrow> IsSnlp k (this, s) = Ok (m_isSnlp this, (this, s))"
  by (simp add: IsSnlp_def method_simps)

lemma BodyLength_cached: "f_bodyLength this \<Longrightarrow> BodyLength k (this, s) = Ok (m_bodyLength this, (this, s))"
  by (simp add: BodyLength_def method_simps)

lemma header_call_object:
  "RoutingHeader this = header_object snlp c \<Longrightarrow>
     header_call snlp acc (this, s)
       = Ok (fst (acc c), (this\<lparr>RoutingHeader := header_object snlp (snd (acc c))\<rparr>, s))"
  by (cases snlp) (simp_all add: header_call_def header_object_def method_simps split_beta)

lemma BodyLength_fresh:
  assumes "\<not> f_bodyLength this" and "f_isSnlp this"
    and "RoutingHeader this = header_object (m_isSnlp this) c"
  shows "BodyLength k (this, s) = Ok (fst (DataFieldLength c),
    (this\<lparr>f_bodyLength := True, RoutingHeader := header_object (m_isSnlp this) (snd (DataFieldLength c)),
      m_bodyLength := fst (DataFieldLength c)\<rparr>, s))"
  using assms
  by (simp add: BodyLength_def method_simps IsSnlp_cached header_call_object)

context kaitai_stream
begin

lemma IsSnlp_fresh:
  assumes "\<not> f_isSnlp this" "\<not> f_magicPeek this" "view s = (raw, p)" "p \<le> length raw" "4 \<le> length raw"
  shows "\<exists>s'. IsSnlp k (this, s) = Ok (be_word (take 4 raw) = (486647205 :: u32),
      (this\<lparr>f_isSnlp := True, f_magicPeek := True, m_magicPeek := be_word (take 4 raw),
        m_isSnlp := (be_word (take 4 raw) = (486647205 :: u32))\<rparr>, s')) \<and> view s' = (raw, p)"
proof -
  obtain s' where "rpeek k (ReadU4be k) s = Ok (be_word (take 4 raw), s')" "view s' = (raw, p)"
    using rpeek_Ok [OF reads_ReadU4be assms(3,4,5)] by auto
  with assms(1,2) show ?thesis
    by (simp add: IsSnlp_def MagicPeek_def method_simps)
qed

lemma IsSnlp_short:
  assumes "\<not> f_isSnlp this" "\<not> f_magicPeek this" "view s = (raw, p)" "length raw < 4"
  shows "\<exists>e. IsSnlp k (this, s) = Err e"
proof -
  obtain e where "rpeek k (ReadU4be k) s = Err e"
    using rpeek_Err [OF reads_ReadU4be assms(3,4)] by auto
  with assms(1,2) show ?thesis
    by (simp add: IsSnlp_def MagicPeek_def method_simps)
qed

lemma read_snlp_routing_header:
  assumes v: "view s = (raw, 0)" and len: "4 \<le> length raw" and snlp: "be_word (take 4 raw) = (486647205 :: u32)"
  shows "case frame_header raw of
      Some (t, c) \<Rightarrow> t \<and> (\<exists>s'. read_routing_header k True (this, s)
           = Ok ((), (this\<lparr>RoutingHeader := header_object True c\<rparr>, s')) \<and> view s' = (raw, header_len True))
    | None \<Rightarrow> \<exists>e. read_routing_header k True (this, s) = Err e"
proof (cases "14 \<le> length raw \<and> be_word (seg raw 10 14) = (0 :: u32)")
  case True
  then have "decode_snlp (seg raw 0 (0 + 14))
      = Some \<lparr>SyncWord = [29, 1, 165, 165], Ccsds = decode_ccsds (seg raw 4 10), AlignPad = 0\<rparr>"
    using snlp decode_snlp_header [of raw] by simp
  then obtain s' where "SnlpHeader_Read k s = Ok (\<lparr>SyncWord = [29, 1, 165, 165],
      Ccsds = decode_ccsds (seg raw 4 10), AlignPad = 0\<rparr>, s')" "view s' = (raw, 14)"
    using reads_Ok [OF reads_SnlpHeader v] True by auto
  with True snlp len show ?thesis
    by (auto simp: frame_header_def read_routing_header_def method_simps header_object_def header_len_def)
next
  case False
  then have "\<exists>e. SnlpHeader_Read k s = Err e"
    using reads_Err_short [OF reads_SnlpHeader v] reads_Err [OF reads_SnlpHeader v] snlp decode_snlp_header [of raw]
    by (cases "14 \<le> length raw") simp_all
  with False snlp len show ?thesis
    by (auto simp: frame_header_def read_routing_header_def method_simps)
qed

lemma read_ccsds_routing_header:
  assumes v: "view s = (raw, 0)" and len: "4 \<le> length raw" and ccsds: "be_word (take 4 raw) \<noteq> (486647205 :: u32)"
  shows "case frame_header raw of
      Some (t, c) \<Rightarrow> \<not> t \<and> (\<exists>s'. read_routing_header k False (this, s)
           = Ok ((), (this\<lparr>RoutingHeader := header_object False c\<rparr>, s')) \<and> view s' = (raw, header_len False))
    | None \<Rightarrow> \<exists>e. read_routing_header k False (this, s) = Err e"
proof (cases "6 \<le> length raw")
  case True
  then obtain s' where "CcsdsPrimaryHeader_Read k s = Ok (decode_ccsds (seg raw 0 6), s')" "view s' = (raw, 6)"
    using reads_Ok [OF reads_CcsdsPrimaryHeader v] by auto
  with True ccsds len show ?thesis
    by (auto simp: frame_header_def read_routing_header_def method_simps header_object_def header_len_def)
next
  case False
  then have "\<exists>e. CcsdsPrimaryHeader_Read k s = Err e"
    using reads_Err_short [OF reads_CcsdsPrimaryHeader v] by simp
  with False ccsds len show ?thesis
    by (auto simp: frame_header_def read_routing_header_def method_simps)
qed

lemma read_routing_header_spec:
  fixes raw :: "byte list"
  defines "m \<equiv> (be_word (take 4 raw) :: u32)"
  assumes v: "view s = (raw, 0)" and len: "4 \<le> length raw"
  shows "case frame_header raw of
      Some (snlp, c) \<Rightarrow> snlp = (m = 486647205) \<and>
        (\<exists>s'. read_routing_header k (m = 486647205) (this, s)
           = Ok ((), (this\<lparr>RoutingHeader := header_object snlp c\<rparr>, s')) \<and> view s' = (raw, header_len snlp))
    | None \<Rightarrow> \<exists>e. read_routing_header k (m = 486647205) (this, s) = Err e"
proof (cases "m = 486647205")
  case True
  from read_snlp_routing_header [OF v len True [unfolded m_def], of this] True show ?thesis
    by (auto split: option.splits)
next
  case False
  from read_ccsds_routing_header [OF v len False [unfolded m_def], of this] False show ?thesis
    by (auto split: option.splits)
qed

lemma read_raw_body_Ok:
  assumes "f_bodyLength this" "m_bodyLength this = int n" "view s = (raw, p)" "p + n \<le> length raw"
  shows "\<exists>s'. read_raw_body k (this, s)
      = Ok (seg raw p (p + n), (this\<lparr>raw_Body := seg raw p (p + n)\<rparr>, s')) \<and> view s' = (raw, p + n)"
proof -
  obtain s' where "ReadBytes k (int n) s = Ok (seg raw p (p + n), s')" "view s' = (raw, p + n)"
    using reads_Ok [OF reads_ReadBytes [of "int n"] assms(3)] assms(4) by auto
  with assms(1,2) show ?thesis
    by (simp add: read_raw_body_def method_simps BodyLength_cached)
qed

lemma read_raw_body_short:
  assumes "f_bodyLength this" "m_bodyLength this = int n" "view s = (raw, p)" "p \<le> length raw"
    "length raw < p + n"
  shows "\<exists>e. read_raw_body k (this, s) = Err e"
proof -
  obtain e where "ReadBytes k (int n) s = Err e"
    using reads_Err_short [OF reads_ReadBytes [of "int n"] assms(3,4)] assms(5) by auto
  with assms(1,2) show ?thesis
    by (simp add: read_raw_body_def method_simps BodyLength_cached)
qed

lemma reads_fills: "reads view f n dec \<Longrightarrow> fills view f n dec"
  unfolding fills_def
proof (intro allI impI)
  fix s bs
  assume f: "reads view f n dec" and v: "view s = (bs, 0)" and len: "length bs = n"
  then show "case dec bs of Some b \<Rightarrow> \<exists>s'. f s = Ok (b, s') | None \<Rightarrow> \<exists>e. f s = Err e"
    using reads_Ok [OF f v] reads_Err [OF f v] by (cases "dec bs") (auto simp: seg_all)
qed

lemma read_body_as_spec:
  assumes rd: "fills view rd n' dec" and n: "n = n'"
    and obj: "f_bodyLength this" "m_bodyLength this = int n"
    and v: "view s = (raw, p)" and len: "p + n \<le> length raw"
  shows "case dec (seg raw p (p + n)) of
      Some b \<Rightarrow> \<exists>s'. read_body_as k rd con (this, s)
        = Ok ((), (this\<lparr>raw_Body := seg raw p (p + n), Body := con b\<rparr>, s')) \<and> view s' = (raw, p + n)
    | None \<Rightarrow> \<exists>e. read_body_as k rd con (this, s) = Err e"
proof -
  obtain s' where s': "read_raw_body k (this, s)
      = Ok (seg raw p (p + n), (this\<lparr>raw_Body := seg raw p (p + n)\<rparr>, s'))" "view s' = (raw, p + n)"
    using read_raw_body_Ok [OF obj v len] by blast
  have "case dec (seg raw p (p + n)) of
      Some b \<Rightarrow> \<exists>s'. rd (NewStream k (seg raw p (p + n))) = Ok (b, s')
    | None \<Rightarrow> \<exists>e. rd (NewStream k (seg raw p (p + n))) = Err e"
    using rd n view_NewStream [of "seg raw p (p + n)"] len unfolding fills_def by simp
  with s' show ?thesis
    by (cases "dec (seg raw p (p + n))") (auto simp: read_body_as_def method_simps)
qed

lemma fills_Dispatch122: "fills view (Dispatch122_Read k) 122 (\<lambda>bs. Some (decode_dispatch bs))"
  unfolding fills_def
proof (intro allI impI)
  fix s bs
  assume v: "view s = (bs, 0)" and len: "length bs = 122"
  obtain s1 where s1: "rpeek k (ReadU1 k) s = Ok (le_word (take 1 bs), s1)" "view s1 = (bs, 0)"
    using rpeek_Ok [OF reads_ReadU1 v] len by auto
  have one: "le_word (take (Suc 0) bs) = b \<longleftrightarrow> take (Suc 0) bs = [b]" for b :: byte
    using len by (cases bs) auto
  have ack: "\<exists>s2. PacketAckBodySnlp_Read k s1 = Ok (decode_PacketAckBodySnlp bs, s2)"
    if "le_word (take 1 bs) = (172 :: byte)"
    using reads_Ok [OF reads_PacketAckBodySnlp s1(2)] that len by (auto simp: seg_all one)
  have dlv: "\<exists>s2. PacketDBody_Read k s1 = Ok (decode_PacketDBody bs, s2)"
    if "le_word (take 1 bs) = (208 :: byte)"
    using reads_Ok [OF reads_PacketDBody s1(2)] that len by (auto simp: seg_all one)
  have "\<exists>s'. Dispatch122_Read k s = Ok (decode_dispatch bs, s')"
    using ack dlv
    by (auto simp: Dispatch122_Read_def Dispatch122_body_def Dispatch122_MagicPeek_def NewDispatch122_def
        method_simps s1(1) decode_dispatch_def Let_def)
  then show "case Some (decode_dispatch bs) of
      Some b \<Rightarrow> \<exists>s'. Dispatch122_Read k s = Ok (b, s') | None \<Rightarrow> \<exists>e. Dispatch122_Read k s = Err e"
    by simp
qed

lemma read_body_other:
  assumes obj: "f_bodyLength this" "m_bodyLength this = int n" "Body this = NilBody"
    and v: "view s = (raw, p)" and len: "p + n \<le> length raw" and other: "n \<notin> {106, 114, 122, 178, 34, 66, 98}"
  shows "\<exists>s'. read_body k (int n) (this, s)
    = Ok ((), (this\<lparr>raw_Body := seg raw p (p + n), Body := NilBody\<rparr>, s')) \<and> view s' = (raw, p + n)"
proof -
  have "this\<lparr>raw_Body := r\<rparr> = this\<lparr>raw_Body := r, Body := NilBody\<rparr>" for r
    using obj(3) by simp
  with read_raw_body_Ok [OF obj(1,2) v len] other show ?thesis
    by (auto simp: read_body_def rbind_def rret_def)
qed

lemma read_body_spec:
  assumes obj: "f_bodyLength this" "m_bodyLength this = int n" "Body this = NilBody"
    and v: "view s = (raw, p)" and p: "p \<le> length raw"
  shows "if p + n \<le> length raw
    then (case decode_body n (seg raw p (p + n)) of
      Some b \<Rightarrow> \<exists>s'. read_body k (int n) (this, s)
        = Ok ((), (this\<lparr>raw_Body := seg raw p (p + n), Body := b\<rparr>, s')) \<and> view s' = (raw, p + n)
    | None \<Rightarrow> \<exists>e. read_body k (int n) (this, s) = Err e)
    else \<exists>e. read_body k (int n) (this, s) = Err e"
proof (cases "p + n \<le> length raw")
  case False
  then obtain e where "read_raw_body k (this, s) = Err e"
    using read_raw_body_short [OF obj(1,2) v p] by auto
  with False show ?thesis
    by (simp add: read_body_def read_body_as_def rbind_def)
next
  case True
  note ds = read_body_def decode_body_def
  note body = read_body_as_spec [OF _ _ obj(1,2) v True]
  consider "n = 106" | "n = 114" | "n = 122" | "n = 178" | "n = 34" | "n = 66" | "n = 98"
    | (other) "n \<notin> {106, 114, 122, 178, 34, 66, 98}"
    by auto
  then show ?thesis
  proof cases
    case 1
    with True body [OF reads_fills [OF reads_PacketHBody] 1] show ?thesis by (simp add: ds)
  next
    case 2
    with True body [OF reads_fills [OF reads_PacketAckBodyCcsds] 2, of PacketAckBodyCcsds] show ?thesis by (simp add: ds split: if_splits)
  next
    case 3
    with True body [OF fills_Dispatch122 3] show ?thesis by (simp add: ds)
  next
    case 4
    with True body [OF reads_fills [OF reads_PacketBBody] 4] show ?thesis by (simp add: ds)
  next
    case 5
    with True body [OF reads_fills [OF reads_HeartbeatBody] 5] show ?thesis by (simp add: ds)
  next
    case 6
    with True body [OF reads_fills [OF reads_PacketABody] 6] show ?thesis by (simp add: ds)
  next
    case 7
    with True body [OF reads_fills [OF reads_PacketCBody] 7] show ?thesis by (simp add: ds)
  next
    case other
    with True read_body_other [OF obj v True] show ?thesis by (simp add: decode_body_def)
  qed
qed

text \<open>Once the header is read, the rest of \<^verbatim>\<open>Read\<close> is the body switch on an object with a known body length.\<close>

lemma parse_frame_body:
  assumes hc: "frame_header raw = Some (snlp, c)"
    and s1: "IsSnlp k (NewVoidProtocol, NewStream k raw) = Ok (snlp, (vp, s1))"
    and vp: "vp = NewVoidProtocol\<lparr>f_isSnlp := True, f_magicPeek := True, m_magicPeek := m, m_isSnlp := snlp\<rparr>"
    and s2: "read_routing_header k snlp (vp, s1) = Ok ((), (vp\<lparr>RoutingHeader := header_object snlp c\<rparr>, s2))"
  defines "vq \<equiv> vp\<lparr>RoutingHeader := header_object snlp (snd (DataFieldLength c)), f_bodyLength := True,
      m_bodyLength := int (body_len c)\<rparr>"
  shows "parse_frame k raw = bind_ok (read_body k (int (body_len c)) (vq, s2)) (\<lambda>(_, st). Ok st)"
proof -
  have fresh: "fst (DataFieldLength c) = int (body_len c)"
    using hc by (auto simp: frame_header_def DataFieldLength_fresh split: if_splits)
  have "BodyLength k (vp\<lparr>RoutingHeader := header_object snlp c\<rparr>, s2) = Ok (int (body_len c), (vq, s2))"
    using BodyLength_fresh [of "vp\<lparr>RoutingHeader := header_object snlp c\<rparr>" c k s2]
    by (simp add: vp vq_def NewVoidProtocol_def fresh)
  then show ?thesis
    by (simp add: parse_frame_def VoidProtocol_Read_def rbind_def s1 s2)
qed

lemma parse_frame_spec:
  "case decode_frame raw of
     Some (snlp, c, bs, b) \<Rightarrow> snlp = (be_word (take 4 raw) = (486647205 :: u32)) \<and>
       (\<exists>s. parse_frame k raw = Ok (parsed_object (be_word (take 4 raw)) c bs b, s) \<and>
         view s = (raw, header_len snlp + body_len c))
   | None \<Rightarrow> \<exists>e. parse_frame k raw = Err e"
proof (cases "length raw < 4")
  case True
  have "\<exists>e. IsSnlp k (NewVoidProtocol, NewStream k raw) = Err e"
    by (rule IsSnlp_short [OF _ _ view_NewStream True]) (simp_all add: NewVoidProtocol_def)
  with True show ?thesis
    by (auto simp: decode_frame_def frame_header_def parse_frame_def VoidProtocol_Read_def rbind_def)
next
  case False
  define m where "m = (be_word (take 4 raw) :: u32)"
  define vp where "vp = NewVoidProtocol\<lparr>f_isSnlp := True, f_magicPeek := True, m_magicPeek := m,
    m_isSnlp := (m = 486647205)\<rparr>"
  from False have len: "4 \<le> length raw" by simp
  obtain s1 where s1: "IsSnlp k (NewVoidProtocol, NewStream k raw) = Ok (m = 486647205, (vp, s1))"
      "view s1 = (raw, 0)"
    using IsSnlp_fresh [OF _ _ view_NewStream _ len, of NewVoidProtocol]
    by (auto simp: NewVoidProtocol_def m_def vp_def)
  note hdr = read_routing_header_spec [OF s1(2) len, of vp, folded m_def]
  show ?thesis
  proof (cases "frame_header raw")
    case None
    then obtain e where "read_routing_header k (m = 486647205) (vp, s1) = Err e" using hdr by auto
    with None s1 show ?thesis
      by (auto simp: decode_frame_def parse_frame_def VoidProtocol_Read_def rbind_def)
  next
    case (Some hc)
    then obtain c where hc: "frame_header raw = Some (m = 486647205, c)"
      using hdr by (cases hc) auto
    obtain s2 where s2: "read_routing_header k (m = 486647205) (vp, s1)
        = Ok ((), (vp\<lparr>RoutingHeader := header_object (m = 486647205) c\<rparr>, s2))"
        "view s2 = (raw, header_len (m = 486647205))"
      using hdr hc by auto
    have pos: "header_len (m = 486647205) \<le> length raw"
      using hc by (auto simp: frame_header_def header_len_def split: if_splits)
    let ?vq = "vp\<lparr>RoutingHeader := header_object (m = 486647205) (snd (DataFieldLength c)),
      f_bodyLength := True, m_bodyLength := int (body_len c)\<rparr>"
    from read_body_spec [of ?vq "body_len c", OF _ _ _ s2(2) pos] show ?thesis
      using hc
      by (auto simp: decode_frame_def Let_def parse_frame_body [OF hc s1(1) vp_def s2(1)] m_def [symmetric] vp_def
          NewVoidProtocol_def parsed_object_def split: option.splits if_splits)
  qed
qed

end

end
