(* ===== verification/Frames.thy ===== *)
theory Frames
  imports Void_Protocol
begin

text \<open>
  Whole frames: the byte strings a sender produces for either tier, and what the parser of
  \<^verbatim>\<open>void_protocol.go\<close> makes of them.  The theory holds the properties of the parser that its
  clients (the ingest handler, the receipt builder) rely on.
\<close>

section \<open>Building a frame\<close>

text \<open>
  The frame of a body: the three CCSDS header words, the last one the body length minus one, and
  on the SNLP tier the sync word before and the alignment pad after them.
\<close>

definition length_word :: "nat \<Rightarrow> u16" where
  "length_word n = of_nat (n - 1)"

definition frame_bytes :: "bool \<Rightarrow> u16 \<Rightarrow> u16 \<Rightarrow> byte list \<Rightarrow> byte list" where
  "frame_bytes snlp v q body =
     (if snlp then [29, 1, 165, 165] else []) @
     be_bytes 2 v @ be_bytes 2 q @ be_bytes 2 (length_word (length body)) @
     (if snlp then [0, 0, 0, 0] else []) @ body"

text \<open>On the CCSDS tier the first two header words must not spell the SNLP sync word.\<close>

definition tier_ok :: "bool \<Rightarrow> u16 \<Rightarrow> u16 \<Rightarrow> bool" where
  "tier_ok snlp v q \<longleftrightarrow> snlp \<or> be_bytes 2 v @ be_bytes 2 q \<noteq> [29, 1, 165, 165]"

definition frame_words :: "u16 \<Rightarrow> u16 \<Rightarrow> byte list \<Rightarrow> ccsds_primary_header" where
  "frame_words v q body = ccsds_of_words v q (length_word (length body))"

lemma length_frame_bytes [simp]: "length (frame_bytes snlp v q body) = header_len snlp + length body"
  by (simp add: frame_bytes_def header_len_def)

lemma body_len_frame_words:
  "1 \<le> length body \<Longrightarrow> length body < 65536 \<Longrightarrow> body_len (frame_words v q body) = length body"
proof -
  assume len: "1 \<le> length body" "length body < 65536"
  have "length_word (length body) + 1 = of_nat (length body)"
    using len(1) unfolding length_word_def by (metis Suc_pred' less_eq_Suc_le One_nat_def add.commute of_nat_Suc)
  with len(2) show ?thesis
    by (simp add: body_len_def frame_words_def unat_of_nat)
qed

lemma frame_bytes_parts:
  "seg (frame_bytes True v q body) 4 10 = be_bytes 2 v @ be_bytes 2 q @ be_bytes 2 (length_word (length body))"
  "seg (frame_bytes True v q body) 10 14 = [0, 0, 0, 0]"
  "take 4 (frame_bytes True v q body) = [29, 1, 165, 165]"
  "seg (frame_bytes False v q body) 0 6 = be_bytes 2 v @ be_bytes 2 q @ be_bytes 2 (length_word (length body))"
  "take 4 (frame_bytes False v q body) = be_bytes 2 v @ be_bytes 2 q"
  by (simp_all add: frame_bytes_def seg_def)

lemma decode_ccsds_frame:
  "decode_ccsds (be_bytes 2 v @ be_bytes 2 q @ be_bytes 2 (length_word (length body))) = frame_words v q body"
  by (simp add: decode_ccsds_def frame_words_def layout_simps be_word_be_bytes)

lemma frame_header_frame_bytes:
  assumes "tier_ok snlp v q" and "1 \<le> length body"
  shows "frame_header (frame_bytes snlp v q body) = Some (snlp, frame_words v q body)"
proof (cases snlp)
  case True
  have "be_word [0, 0, 0, 0] = (0 :: u32)" by (simp add: be_word_def)
  with True show ?thesis
    by (simp add: frame_header_def frame_bytes_parts decode_ccsds_frame header_len_def sync_word_bytes)
next
  case False
  with assms show ?thesis
    by (simp add: frame_header_def frame_bytes_parts decode_ccsds_frame header_len_def sync_word_bytes tier_ok_def)
qed

lemma body_seg_frame_bytes:
  "seg (frame_bytes snlp v q body) (header_len snlp) (header_len snlp + length body) = body"
  by (cases snlp) (simp_all add: frame_bytes_def header_len_def seg_def)

lemma decode_frame_frame_bytes:
  assumes "tier_ok snlp v q" and "1 \<le> length body" and "length body < 65536"
  shows "decode_frame (frame_bytes snlp v q body)
    = map_option (\<lambda>b. (snlp, frame_words v q body, body, b)) (decode_body (length body) body)"
  using assms
  by (simp add: decode_frame_def frame_header_frame_bytes body_len_frame_words Let_def body_seg_frame_bytes)


section \<open>Typed bodies\<close>

fun encode_content :: "dispatch_content \<Rightarrow> byte list" where
  "encode_content (PacketAckBodySnlp b) = encode_PacketAckBodySnlp b"
| "encode_content (PacketDBody b) = encode_PacketDBody b"

fun content_ok :: "dispatch_content \<Rightarrow> bool" where
  "content_ok (PacketAckBodySnlp b) \<longleftrightarrow> fits_PacketAckBodySnlp b \<and> as_Magic b = [172]"
| "content_ok (PacketDBody b) \<longleftrightarrow> fits_PacketDBody b \<and> pd_Magic b = [208]"

text \<open>A dispatch object for a content, as the parser leaves it.\<close>

definition dispatch_of :: "dispatch_content \<Rightarrow> dispatch122" where
  "dispatch_of c = \<lparr>Content = Some c, f_magicPeek8 = True,
     m_magicPeek8 = (case c of PacketAckBodySnlp b \<Rightarrow> 172 | PacketDBody b \<Rightarrow> 208)\<rparr>"

fun encode_body :: "void_body \<Rightarrow> byte list" where
  "encode_body NilBody = []"
| "encode_body (PacketHBody b) = encode_PacketHBody b"
| "encode_body (PacketAckBodyCcsds b) = encode_PacketAckBodyCcsds b"
| "encode_body (Dispatch122 d) = (case Content d of Some c \<Rightarrow> encode_content c | None \<Rightarrow> [])"
| "encode_body (PacketBBody b) = encode_PacketBBody b"
| "encode_body (HeartbeatBody b) = encode_HeartbeatBody b"
| "encode_body (PacketABody b) = encode_PacketABody b"
| "encode_body (PacketCBody b) = encode_PacketCBody b"

fun body_ok :: "void_body \<Rightarrow> bool" where
  "body_ok NilBody \<longleftrightarrow> False"
| "body_ok (PacketHBody b) \<longleftrightarrow> fits_PacketHBody b"
| "body_ok (PacketAckBodyCcsds b) \<longleftrightarrow> fits_PacketAckBodyCcsds b \<and> ac_Magic b = [172]"
| "body_ok (Dispatch122 d) \<longleftrightarrow> (\<exists>c \<in> set_option (Content d). content_ok c \<and> d = dispatch_of c)"
| "body_ok (PacketBBody b) \<longleftrightarrow> fits_PacketBBody b"
| "body_ok (HeartbeatBody b) \<longleftrightarrow> fits_HeartbeatBody b"
| "body_ok (PacketABody b) \<longleftrightarrow> fits_PacketABody b"
| "body_ok (PacketCBody b) \<longleftrightarrow> fits_PacketCBody b"

lemmas layout_lengths =
  heartbeat_body_layout.length_enc packet_a_body_layout.length_enc packet_ack_body_ccsds_layout.length_enc
  packet_ack_body_snlp_layout.length_enc packet_b_body_layout.length_enc packet_c_body_layout.length_enc
  packet_d_body_layout.length_enc packet_h_body_layout.length_enc

lemmas layout_decodes =
  heartbeat_body_layout.dec_enc packet_a_body_layout.dec_enc packet_ack_body_ccsds_layout.dec_enc
  packet_ack_body_snlp_layout.dec_enc packet_b_body_layout.dec_enc packet_c_body_layout.dec_enc
  packet_d_body_layout.dec_enc packet_h_body_layout.dec_enc

lemma take_magic:
  "fits_PacketAckBodySnlp b \<Longrightarrow> take 1 (encode_PacketAckBodySnlp b) = as_Magic b"
  "fits_PacketDBody d \<Longrightarrow> take 1 (encode_PacketDBody d) = pd_Magic d"
  "fits_PacketAckBodyCcsds a \<Longrightarrow> take 1 (encode_PacketAckBodyCcsds a) = ac_Magic a"
  by (simp_all add: encode_PacketAckBodySnlp_def fits_PacketAckBodySnlp_def encode_PacketDBody_def fits_PacketDBody_def
      encode_PacketAckBodyCcsds_def fits_PacketAckBodyCcsds_def)

lemma le_word_byte: "le_word [b] = (b :: byte)"
  by (simp add: le_word_def)

lemma encode_content_props:
  "content_ok c \<Longrightarrow> length (encode_content c) = 122 \<and> decode_dispatch (encode_content c) = dispatch_of c"
  by (cases c) (simp_all add: layout_lengths decode_dispatch_def Let_def take_magic [simplified]
      le_word_byte layout_decodes dispatch_of_def)

lemma encode_body_props:
  "body_ok b \<Longrightarrow> 1 \<le> length (encode_body b) \<and> length (encode_body b) < 65536 \<and>
     decode_body (length (encode_body b)) (encode_body b) = Some b"
proof (cases b)
  case (Dispatch122 d)
  moreover assume "body_ok b"
  ultimately obtain c where "Content d = Some c" "content_ok c" "d = dispatch_of c" by auto
  with Dispatch122 encode_content_props [of c] show ?thesis by (simp add: decode_body_def)
qed (simp_all add: layout_lengths decode_body_def layout_decodes take_magic [simplified])

section \<open>Properties of the parser\<close>

text \<open>A CCSDS heartbeat frame for the witnesses.\<close>

definition demo_heartbeat :: "byte list" where
  "demo_heartbeat = [8, 123, 192, 1, 0, 33] @ map of_nat [0..<34]"

lemma demo_heartbeat_decodes:
  "decode_frame demo_heartbeat = Some (False, ccsds_of_words 2171 49153 33, map of_nat [0..<34],
      HeartbeatBody (decode_HeartbeatBody (map of_nat [0..<34])))"
proof -
  have bytes: "be_bytes 2 (2171 :: u16) = [8, 123]" "be_bytes 2 (49153 :: u16) = [192, 1]"
    "be_bytes 2 (33 :: u16) = [0, 33]"
    by code_simp+
  have fr: "demo_heartbeat = frame_bytes False 2171 49153 (map of_nat [0..<34])"
    by (simp add: demo_heartbeat_def frame_bytes_def length_word_def bytes)
  show ?thesis
    unfolding fr by (subst decode_frame_frame_bytes)
      (simp_all add: tier_ok_def bytes decode_body_def frame_words_def length_word_def)
qed

text \<open>
  C5.  The parser implements the abstract reading of a frame.  On every byte string and every
  stream implementation with the documented behaviour of the Kaitai runtime, the generated
  \<^verbatim>\<open>VoidProtocol.Read\<close> returns: it succeeds exactly when \<^const>\<open>decode_frame\<close> does, with the header,
  raw body, typed body and memo fields that the abstract reading determines and the stream just
  behind the body; otherwise it returns an error.  It never panics (the type assertions on the
  routing header never fail).
\<close>

theorem parse_frame_implements_decode_frame:
  assumes "kaitai_stream k view"
  shows "case decode_frame raw of
     Some (snlp, c, bs, b) \<Rightarrow> snlp = (be_word (take 4 raw) = (486647205 :: u32)) \<and>
       (\<exists>s. parse_frame k raw = Ok (parsed_object (be_word (take 4 raw)) c bs b, s) \<and>
         view s = (raw, header_len snlp + body_len c))
   | None \<Rightarrow> \<exists>e. parse_frame k raw = Err e"
  using kaitai_stream.parse_frame_spec [OF assms] .

theorem parse_frame_implements_decode_frame_witness:
  "\<exists>s. parse_frame bytes_rt demo_heartbeat
     = Ok (parsed_object 142327809 (ccsds_of_words 2171 49153 33) (map of_nat [0..<34])
         (HeartbeatBody (decode_HeartbeatBody (map of_nat [0..<34]))), s) \<and> s = (demo_heartbeat, 40)"
proof -
  note dec = demo_heartbeat_decodes
  have "be_word (take 4 demo_heartbeat) = (142327809 :: u32)"
    by (simp add: demo_heartbeat_def be_word_def le_word_def)
  moreover have "body_len (ccsds_of_words 2171 49153 33) = 34"
    by (simp add: body_len_def)
  ultimately show ?thesis
    using parse_frame_implements_decode_frame [OF bytes_stream.kaitai_stream_axioms, of demo_heartbeat] dec
    by (simp add: header_len_def)
qed

text \<open>Building blocks for the other properties of the parser.\<close>

lemma parse_frame_Ok_iff:
  assumes "kaitai_stream k view"
  shows "parse_frame k raw = Ok (obj, s) \<Longrightarrow>
    \<exists>snlp c bs b. decode_frame raw = Some (snlp, c, bs, b) \<and> obj = parsed_object (be_word (take 4 raw)) c bs b \<and>
      snlp = (be_word (take 4 raw) = (486647205 :: u32)) \<and> view s = (raw, header_len snlp + body_len c)"
  using kaitai_stream.parse_frame_spec [OF assms, of raw] by (auto split: option.splits)

lemma parse_frame_of_decode:
  assumes "kaitai_stream k view" and "decode_frame raw = Some (snlp, c, bs, b)"
  shows "\<exists>s. parse_frame k raw = Ok (parsed_object (be_word (take 4 raw)) c bs b, s) \<and>
    view s = (raw, header_len snlp + body_len c) \<and> snlp = (be_word (take 4 raw) = (486647205 :: u32))"
  using kaitai_stream.parse_frame_spec [OF assms(1), of raw] assms(2) by auto

lemma parsed_object_simps [simp]:
  "Body (parsed_object m c bs b) = b"
  "raw_Body (parsed_object m c bs b) = bs"
  "m_isSnlp (parsed_object m c bs b) = (m = 486647205)"
  "f_isSnlp (parsed_object m c bs b)"
  "f_bodyLength (parsed_object m c bs b)"
  "m_bodyLength (parsed_object m c bs b) = int (body_len c)"
  "RoutingHeader (parsed_object m c bs b) = header_object (m = 486647205) (snd (DataFieldLength c))"
  "\<not> f_globalApid (parsed_object m c bs b)"
  "\<not> f_globalPacketType (parsed_object m c bs b)"
  by (simp_all add: parsed_object_def)

lemma decode_frame_parts:
  "decode_frame raw = Some (snlp, c, bs, b) \<Longrightarrow>
     frame_header raw = Some (snlp, c) \<and> bs = seg raw (header_len snlp) (header_len snlp + body_len c) \<and>
     length bs = body_len c \<and> header_len snlp + body_len c \<le> length raw \<and>
     decode_body (body_len c) bs = Some b"
  by (auto simp: decode_frame_def Let_def seg_def split: option.splits if_splits)

lemma frame_header_words:
  "frame_header raw = Some (snlp, c) \<Longrightarrow>
     c = decode_ccsds (if snlp then seg raw 4 10 else seg raw 0 6) \<and> memo_ok c \<and>
     snlp = (be_word (take 4 raw) = (486647205 :: u32))"
  by (auto simp: frame_header_def split: if_splits)

text \<open>The header object of such a frame, after the accessor that the parser itself calls.\<close>

lemma frame_words_header:
  fixes v q :: u16 and body :: "byte list"
  defines "c \<equiv> snd (DataFieldLength (frame_words v q body))"
  shows "VersionTypeFlagApid c = v" "SeqFlagsCount c = q" "PacketDataLength c = word_of_nat (length body - 1)"
    "fst (Apid c) = uint (v AND 2047)" "fst (PacketType c) = uint (drop_bit 12 v AND 1)" "fst (SeqCount c) = uint (q AND 16383)"
proof -
  let ?w = "frame_words v q body"
  have ok: "memo_ok c" "wire_words c = (v, q, length_word (length body))"
    using data_length.acc_inv [of ?w] data_length.acc_core [of ?w] by (simp_all add: c_def frame_words_def)
  then show "VersionTypeFlagApid c = v" "SeqFlagsCount c = q" by (simp_all add: wire_words_def)
  show "PacketDataLength c = word_of_nat (length body - 1)"
    using ok(2) by (simp add: wire_words_def length_word_def)
  show "fst (Apid c) = uint (v AND 2047)" "fst (PacketType c) = uint (drop_bit 12 v AND 1)" "fst (SeqCount c) = uint (q AND 16383)"
    using apid.acc_value [OF ok(1)] packet_type.acc_value [OF ok(1)] seq_count.acc_value [OF ok(1)] by (simp_all add: ok(2))
qed

text \<open>
  C32.  Round trip.  A frame built for any typed body of the protocol, on either tier and with any
  CCSDS header words, is parsed back to those words in the header of its tier, with the length of the body
  as its third word and the APID, packet type and sequence count that the words hold, and to that body, with
  the body's bytes as its raw body; the tier is recognised and the whole frame consumed.
\<close>

theorem parse_frame_roundtrip:
  assumes "kaitai_stream k view" and "tier_ok snlp v q" and "body_ok b"
  shows "\<exists>obj s c. parse_frame k (frame_bytes snlp v q (encode_body b)) = Ok (obj, s) \<and>
    RoutingHeader obj = (if snlp then SnlpHeader \<lparr>SyncWord = [0x1D, 0x01, 0xA5, 0xA5], Ccsds = c, AlignPad = 0\<rparr> else CcsdsHeader c) \<and>
    VersionTypeFlagApid c = v \<and> SeqFlagsCount c = q \<and> PacketDataLength c = word_of_nat (length (encode_body b) - 1) \<and>
    fst (Apid c) = uint (v AND 2047) \<and> fst (PacketType c) = uint (drop_bit 12 v AND 1) \<and> fst (SeqCount c) = uint (q AND 16383) \<and>
    Body obj = b \<and> raw_Body obj = encode_body b \<and> m_isSnlp obj = snlp \<and>
    view s = (frame_bytes snlp v q (encode_body b), header_len snlp + length (encode_body b))"
proof -
  let ?raw = "frame_bytes snlp v q (encode_body b)"
  have dec: "decode_frame ?raw = Some (snlp, frame_words v q (encode_body b), encode_body b, b)"
    using decode_frame_frame_bytes [OF assms(2), of "encode_body b"] encode_body_props [OF assms(3)] by simp
  obtain s where "parse_frame k ?raw
      = Ok (parsed_object (be_word (take 4 ?raw)) (frame_words v q (encode_body b)) (encode_body b) b, s)"
    "view s = (?raw, header_len snlp + body_len (frame_words v q (encode_body b)))"
    "snlp = (be_word (take 4 ?raw) = (486647205 :: u32))"
    using parse_frame_of_decode [OF assms(1) dec] by blast
  then show ?thesis
    using frame_words_header [of v q "encode_body b"] body_len_frame_words [of "encode_body b" v q] encode_body_props [OF assms(3)]
    by (intro exI [of _ "parsed_object (be_word (take 4 ?raw)) (frame_words v q (encode_body b)) (encode_body b) b"]
        exI [of _ s] exI [of _ "snd (DataFieldLength (frame_words v q (encode_body b)))"]) (simp add: header_object_def)
qed

definition demo_ack_body :: packet_ack_body_snlp where
  "demo_ack_body = decode_PacketAckBodySnlp (172 # map of_nat [0..<121])"

lemma demo_ack_body_ok: "body_ok (Dispatch122 (dispatch_of (PacketAckBodySnlp demo_ack_body)))"
proof -
  have "length (172 # map of_nat [0..<121] :: byte list) = 122" by simp
  then have "fits_PacketAckBodySnlp demo_ack_body"
    unfolding demo_ack_body_def by (rule packet_ack_body_snlp_layout.fits_dec)
  moreover have "as_Magic demo_ack_body = [172]"
    by (simp add: demo_ack_body_def decode_PacketAckBodySnlp_def seg_def)
  ultimately show ?thesis by (simp add: dispatch_of_def)
qed

theorem parse_frame_roundtrip_witness:
  "\<exists>obj s. parse_frame bytes_rt
       (frame_bytes True 6266 49153 (encode_body (Dispatch122 (dispatch_of (PacketAckBodySnlp demo_ack_body)))))
     = Ok (obj, s) \<and> Body obj = Dispatch122 (dispatch_of (PacketAckBodySnlp demo_ack_body)) \<and> m_isSnlp obj"
proof -
  have "tier_ok True 6266 49153" by (simp add: tier_ok_def)
  from parse_frame_roundtrip [OF bytes_stream.kaitai_stream_axioms this demo_ack_body_ok]
  show ?thesis by blast
qed

lemma encode_decode_body:
  assumes "decode_body n bs = Some b" and "length bs = n" and "b \<noteq> NilBody"
    and "\<And>d. b = Dispatch122 d \<Longrightarrow> Content d \<noteq> None"
  shows "encode_body b = bs"
  using assms
  by (auto simp: decode_body_def decode_dispatch_def Let_def split: if_splits
      intro!: heartbeat_body_layout.enc_dec packet_a_body_layout.enc_dec packet_ack_body_ccsds_layout.enc_dec
        packet_ack_body_snlp_layout.enc_dec packet_b_body_layout.enc_dec packet_c_body_layout.enc_dec
        packet_d_body_layout.enc_dec packet_h_body_layout.enc_dec)

text \<open>
  The parse loses nothing.  Whatever frame the parser accepts with a typed body, encoding that
  body again gives the very bytes that follow the routing header: no field is dropped, truncated or
  read twice.
\<close>

lemma parse_frame_lossless:
  assumes "kaitai_stream k view" and "parse_frame k raw = Ok (obj, s)" and "Body obj \<noteq> NilBody"
    and "\<And>d. Body obj = Dispatch122 d \<Longrightarrow> Content d \<noteq> None"
  shows "encode_body (Body obj) = raw_Body obj \<and>
    raw_Body obj = seg raw (header_len (m_isSnlp obj)) (header_len (m_isSnlp obj) + length (raw_Body obj)) \<and>
    view s = (raw, header_len (m_isSnlp obj) + length (raw_Body obj))"
proof -
  obtain snlp c bs b where dec: "decode_frame raw = Some (snlp, c, bs, b)"
    and obj: "obj = parsed_object (be_word (take 4 raw)) c bs b"
    and snlp: "snlp = (be_word (take 4 raw) = (486647205 :: u32))"
    and view: "view s = (raw, header_len snlp + body_len c)"
    using parse_frame_Ok_iff [OF assms(1,2)] by blast
  note parts = decode_frame_parts [OF dec]
  have "encode_body b = bs"
  proof (rule encode_decode_body)
    show "decode_body (body_len c) bs = Some b" "length bs = body_len c" using parts by auto
    show "b \<noteq> NilBody" "\<And>d. b = Dispatch122 d \<Longrightarrow> Content d \<noteq> None" using assms(3,4) obj by auto
  qed
  with parts obj snlp view show ?thesis by simp
qed

section \<open>The accessors of a parsed frame\<close>

text \<open>The values the three header words give.\<close>

type_synonym header_words = "u16 \<times> u16 \<times> u16"

definition words_apid :: "header_words \<Rightarrow> int" where
  "words_apid = (\<lambda>(v, q, l). uint (v AND 2047))"

definition words_type :: "header_words \<Rightarrow> int" where
  "words_type = (\<lambda>(v, q, l). uint (drop_bit 12 v AND 1))"

definition words_length :: "header_words \<Rightarrow> int" where
  "words_length = (\<lambda>(v, q, l). uint (l + 1))"

text \<open>
  The invariant of a parsed object with given header words: the header object fits the tier and
  carries these words, its memo is right, and so is the memo of the object itself.
\<close>

definition object_at :: "header_words \<Rightarrow> void_protocol \<Rightarrow> bool" where
  "object_at ws obj \<longleftrightarrow> f_isSnlp obj \<and>
     (\<exists>c. RoutingHeader obj = header_object (m_isSnlp obj) c \<and> memo_ok c \<and> wire_words c = ws) \<and>
     (f_globalApid obj \<longrightarrow> m_globalApid obj = words_apid ws) \<and>
     (f_globalPacketType obj \<longrightarrow> m_globalPacketType obj = words_type ws) \<and>
     (f_bodyLength obj \<longrightarrow> m_bodyLength obj = words_length ws)"

definition object_data :: "void_protocol \<Rightarrow> bool \<times> byte list \<times> void_body" where
  "object_data obj = (m_isSnlp obj, raw_Body obj, Body obj)"

text \<open>The contract of an accessor method: it returns, is pure in the words and keeps the rest.\<close>

locale object_accessor =
  fixes acc :: "(int, 's) parser_method" and pure_val :: "header_words \<Rightarrow> int"
  assumes acc_Ok: "object_at ws obj \<Longrightarrow>
    \<exists>obj'. acc (obj, s) = Ok (pure_val ws, (obj', s)) \<and> object_at ws obj' \<and> object_data obj' = object_data obj"

lemma header_call_memo:
  assumes "memo_accessor acc memo_ok wire_words val"
    and "RoutingHeader obj = header_object snlp c" and "memo_ok c"
  shows "\<exists>c'. header_call snlp acc (obj, s)
      = Ok (val (wire_words c), (obj\<lparr>RoutingHeader := header_object snlp c'\<rparr>, s)) \<and>
    memo_ok c' \<and> wire_words c' = wire_words c"
proof -
  obtain c' where "acc c = (val (wire_words c), c')" "memo_ok c'" "wire_words c' = wire_words c"
    using memo_accessor.acc_pair [OF assms(1,3)] by blast
  with header_call_object [OF assms(2), of acc s] show ?thesis
    by (intro exI [of _ c']) simp
qed

interpretation global_apid: object_accessor "GlobalApid k" words_apid for k
proof
  fix ws obj s
  assume ok: "object_at ws obj"
  then obtain c where c: "RoutingHeader obj = header_object (m_isSnlp obj) c" "memo_ok c" "wire_words c = ws"
    by (auto simp: object_at_def)
  show "\<exists>obj'. GlobalApid k (obj, s) = Ok (words_apid ws, (obj', s)) \<and> object_at ws obj' \<and>
      object_data obj' = object_data obj"
    using ok header_call_memo [OF apid.memo_accessor_axioms,
        of "obj\<lparr>f_globalApid := True\<rparr>" "m_isSnlp obj" c s] c
    by (auto simp: GlobalApid_def method_simps IsSnlp_cached object_at_def object_data_def words_apid_def)
qed

interpretation global_packet_type: object_accessor "GlobalPacketType k" words_type for k
proof
  fix ws obj s
  assume ok: "object_at ws obj"
  then obtain c where c: "RoutingHeader obj = header_object (m_isSnlp obj) c" "memo_ok c" "wire_words c = ws"
    by (auto simp: object_at_def)
  show "\<exists>obj'. GlobalPacketType k (obj, s) = Ok (words_type ws, (obj', s)) \<and> object_at ws obj' \<and>
      object_data obj' = object_data obj"
    using ok header_call_memo [OF packet_type.memo_accessor_axioms,
        of "obj\<lparr>f_globalPacketType := True\<rparr>" "m_isSnlp obj" c s] c
    by (auto simp: GlobalPacketType_def method_simps IsSnlp_cached object_at_def object_data_def words_type_def)
qed

interpretation body_length: object_accessor "BodyLength k" words_length for k
proof
  fix ws obj s
  assume ok: "object_at ws obj"
  then obtain c where c: "RoutingHeader obj = header_object (m_isSnlp obj) c" "memo_ok c" "wire_words c = ws"
    by (auto simp: object_at_def)
  show "\<exists>obj'. BodyLength k (obj, s) = Ok (words_length ws, (obj', s)) \<and> object_at ws obj' \<and>
      object_data obj' = object_data obj"
    using ok header_call_memo [OF data_length.memo_accessor_axioms,
        of "obj\<lparr>f_bodyLength := True\<rparr>" "m_isSnlp obj" c s] c
    by (auto simp: BodyLength_def method_simps IsSnlp_cached object_at_def object_data_def words_length_def)
qed

text \<open>A client asks the object a series of questions.\<close>

datatype query = AskApid | AskType | AskLength

fun ask :: "'s kaitai_rt \<Rightarrow> query \<Rightarrow> (int, 's) parser_method" where
  "ask k AskApid = GlobalApid k"
| "ask k AskType = GlobalPacketType k"
| "ask k AskLength = BodyLength k"

fun answer :: "header_words \<Rightarrow> query \<Rightarrow> int" where
  "answer ws AskApid = words_apid ws"
| "answer ws AskType = words_type ws"
| "answer ws AskLength = words_length ws"

fun ask_all :: "'s kaitai_rt \<Rightarrow> query list \<Rightarrow> (int list, 's) parser_method" where
  "ask_all k [] = rret []"
| "ask_all k (q # qs) = rbind (ask k q) (\<lambda>v. rbind (ask_all k qs) (\<lambda>vs. rret (v # vs)))"

interpretation any_query: object_accessor "ask k q" "\<lambda>ws. answer ws q" for k q
  by unfold_locales (cases q, simp_all add: global_apid.acc_Ok global_packet_type.acc_Ok body_length.acc_Ok)

lemma ask_all_answers:
  "object_at ws obj \<Longrightarrow> \<exists>obj'. ask_all k qs (obj, s) = Ok (map (answer ws) qs, (obj', s)) \<and>
     object_at ws obj' \<and> object_data obj' = object_data obj"
proof (induction qs arbitrary: obj)
  case Nil
  then show ?case by (auto simp: rret_def)
next
  case (Cons q qs)
  obtain obj1 where "ask k q (obj, s) = Ok (answer ws q, (obj1, s))" "object_at ws obj1"
    "object_data obj1 = object_data obj"
    using any_query.acc_Ok [OF Cons.prems, of k q s] by blast
  moreover obtain obj2 where "ask_all k qs (obj1, s) = Ok (map (answer ws) qs, (obj2, s))"
    "object_at ws obj2" "object_data obj2 = object_data obj1"
    using Cons.IH [OF calculation(2)] by blast
  ultimately show ?case
    by (intro exI [of _ obj2]) (simp add: rbind_def rret_def)
qed

lemma parsed_object_at:
  assumes "memo_ok c"
  shows "object_at (wire_words c) (parsed_object m c bs b)"
  using data_length.acc_inv [OF assms] data_length.acc_core [of c]
  by (auto simp: object_at_def body_len_def words_length_def wire_words_def)

text \<open>
  The accessors on a parsed frame.  After a successful parse, any series of calls of
  \<^verbatim>\<open>GlobalApid\<close>, \<^verbatim>\<open>GlobalPacketType\<close> and \<^verbatim>\<open>BodyLength\<close>, in any order and with repetitions, returns for
  each call the application id, type bit and body length that the three CCSDS words at the tier's
  offset in the frame determine; the caching in the object and in its header never shows, the body
  is left alone and no call fails.
\<close>

lemma parsed_frame_answers:
  assumes "kaitai_stream k view" and "parse_frame k raw = Ok (obj, s)"
  shows "\<exists>obj'. ask_all k qs (obj, s)
      = Ok (map (answer (wire_words (decode_ccsds (if m_isSnlp obj then seg raw 4 10 else seg raw 0 6)))) qs, (obj', s)) \<and>
    Body obj' = Body obj \<and> raw_Body obj' = raw_Body obj \<and> m_isSnlp obj' = m_isSnlp obj"
proof -
  obtain snlp c bs b where dec: "decode_frame raw = Some (snlp, c, bs, b)"
    and obj: "obj = parsed_object (be_word (take 4 raw)) c bs b"
    and snlp: "snlp = (be_word (take 4 raw) = (486647205 :: u32))"
    using parse_frame_Ok_iff [OF assms] by blast
  have c: "c = decode_ccsds (if snlp then seg raw 4 10 else seg raw 0 6)" and "memo_ok c"
    using frame_header_words decode_frame_parts [OF dec] by blast+
  then have "object_at (wire_words c) obj" unfolding obj by (intro parsed_object_at)
  moreover have "m_isSnlp obj = snlp" by (simp add: obj snlp)
  ultimately show ?thesis
    using ask_all_answers [of "wire_words c" obj k qs s] c by (auto simp: object_data_def)
qed

lemma uint_plus16: "uint (x + y :: u16) = int ((unat x + unat y) mod 65536)"
proof -
  have "uint (x + y) = int (unat (x + y))" by simp
  also have "unat (x + y) = (unat x + unat y) mod 65536" by (simp add: unat_word_ariths(1))
  finally show ?thesis .
qed

text \<open>
  The body length wraps.  \<^verbatim>\<open>DataFieldLength\<close> and \<^verbatim>\<open>TotalPacketLength\<close> add in 16 bits, so they return
  the announced length plus 1 and plus 7 modulo 65536: the number of octets behind the header and of
  the packet for every header except those at the top of the range, where a header announcing 65536
  octets of data is read as announcing none and the parser returns an empty body.
\<close>

lemma announced_length_wraps:
  assumes "memo_ok h" and "kaitai_stream k view" and "tier_ok False w0 w1"
  shows "fst (DataFieldLength h) = int ((unat (PacketDataLength h) + 1) mod 65536) \<and>
    fst (TotalPacketLength h) = int ((unat (PacketDataLength h) + 7) mod 65536) \<and>
    (\<exists>obj s. parse_frame k (be_bytes 2 w0 @ be_bytes 2 w1 @ [255, 255] @ rest) = Ok (obj, s) \<and>
       Body obj = NilBody \<and> raw_Body obj = [])"
proof (intro conjI)
  show "fst (DataFieldLength h) = int ((unat (PacketDataLength h) + 1) mod 65536)"
    using data_length.acc_value [OF assms(1)] uint_plus16 [of "PacketDataLength h" 1]
    by (simp only: wire_words_def prod.case) simp
  show "fst (TotalPacketLength h) = int ((unat (PacketDataLength h) + 7) mod 65536)"
    using total_length.acc_value [OF assms(1)] uint_plus16 [of "PacketDataLength h" 7]
    by (simp only: wire_words_def prod.case) simp
  let ?raw = "be_bytes 2 w0 @ be_bytes 2 w1 @ [255, 255] @ rest"
  have "be_word (take 4 ?raw) \<noteq> (486647205 :: u32)"
    using assms(3) by (simp add: sync_word_bytes tier_ok_def)
  moreover have "be_word [255, 255] = (65535 :: u16)"
    by (simp add: be_word_def le_word_def)
  then have "decode_ccsds (seg ?raw 0 6) = ccsds_of_words w0 w1 65535"
    by (simp add: decode_ccsds_def seg_def be_word_be_bytes)
  ultimately have "frame_header ?raw = Some (False, ccsds_of_words w0 w1 65535)"
    by (simp add: frame_header_def)
  then have "decode_frame ?raw = Some (False, ccsds_of_words w0 w1 65535, [], NilBody)"
    by (simp add: decode_frame_def Let_def body_len_def decode_body_def header_len_def seg_def)
  from parse_frame_of_decode [OF assms(2) this]
  show "\<exists>obj s. parse_frame k ?raw = Ok (obj, s) \<and> Body obj = NilBody \<and> raw_Body obj = []" by auto
qed

text \<open>
  The 122-byte dispatch.  A 122-byte body is routed by its first byte alone: 0xAC gives the SNLP
  acknowledgement and 0xD0 the delivery, on both tiers, and any other first byte parses to a
  dispatch object without content.  In particular a CCSDS frame with a 122-byte body starting with
  0xAC parses as the SNLP acknowledgement.
\<close>

lemma dispatch122_routes_on_magic:
  assumes "kaitai_stream k view" and "tier_ok snlp v q" and "length body = 122"
  shows "\<exists>obj s d. parse_frame k (frame_bytes snlp v q body) = Ok (obj, s) \<and> Body obj = Dispatch122 d \<and>
    m_isSnlp obj = snlp \<and>
    Content d = (if hd body = 172 then Some (PacketAckBodySnlp (decode_PacketAckBodySnlp body))
                 else if hd body = 208 then Some (PacketDBody (decode_PacketDBody body)) else None)"
proof -
  have m: "le_word (take 1 body) = hd body"
    using assms(3) by (cases body) (simp_all add: le_word_byte)
  have dec: "decode_frame (frame_bytes snlp v q body)
      = Some (snlp, frame_words v q body, body, Dispatch122 (decode_dispatch body))"
    using decode_frame_frame_bytes [OF assms(2), of body] assms(3) by (simp add: decode_body_def)
  obtain s where p: "parse_frame k (frame_bytes snlp v q body)
      = Ok (parsed_object (be_word (take 4 (frame_bytes snlp v q body))) (frame_words v q body) body
          (Dispatch122 (decode_dispatch body)), s)"
    "snlp = (be_word (take 4 (frame_bytes snlp v q body)) = (486647205 :: u32))"
    using parse_frame_of_decode [OF assms(1) dec] by blast
  have "Content (decode_dispatch body) = (if hd body = 172 then Some (PacketAckBodySnlp (decode_PacketAckBodySnlp body))
      else if hd body = 208 then Some (PacketDBody (decode_PacketDBody body)) else None)"
    by (simp only: decode_dispatch_def Let_def m dispatch122.simps)
  with p show ?thesis by (metis parsed_object_simps(1,3))
qed

end
