(* ===== verification/Registry.thy ===== *)
theory Registry
  imports Go_Strings
begin

text \<open>
  \<^verbatim>\<open>core/registry/registry.go\<close> and \<^verbatim>\<open>core/security/verifier.go\<close>: the satellite registry and
  the signature check against it.  Ed25519 is a parameter, a record of the four functions the
  gateway calls; \<^verbatim>\<open>ed25519_ok\<close> names what the gateway relies on of it.
\<close>

section \<open>Ed25519 as a parameter\<close>

record ed25519_lib =
  NewKeyFromSeed :: "byte list \<Rightarrow> byte list"
  Public :: "byte list \<Rightarrow> byte list"
  Sign :: "byte list \<Rightarrow> byte list \<Rightarrow> byte list"
  Verify :: "byte list \<Rightarrow> byte list \<Rightarrow> byte list \<Rightarrow> bool"

definition SeedSize :: nat where "SeedSize = 32"
definition PublicKeySize :: nat where "PublicKeySize = 32"
definition SignatureSize :: nat where "SignatureSize = 64"

definition ed25519_ok :: "ed25519_lib \<Rightarrow> bool" where
  "ed25519_ok ed \<longleftrightarrow> (\<forall>seed msg. length seed = SeedSize \<longrightarrow>
     length (Public ed (NewKeyFromSeed ed seed)) = PublicKeySize \<and>
     length (Sign ed (NewKeyFromSeed ed seed) msg) = SignatureSize \<and>
     Verify ed (Public ed (NewKeyFromSeed ed seed)) msg (Sign ed (NewKeyFromSeed ed seed) msg))"

text \<open>A keyed checksum that meets these laws, for concrete runs.\<close>

definition demo_sign :: "byte list \<Rightarrow> byte list \<Rightarrow> byte list" where
  "demo_sign key msg = take 32 key @ replicate 28 0 @ le_bytes 4 (sum_list (map ucast msg) :: u32)"

definition demo_ed :: ed25519_lib where
  "demo_ed = \<lparr>NewKeyFromSeed = (\<lambda>seed. seed @ seed), Public = drop 32, Sign = demo_sign,
     Verify = (\<lambda>pub msg sig. sig = demo_sign pub msg)\<rparr>"

lemma demo_ed_ok: "ed25519_ok demo_ed"
  by (simp add: ed25519_ok_def demo_ed_def demo_sign_def SeedSize_def PublicKeySize_def SignatureSize_def)

section \<open>The registry\<close>

record SatRecord =
  rec_SatID :: u32
  PubKeyHex :: string
  rec_Wallet :: string
  Role :: string

type_synonym registry = "u32 \<rightharpoonup> SatRecord"

definition FlatSatDemoSatID :: u32 where
  "FlatSatDemoSatID = 0xCAFEBABE"

definition FlatSatDemoWallet :: string where
  "FlatSatDemoWallet = ''0x70997970C51812dc3A010C7d01b50e0d17dc79C8''"

definition Initialize :: "registry \<Rightarrow> registry" where
  "Initialize db = db(
     100 \<mapsto> \<lparr>rec_SatID = 100,
       PubKeyHex = ''4822f97bc9e8746acc9b2401e21db1afba0212657ad4ae8ee9fd16964dd27d97'',
       rec_Wallet = ''0x1A2B3C4D5E6F7A8B9C0D1E2F3A4B5C6D7E8F9A0B'', Role = ''Seller''\<rparr>,
     101 \<mapsto> \<lparr>rec_SatID = 101,
       PubKeyHex = ''4102f95e145ccbaea5959f51cdf2e52e31b2de6bc19ae9ba1347f57e31549dd3'',
       rec_Wallet = ''0x9F8E7D6C5B4A39281706F5E4D3C2B1A09F8E7D6C'', Role = ''Mule''\<rparr>,
     FlatSatDemoSatID \<mapsto> \<lparr>rec_SatID = FlatSatDemoSatID, PubKeyHex = '''',
       rec_Wallet = FlatSatDemoWallet, Role = ''Seller''\<rparr>)"

definition GetSat :: "registry \<Rightarrow> u32 \<Rightarrow> SatRecord option" where
  "GetSat db i = db i"

datatype registry_error =
    SeedDecode hex_error
  | SeedLength nat
  | NotSeeded u32

definition LoadFlatSatDemoKey ::
    "ed25519_lib \<Rightarrow> string \<Rightarrow> registry \<Rightarrow> (registry_error, registry) outcome" where
  "LoadFlatSatDemoKey ed seedHex db =
     (case DecodeString seedHex of
        Err e \<Rightarrow> Err (SeedDecode e)
      | Panic \<Rightarrow> Panic
      | Ok seed \<Rightarrow>
          (if length seed \<noteq> SeedSize then Err (SeedLength (length seed))
           else let pub = Public ed (NewKeyFromSeed ed seed) in
             (case db FlatSatDemoSatID of
                None \<Rightarrow> Err (NotSeeded FlatSatDemoSatID)
              | Some r \<Rightarrow> Ok (db(FlatSatDemoSatID \<mapsto> r\<lparr>PubKeyHex := EncodeToString pub\<rparr>)))))"

section \<open>Signature verification\<close>

datatype verify_error =
    UnknownSatellite u32
  | PubKeyDecode u32 hex_error
  | PubKeyLength u32
  | InvalidSignature u32

definition VerifyPacketSignature ::
    "ed25519_lib \<Rightarrow> registry \<Rightarrow> u32 \<Rightarrow> byte list \<Rightarrow> byte list \<Rightarrow> (verify_error, unit) outcome" where
  "VerifyPacketSignature ed db satID msg sig =
     (case GetSat db satID of
        None \<Rightarrow> Err (UnknownSatellite satID)
      | Some r \<Rightarrow>
          (case DecodeString (PubKeyHex r) of
             Err e \<Rightarrow> Err (PubKeyDecode satID e)
           | Panic \<Rightarrow> Panic
           | Ok pub \<Rightarrow>
               if length pub \<noteq> PublicKeySize then Err (PubKeyLength satID)
               else if \<not> Verify ed pub msg sig then Err (InvalidSignature satID)
               else Ok ()))"

text \<open>The key a satellite is registered with, when it is a usable Ed25519 key.\<close>

definition registered_key :: "registry \<Rightarrow> u32 \<Rightarrow> byte list option" where
  "registered_key db satID =
     (case db satID of None \<Rightarrow> None
      | Some r \<Rightarrow> (case DecodeString (PubKeyHex r) of
          Ok pub \<Rightarrow> if length pub = PublicKeySize then Some pub else None
        | _ \<Rightarrow> None))"

lemma VerifyPacketSignature_Ok_iff:
  "VerifyPacketSignature ed db satID msg sig = Ok () \<longleftrightarrow>
     (\<exists>pub. registered_key db satID = Some pub \<and> Verify ed pub msg sig)"
  by (auto simp: VerifyPacketSignature_def GetSat_def registered_key_def split: option.splits outcome.splits)

lemma VerifyPacketSignature_not_Panic: "VerifyPacketSignature ed db satID msg sig \<noteq> Panic"
  by (auto simp: VerifyPacketSignature_def DecodeString_not_Panic split: option.splits outcome.splits)

lemma registered_key_length: "registered_key db satID = Some pub \<Longrightarrow> length pub = PublicKeySize"
  by (auto simp: registered_key_def split: option.splits outcome.splits if_splits)

lemma LoadFlatSatDemoKey_Initialize:
  assumes "DecodeString seedHex = Ok seed" and "length seed = SeedSize"
  shows "LoadFlatSatDemoKey ed seedHex (Initialize db) =
    Ok ((Initialize db)(FlatSatDemoSatID \<mapsto> (the (Initialize db FlatSatDemoSatID))
      \<lparr>PubKeyHex := EncodeToString (Public ed (NewKeyFromSeed ed seed))\<rparr>))"
  using assms by (simp add: LoadFlatSatDemoKey_def Initialize_def)

text \<open>Before the demo key is loaded, nothing signed for the flat-sat identity verifies.\<close>

lemma flat_sat_unverifiable_before_key:
  "VerifyPacketSignature ed (Initialize db) FlatSatDemoSatID msg sig = Err (PubKeyLength FlatSatDemoSatID)"
  by (simp add: VerifyPacketSignature_def GetSat_def Initialize_def PublicKeySize_def)

end
