(* ===== verification/Frame_Constants.thy ===== *)
theory Frame_Constants
  imports Void_Prelude
begin

text \<open>
  \<^verbatim>\<open>void_protocol/constants.go\<close>: the wire-format invariants that the handlers, the receipt builder
  and the packet generator share.
\<close>

definition CCSDSHeaderLen :: nat where "CCSDSHeaderLen = 6"
definition SNLPHeaderLen :: nat where "SNLPHeaderLen = 14"
definition PacketBBodyLen :: nat where "PacketBBodyLen = 178"
definition PacketBSigScopeBody :: nat where "PacketBSigScopeBody = 106"

lemmas frame_constants = CCSDSHeaderLen_def SNLPHeaderLen_def PacketBBodyLen_def PacketBSigScopeBody_def

end
