(* ===== verification/Receipt_Builder.thy ===== *)
theory Receipt_Builder
  imports Crc32 Frames Registry Frame_Constants
begin

text \<open>
  \<^verbatim>\<open>core/receipt/builder.go\<close>: the PacketC receipt frame.  A Go slice expression on the frame and a
  write through it are a read and a write of the frame at that offset; each index or slice that
  could be out of range is a branch to \<^verbatim>\<open>Panic\<close>.
\<close>

unbundle bit_operations_syntax

section \<open>Layout constants\<close>

definition PacketCFrameLen :: nat where "PacketCFrameLen = 112"
definition PacketCBodyStart :: nat where "PacketCBodyStart = SNLPHeaderLen"
definition PacketCExecTimeOff :: nat where "PacketCExecTimeOff = PacketCBodyStart + 2"
definition PacketCEncTxIDOff :: nat where "PacketCEncTxIDOff = PacketCExecTimeOff + 8"
definition PacketCEncStatusOff :: nat where "PacketCEncStatusOff = PacketCEncTxIDOff + 8"
definition PacketCSigScopeLen :: nat where "PacketCSigScopeLen = 26"
definition PacketCSignatureOff :: nat where "PacketCSignatureOff = PacketCBodyStart + PacketCSigScopeLen"
definition PacketCCRCOff :: nat where "PacketCCRCOff = PacketCSignatureOff + SignatureSize"
definition PacketCTailPadOff :: nat where "PacketCTailPadOff = PacketCCRCOff + 4"

lemmas packet_c_offsets = PacketCFrameLen_def PacketCBodyStart_def PacketCExecTimeOff_def
  PacketCEncTxIDOff_def PacketCEncStatusOff_def PacketCSigScopeLen_def PacketCSignatureOff_def
  PacketCCRCOff_def PacketCTailPadOff_def frame_constants SignatureSize_def

section \<open>Building a receipt\<close>

record inputs =
  ExecTimeMs :: u64
  EncTxID :: u64
  EncStatus :: byte
  APID :: u16
  in_SeqCount :: u16
  SeedEd25519 :: "byte list"

datatype build_error = SeedSizeMismatch nat

text \<open>The writes of \<^verbatim>\<open>writeSNLPHeader\<close>, in order; the last line only checks that index 13 exists.\<close>

definition writeSNLPHeader :: "u16 \<Rightarrow> u16 \<Rightarrow> int \<Rightarrow> byte list \<Rightarrow> ('e, byte list) outcome" where
  "writeSNLPHeader apid seqCount bodyLen dst =
     bind_ok (put_at 0 [0x1D] dst) (\<lambda>dst.
     bind_ok (put_at 1 [0x01] dst) (\<lambda>dst.
     bind_ok (put_at 2 [0xA5] dst) (\<lambda>dst.
     bind_ok (put_at 3 [0xA5] dst) (\<lambda>dst.
     let id = 0x0800 OR (apid AND 0x07FF) in
     bind_ok (put_at 4 [ucast (drop_bit 8 id)] dst) (\<lambda>dst.
     bind_ok (put_at 5 [ucast id] dst) (\<lambda>dst.
     let seq = 0xC000 OR (seqCount AND 0x3FFF) in
     bind_ok (put_at 6 [ucast (drop_bit 8 seq)] dst) (\<lambda>dst.
     bind_ok (put_at 7 [ucast seq] dst) (\<lambda>dst.
     let plen = (word_of_int (bodyLen - 1) :: u16) in
     bind_ok (put_at 8 [ucast (drop_bit 8 plen)] dst) (\<lambda>dst.
     bind_ok (put_at 9 [ucast plen] dst) (\<lambda>dst.
       if 13 < length dst then Ok dst else Panic))))))))))"

definition Build :: "ed25519_lib \<Rightarrow> inputs \<Rightarrow> (build_error, byte list) outcome" where
  "Build ed in' =
     (if length (SeedEd25519 in') \<noteq> SeedSize then Err (SeedSizeMismatch (length (SeedEd25519 in')))
      else let priv = NewKeyFromSeed ed (SeedEd25519 in'); frame = replicate PacketCFrameLen 0 in
        bind_ok (go_slice frame 0 (int SNLPHeaderLen)) (\<lambda>dst.
        bind_ok (writeSNLPHeader (APID in') (in_SeqCount in') (int PacketCFrameLen - int SNLPHeaderLen) dst) (\<lambda>hdr.
        bind_ok (put_at 0 hdr frame) (\<lambda>frame.
        bind_ok (put_at PacketCExecTimeOff (le_bytes 8 (ExecTimeMs in')) frame) (\<lambda>frame.
        bind_ok (put_at PacketCEncTxIDOff (le_bytes 8 (EncTxID in')) frame) (\<lambda>frame.
        bind_ok (put_at PacketCEncStatusOff [EncStatus in'] frame) (\<lambda>frame.
        bind_ok (go_slice frame (int PacketCBodyStart) (int (PacketCBodyStart + PacketCSigScopeLen))) (\<lambda>sigScope.
        let sig = Sign ed priv sigScope in
        bind_ok (go_slice frame (int PacketCSignatureOff) (int (PacketCSignatureOff + SignatureSize))) (\<lambda>room.
        bind_ok (put_at PacketCSignatureOff (take (length room) sig) frame) (\<lambda>frame.
        bind_ok (go_slice frame 0 (int PacketCCRCOff)) (\<lambda>covered.
        let crc = ChecksumIEEE covered in
          put_at PacketCCRCOff (le_bytes 4 crc) frame)))))))))))"

section \<open>The frame it builds\<close>

definition receipt_id :: "inputs \<Rightarrow> u16" where
  "receipt_id in' = 0x0800 OR (APID in' AND 0x07FF)"

definition receipt_seq :: "inputs \<Rightarrow> u16" where
  "receipt_seq in' = 0xC000 OR (in_SeqCount in' AND 0x3FFF)"

text \<open>What the signature covers, and the frame up to the CRC field.\<close>

definition receipt_scope :: "inputs \<Rightarrow> byte list" where
  "receipt_scope in' = [0, 0] @ le_bytes 8 (ExecTimeMs in') @ le_bytes 8 (EncTxID in') @ [EncStatus in'] @
     replicate 7 0"

definition receipt_sig :: "ed25519_lib \<Rightarrow> inputs \<Rightarrow> byte list" where
  "receipt_sig ed in' = Sign ed (NewKeyFromSeed ed (SeedEd25519 in')) (receipt_scope in')"

definition receipt_header :: "inputs \<Rightarrow> byte list" where
  "receipt_header in' = [29, 1, 165, 165] @ be_bytes 2 (receipt_id in') @ be_bytes 2 (receipt_seq in') @
     [0, 97, 0, 0, 0, 0]"

definition receipt_crc :: "ed25519_lib \<Rightarrow> inputs \<Rightarrow> u32" where
  "receipt_crc ed in' = ChecksumIEEE (receipt_header in' @ receipt_scope in' @ receipt_sig ed in')"

definition receipt_body :: "ed25519_lib \<Rightarrow> inputs \<Rightarrow> packet_c_body" where
  "receipt_body ed in' = \<lparr>pc_PadHead = [0, 0], pc_ExecTime = ExecTimeMs in', pc_EncTxId = EncTxID in',
     pc_EncStatus = EncStatus in', pc_PadSig = replicate 7 0, pc_Signature = \<lparr>sig_Raw = receipt_sig ed in'\<rparr>,
     pc_Crc32 = receipt_crc ed in', pc_TailPad = [0, 0, 0, 0]\<rparr>"

lemma be_bytes_2: "be_bytes 2 w = [ucast (drop_bit 8 w), ucast w]"
  by (simp add: be_bytes_def le_bytes_def numeral_2_eq_2)

lemma writeSNLPHeader_Ok:
  "writeSNLPHeader apid seqCount 98 (replicate 14 0)
     = Ok ([29, 1, 165, 165] @ be_bytes 2 (0x0800 OR (apid AND 0x07FF)) @
         be_bytes 2 (0xC000 OR (seqCount AND 0x3FFF)) @ [0, 97, 0, 0, 0, 0])"
proof -
  have zeros: "replicate 14 0 = [0, 0, 0, 0, 0, 0, 0, 0, 0, 0, 0, 0, 0, 0 :: byte]"
    by code_simp
  show ?thesis
    unfolding writeSNLPHeader_def Let_def be_bytes_2 zeros by (simp add: put_at_def)
qed

lemma length_receipt_parts [simp]:
  "length (receipt_header in') = 14" "length (receipt_scope in') = 26"
  by (simp_all add: receipt_header_def receipt_scope_def)

lemma length_receipt_sig [simp]:
  "ed25519_ok ed \<Longrightarrow> length (SeedEd25519 in') = SeedSize \<Longrightarrow> length (receipt_sig ed in') = 64"
  by (simp add: receipt_sig_def ed25519_ok_def SignatureSize_def)

lemma put_at_split:
  "length pre = off \<Longrightarrow> length old = length src \<Longrightarrow> put_at off src (pre @ old @ post) = Ok (pre @ src @ post)"
  by (auto simp: put_at_def)

lemma go_slice_mid:
  "go_slice (pre @ xs @ post) (int (length pre)) (int (length pre + length xs)) = Ok xs"
  by (simp add: go_slice_def seg_def nat_add_distrib)

lemma Build_bytes:
  assumes "ed25519_ok ed" and seed: "length (SeedEd25519 in') = SeedSize"
  shows "Build ed in' = Ok (receipt_header in' @ receipt_scope in' @ receipt_sig ed in' @
    le_bytes 4 (receipt_crc ed in') @ [0, 0, 0, 0])"
proof -
  let ?z = "\<lambda>n. replicate n (0 :: byte)"
  have hdr: "writeSNLPHeader (APID in') (in_SeqCount in') (112 - 14) (?z 14) = Ok (receipt_header in')"
    using writeSNLPHeader_Ok by (simp add: receipt_header_def receipt_id_def receipt_seq_def)
  let ?h = "receipt_header in'" and ?t = "le_bytes 8 (ExecTimeMs in')" and ?x = "le_bytes 8 (EncTxID in')"
  let ?g = "receipt_sig ed in'"
  note lens = length_receipt_sig [OF assms]
  have s0: "go_slice (?z 112) 0 14 = Ok (?z 14)"
    by (simp add: go_slice_def seg_def)
  have s1: "put_at 0 ?h (?z 112) = Ok (?h @ ?z 98)"
    by (simp add: put_at_def)
  have s2: "put_at 16 ?t (?h @ ?z 98) = Ok (?h @ ?z 2 @ ?t @ ?z 88)"
    by (simp add: put_at_def)
  have s3: "put_at 24 ?x (?h @ ?z 2 @ ?t @ ?z 88) = Ok (?h @ ?z 2 @ ?t @ ?x @ ?z 80)"
    by (simp add: put_at_def)
  have s4: "put_at 32 [EncStatus in'] (?h @ ?z 2 @ ?t @ ?x @ ?z 80) = Ok (?h @ receipt_scope in' @ ?z 72)"
    by (simp add: put_at_def receipt_scope_def numeral_2_eq_2 flip: replicate_add)
  have s5: "go_slice (?h @ receipt_scope in' @ ?z 72) 14 40 = Ok (receipt_scope in')"
    "go_slice (?h @ receipt_scope in' @ ?z 72) 40 104 = Ok (?z 64)"
    by (simp_all add: go_slice_def seg_def)
  have s6: "put_at 40 ?g (?h @ receipt_scope in' @ ?z 72) = Ok (?h @ receipt_scope in' @ ?g @ ?z 8)"
    by (simp add: put_at_def lens)
  have s7: "go_slice (?h @ receipt_scope in' @ ?g @ ?z 8) 0 104 = Ok (?h @ receipt_scope in' @ ?g)"
    by (simp add: go_slice_def seg_def lens)
  have s8: "put_at 104 (le_bytes 4 (receipt_crc ed in')) (?h @ receipt_scope in' @ ?g @ ?z 8)
      = Ok (?h @ receipt_scope in' @ ?g @ le_bytes 4 (receipt_crc ed in') @ ?z 4)"
    by (simp add: put_at_def lens)
  have z4: "?z 4 = [0, 0, 0, 0]" by code_simp
  have g: "take 64 (Sign ed (NewKeyFromSeed ed (SeedEd25519 in')) (receipt_scope in')) = ?g"
    using lens by (simp add: receipt_sig_def)
  show ?thesis
    by (simp add: Build_def seed packet_c_offsets Let_def s0 hdr [simplified] s1 s2 s3 s4 s5 g s6 s7
        s8 z4 flip: receipt_crc_def)
qed

lemma receipt_body_fits:
  "ed25519_ok ed \<Longrightarrow> length (SeedEd25519 in') = SeedSize \<Longrightarrow> fits_PacketCBody (receipt_body ed in')"
  by (simp add: fits_PacketCBody_def receipt_body_def)

lemma le_bytes_1: "le_bytes 1 (w :: byte) = [w]"
  by (simp add: le_bytes_def)

lemma encode_receipt_body:
  "encode_PacketCBody (receipt_body ed in')
     = receipt_scope in' @ receipt_sig ed in' @ le_bytes 4 (receipt_crc ed in') @ [0, 0, 0, 0]"
  by (simp add: encode_PacketCBody_def receipt_body_def receipt_scope_def le_bytes_1 [simplified])

lemma Build_frame:
  assumes "ed25519_ok ed" and "length (SeedEd25519 in') = SeedSize"
  shows "Build ed in' = Ok (frame_bytes True (receipt_id in') (receipt_seq in') (encode_PacketCBody (receipt_body ed in')))"
proof -
  have "be_bytes 2 (97 :: u16) = [0, 97]" by code_simp
  then show ?thesis
    using Build_bytes [OF assms] length_receipt_sig [OF assms]
    by (simp add: frame_bytes_def encode_receipt_body receipt_header_def length_word_def)
qed

text \<open>The header words of a receipt: version 0, telemetry, unsegmented.\<close>

lemma receipt_id_bits:
  "receipt_id in' AND 2047 = APID in' AND 2047"
  "drop_bit 13 (receipt_id in') AND 7 = 0"
  "drop_bit 12 (receipt_id in') AND 1 = 0"
proof -
  have b: "bit (2048 :: u16) n \<longleftrightarrow> n = 11" "bit (2047 :: u16) n \<longleftrightarrow> n < 11" "bit (7 :: u16) n \<longleftrightarrow> n < 3"
    "bit (1 :: u16) n \<longleftrightarrow> n = 0" for n
    using bit_exp_iff [where 'a = u16, of 11 n] bit_mask_iff [where 'a = u16, of 11 n]
      bit_mask_iff [where 'a = u16, of 3 n] bit_1_iff [where 'a = u16, of n]
    by (auto simp: mask_eq_exp_minus_1)
  show "receipt_id in' AND 2047 = APID in' AND 2047"
    unfolding receipt_id_def by (rule bit_word_eqI) (auto simp: bit_simps b simp del: bit_numeral_word_iff)
  show "drop_bit 13 (receipt_id in') AND 7 = 0" "drop_bit 12 (receipt_id in') AND 1 = 0"
    unfolding receipt_id_def by (rule bit_word_eqI, auto simp: bit_simps b simp del: bit_numeral_word_iff)+
qed

lemma receipt_seq_bits:
  "receipt_seq in' AND 16383 = in_SeqCount in' AND 16383"
  "drop_bit 14 (receipt_seq in') AND 3 = 3"
proof -
  have b: "bit (16383 :: u16) n \<longleftrightarrow> n < 14" "bit (3 :: u16) n \<longleftrightarrow> n < 2" for n
    using bit_mask_iff [where 'a = u16, of 14 n] bit_mask_iff [where 'a = u16, of 2 n]
    by (auto simp: mask_eq_exp_minus_1)
  have "(49152 :: u16) = push_bit 14 3" by code_simp
  then have b': "bit (49152 :: u16) n \<longleftrightarrow> n = 14 \<or> n = 15" for n
    by (simp only: bit_simps b) auto
  show "receipt_seq in' AND 16383 = in_SeqCount in' AND 16383"
    unfolding receipt_seq_def by (rule bit_word_eqI) (auto simp: bit_simps b b' simp del: bit_numeral_word_iff)
  show "drop_bit 14 (receipt_seq in') AND 3 = 3"
    unfolding receipt_seq_def by (rule bit_word_eqI) (auto simp: bit_simps b b' simp del: bit_numeral_word_iff)
qed

lemma receipt_frame_parts:
  assumes "ed25519_ok ed" and "length (SeedEd25519 in') = SeedSize"
  defines "frame \<equiv> frame_bytes True (receipt_id in') (receipt_seq in') (encode_PacketCBody (receipt_body ed in'))"
  shows "length frame = 112" and "seg frame 14 40 = receipt_scope in'"
    and "ValidateFrameCRC32 frame (int PacketCCRCOff) = Ok ()"
proof -
  have eq: "frame = (receipt_header in' @ receipt_scope in' @ receipt_sig ed in') @
      le_bytes 4 (receipt_crc ed in') @ [0, 0, 0, 0]"
    using Build_frame [OF assms(1,2)] Build_bytes [OF assms(1,2)] by (simp add: frame_def)
  show "length frame = 112" "seg frame 14 40 = receipt_scope in'"
    unfolding eq by (simp_all add: length_receipt_sig [OF assms(1,2)] seg_def)
  show "ValidateFrameCRC32 frame (int PacketCCRCOff) = Ok ()"
    unfolding eq receipt_crc_def
    using ValidateFrameCRC32_self [of "receipt_header in' @ receipt_scope in' @ receipt_sig ed in'" "[0, 0, 0, 0]"]
    by (simp add: length_receipt_sig [OF assms(1,2)] packet_c_offsets)
qed

lemma receipt_header_values:
  fixes in' :: inputs
  assumes "length body = 98"
  defines "c \<equiv> snd (DataFieldLength (frame_words (receipt_id in') (receipt_seq in') body))"
  shows "fst (Apid c) = uint (APID in' AND 2047) \<and> fst (SeqCount c) = uint (in_SeqCount in' AND 16383) \<and>
    fst (PacketType c) = 0 \<and> fst (Version c) = 0 \<and> fst (SeqFlags c) = 3 \<and> fst (DataFieldLength c) = 98"
proof -
  let ?w = "frame_words (receipt_id in') (receipt_seq in') body"
  have ok: "memo_ok c" "wire_words c = (receipt_id in', receipt_seq in', 97)"
    using data_length.acc_inv [of ?w] data_length.acc_core [of ?w]
    by (simp_all add: c_def frame_words_def length_word_def assms)
  show ?thesis
    using apid.acc_value [OF ok(1)] seq_count.acc_value [OF ok(1)] packet_type.acc_value [OF ok(1)]
      version_nr.acc_value [OF ok(1)] seq_flags.acc_value [OF ok(1)] data_length.acc_value [OF ok(1)]
    by (simp add: ok(2) receipt_id_bits receipt_seq_bits)
qed

lemma Build_frame_accepted:
  assumes "ed25519_ok ed" and "kaitai_stream k view"
  shows "if length (SeedEd25519 in') = SeedSize
    then \<exists>frame obj s b c. Build ed in' = Ok frame \<and> length frame = PacketCFrameLen \<and>
      parse_frame k frame = Ok (obj, s) \<and> view s = (frame, PacketCFrameLen) \<and>
      Body obj = PacketCBody b \<and> pc_ExecTime b = ExecTimeMs in' \<and> pc_EncTxId b = EncTxID in' \<and>
      pc_EncStatus b = EncStatus in' \<and> pc_PadHead b = [0, 0] \<and> pc_PadSig b = replicate 7 0 \<and>
      RoutingHeader obj = SnlpHeader \<lparr>SyncWord = [29, 1, 165, 165], Ccsds = c, AlignPad = 0\<rparr> \<and>
      fst (Apid c) = uint (APID in' AND 2047) \<and> fst (SeqCount c) = uint (in_SeqCount in' AND 16383) \<and>
      fst (PacketType c) = 0 \<and> fst (Version c) = 0 \<and> fst (SeqFlags c) = 3 \<and> fst (DataFieldLength c) = 98 \<and>
      ValidateFrameCRC32 frame (int PacketCCRCOff) = Ok () \<and>
      Verify ed (Public ed (NewKeyFromSeed ed (SeedEd25519 in'))) (seg frame 14 40) (sig_Raw (pc_Signature b))
    else Build ed in' = Err (SeedSizeMismatch (length (SeedEd25519 in')))"
proof (cases "length (SeedEd25519 in') = SeedSize")
  case False
  then show ?thesis by (simp add: Build_def)
next
  case True
  let ?b = "receipt_body ed in'" and ?v = "receipt_id in'" and ?q = "receipt_seq in'"
  let ?body = "encode_PacketCBody ?b"
  let ?frame = "frame_bytes True ?v ?q ?body" and ?w = "frame_words ?v ?q ?body"
  let ?c = "snd (DataFieldLength ?w)"
  have len: "length ?body = 98"
    using packet_c_body_layout.length_enc [OF receipt_body_fits [OF assms(1) True]] .
  have dec: "decode_frame ?frame = Some (True, ?w, ?body, PacketCBody ?b)"
    using decode_frame_frame_bytes [of True ?v ?q ?body] len
      packet_c_body_layout.dec_enc [OF receipt_body_fits [OF assms(1) True]]
    by (simp add: tier_ok_def decode_body_def)
  obtain s where s: "parse_frame k ?frame = Ok (parsed_object (be_word (take 4 ?frame)) ?w ?body (PacketCBody ?b), s)"
    "view s = (?frame, 14 + body_len ?w)" "be_word (take 4 ?frame) = (486647205 :: u32)"
    using parse_frame_of_decode [OF assms(2) dec] by (auto simp: header_len_def)
  note acc = receipt_header_values [OF len, of in']
  have hdr: "RoutingHeader (parsed_object (be_word (take 4 ?frame)) ?w ?body (PacketCBody ?b))
      = SnlpHeader \<lparr>SyncWord = [29, 1, 165, 165], Ccsds = ?c, AlignPad = 0\<rparr>"
    by (simp add: s(3) header_object_def)
  have ver: "Verify ed (Public ed (NewKeyFromSeed ed (SeedEd25519 in'))) (receipt_scope in') (receipt_sig ed in')"
    using assms(1) True by (simp add: ed25519_ok_def receipt_sig_def)
  have fields: "pc_ExecTime ?b = ExecTimeMs in'" "pc_EncTxId ?b = EncTxID in'" "pc_EncStatus ?b = EncStatus in'"
    "pc_PadHead ?b = [0, 0]" "pc_PadSig ?b = replicate 7 0" "sig_Raw (pc_Signature ?b) = receipt_sig ed in'"
    by (simp_all add: receipt_body_def)
  have bl: "body_len ?w = 98" using body_len_frame_words [of ?body ?v ?q] len by simp
  show ?thesis
    unfolding if_P [OF True] PacketCFrameLen_def
    apply (rule exI [of _ ?frame])
    apply (rule exI [of _ "parsed_object (be_word (take 4 ?frame)) ?w ?body (PacketCBody ?b)"])
    apply (rule exI [of _ s])
    apply (rule exI [of _ ?b])
    apply (rule exI [of _ ?c])
    using s(1,2) acc hdr ver fields bl receipt_frame_parts [OF assms(1) True] Build_frame [OF assms(1) True]
    by (simp only: parsed_object_simps) simp
qed

section \<open>Properties\<close>

text \<open>
  C27.  Every receipt the gateway builds is one its own parser and gates accept.  With a 32-byte seed
  \<^verbatim>\<open>Build\<close> returns a frame of 112 bytes; the parser reads it as an SNLP PacketC with the execution
  time, transaction id and status that were given and zero padding, application id and sequence
  count masked to their 11 and 14 bits, type 0, version 0 and body length 98; the CRC gate passes at
  the CRC offset; and the signature in the body verifies under the seed's public key over the first
  26 body bytes.  With a seed of any other length it returns the seed error, and it never panics.
\<close>

theorem Build_receipt_accepted:
  assumes "ed25519_ok ed" and "kaitai_stream k view"
  shows "if length (SeedEd25519 in') = SeedSize
    then \<exists>frame obj s b c. Build ed in' = Ok frame \<and> length frame = PacketCFrameLen \<and>
      parse_frame k frame = Ok (obj, s) \<and> view s = (frame, PacketCFrameLen) \<and>
      Body obj = PacketCBody b \<and> pc_ExecTime b = ExecTimeMs in' \<and> pc_EncTxId b = EncTxID in' \<and>
      pc_EncStatus b = EncStatus in' \<and> pc_PadHead b = [0, 0] \<and> pc_PadSig b = replicate 7 0 \<and>
      RoutingHeader obj = SnlpHeader \<lparr>SyncWord = [29, 1, 165, 165], Ccsds = c, AlignPad = 0\<rparr> \<and>
      fst (Apid c) = uint (APID in' AND 2047) \<and> fst (SeqCount c) = uint (in_SeqCount in' AND 16383) \<and>
      fst (PacketType c) = 0 \<and> fst (Version c) = 0 \<and> fst (SeqFlags c) = 3 \<and> fst (DataFieldLength c) = 98 \<and>
      ValidateFrameCRC32 frame (int PacketCCRCOff) = Ok () \<and>
      Verify ed (Public ed (NewKeyFromSeed ed (SeedEd25519 in'))) (seg frame 14 40) (sig_Raw (pc_Signature b))
    else Build ed in' = Err (SeedSizeMismatch (length (SeedEd25519 in')))"
  by (rule Build_frame_accepted [OF assms])

definition demo_inputs :: inputs where
  "demo_inputs = \<lparr>ExecTimeMs = 1700000000000, EncTxID = 77, EncStatus = 1, APID = 100, in_SeqCount = 5,
     SeedEd25519 = replicate 32 9\<rparr>"

theorem Build_receipt_accepted_witness:
  "\<exists>frame obj s b. Build demo_ed demo_inputs = Ok frame \<and> length frame = PacketCFrameLen \<and>
     parse_frame bytes_rt frame = Ok (obj, s) \<and> Body obj = PacketCBody b \<and> pc_ExecTime b = 1700000000000 \<and>
     ValidateFrameCRC32 frame (int PacketCCRCOff) = Ok ()"
proof -
  have "length (SeedEd25519 demo_inputs) = SeedSize" "ExecTimeMs demo_inputs = 1700000000000"
    by (simp_all add: demo_inputs_def SeedSize_def)
  with Build_receipt_accepted [OF demo_ed_ok bytes_stream.kaitai_stream_axioms, of demo_inputs]
  show ?thesis by auto
qed

end
