(* ===== verification/Chain_Client.thy ===== *)
theory Chain_Client
  imports Go_Strings
begin

text \<open>
  \<^verbatim>\<open>core/chain/client.go\<close>: the settlement intent, the derivation of the on-chain nonce and the
  client that submits a batch.  The parts of go-ethereum the package calls (address and hash text
  forms, key parsing, \<^verbatim>\<open>bind.BoundContract.Transact\<close>) are parameters.
\<close>

unbundle bit_operations_syntax

section \<open>go-ethereum as a parameter\<close>

type_synonym address = "byte list"
type_synonym txhash = "byte list"

record eth_lib =
  HexToAddress :: "string \<Rightarrow> address"
  BytesToAddress :: "byte list \<Rightarrow> address"
  Address_Hex :: "address \<Rightarrow> string"
  Hash_Hex :: "txhash \<Rightarrow> string"

text \<open>\<^verbatim>\<open>common.Hash.Hex\<close> is the prefixed lower-case hexadecimal form.\<close>

definition eth_ok :: "eth_lib \<Rightarrow> bool" where
  "eth_ok eth \<longleftrightarrow> (\<forall>h. Hash_Hex eth h = ''0x'' @ EncodeToString h)"

definition last_20 :: "byte list \<Rightarrow> address" where
  "last_20 bs = replicate (20 - length bs) 0 @ drop (length bs - 20) bs"

lemma length_last_20 [simp]: "length (last_20 bs) = 20"
  by (simp add: last_20_def)

definition demo_eth :: eth_lib where
  "demo_eth = \<lparr>HexToAddress = (\<lambda>s. case DecodeString (drop 2 s) of Ok bs \<Rightarrow> last_20 bs | _ \<Rightarrow> last_20 []),
     BytesToAddress = last_20,
     Address_Hex = (\<lambda>a. ''0x'' @ EncodeToString a), Hash_Hex = (\<lambda>h. ''0x'' @ EncodeToString h)\<rparr>"

lemma demo_eth_ok: "eth_ok demo_eth"
  by (simp add: eth_ok_def demo_eth_def)

lemma Hash_Hex_inject: "eth_ok eth \<Longrightarrow> Hash_Hex eth h = Hash_Hex eth h' \<longleftrightarrow> h = h'"
  by (simp add: eth_ok_def EncodeToString_inject)

section \<open>Settlement intents\<close>

record settlement_intent =
  in_SatId :: u32
  in_Amount :: nat
  in_AssetId :: u16
  in_TxNonce :: nat
  in_Wallet :: address

text \<open>\<^verbatim>\<open>math/big\<close> integers here are non-negative: \<^verbatim>\<open>SetUint64\<close>, \<^verbatim>\<open>Lsh\<close> and \<^verbatim>\<open>Or\<close> on \<^typ>\<open>nat\<close>.\<close>

definition DeriveTxNonce :: "u32 \<Rightarrow> u64 \<Rightarrow> nat" where
  "DeriveTxNonce satID epochTsMs = push_bit 64 (unat satID) OR unat epochTsMs"

text \<open>\<^verbatim>\<open>(*big.Int).Uint64\<close>: the low 64 bits.\<close>

definition Uint64 :: "nat \<Rightarrow> u64" where
  "Uint64 n = word_of_nat n"

lemma unat_u32_less: "unat (w :: u32) < 2 ^ 32"
  using unsigned_less [where 'a = nat, of w] by simp

lemma unat_u64_less: "unat (w :: u64) < 2 ^ 64"
  using unsigned_less [where 'a = nat, of w] by simp

lemma push_bit_or_disjoint: "b < 2 ^ n \<Longrightarrow> push_bit n a OR b = a * 2 ^ n + (b :: nat)"
proof -
  assume "b < 2 ^ n"
  then have b: "take_bit n b = b"
    by (simp add: take_bit_nat_eq_self)
  have "push_bit n a OR take_bit n b = push_bit n a + take_bit n b"
    by (rule disjunctive_add_eq_or [symmetric], rule bit_eqI) (auto simp: bit_simps)
  with b show ?thesis
    by (simp add: push_bit_eq_mult)
qed

lemma DeriveTxNonce_arith: "DeriveTxNonce satID ts = unat satID * 2 ^ 64 + unat ts"
  unfolding DeriveTxNonce_def by (rule push_bit_or_disjoint) (rule unat_u64_less)

lemma DeriveTxNonce_less: "DeriveTxNonce s t < 2 ^ 96"
proof -
  have "unat s \<le> 2 ^ 32 - 1"
    using unat_u32_less [of s] by simp
  then have "unat s * 2 ^ 64 \<le> (2 ^ 32 - 1) * 2 ^ 64"
    by (rule mult_le_mono1)
  with unat_u64_less [of t] show ?thesis
    unfolding DeriveTxNonce_arith by simp
qed

lemma Uint64_DeriveTxNonce: "Uint64 (DeriveTxNonce s t) = t"
proof -
  have "unat (Uint64 (DeriveTxNonce s t)) = unat t"
    unfolding Uint64_def DeriveTxNonce_arith unat_of_nat
    using unat_u64_less [of t] by simp
  then show ?thesis by (simp only: word_unat_eq_iff)
qed

section \<open>Submitting a batch\<close>

datatype settle_error = EmptyBatch | Transact string

text \<open>
  \<^verbatim>\<open>c.contract.Transact(&opts, "settleBatch", intents)\<close> is the parameter \<^verbatim>\<open>transact\<close>, run on a world
  that stands for the chain behind the RPC endpoint.
\<close>

type_synonym 'w transactor = "settlement_intent list \<Rightarrow> 'w \<Rightarrow> (string + txhash) \<times> 'w"

definition SettleBatch ::
    "'w transactor \<Rightarrow> settlement_intent list \<Rightarrow> 'w \<Rightarrow> (settle_error + txhash) \<times> 'w" where
  "SettleBatch transact intents w =
     (if intents = [] then (Inl EmptyBatch, w)
      else case transact intents w of
        (Inr h, w') \<Rightarrow> (Inr h, w')
      | (Inl e, w') \<Rightarrow> (Inl (Transact e), w'))"

section \<open>Building the client\<close>

record 'auth escrow_client =
  ec_address :: address
  ec_transactor :: 'auth

datatype client_error = ParsePrivateKey string | BuildTransactor string

definition TrimPrefix :: "string \<Rightarrow> string \<Rightarrow> string" where
  "TrimPrefix pre s = (if take (length pre) s = pre then drop (length pre) s else s)"

definition NewEscrowClient ::
    "(string \<Rightarrow> (string, 'key) outcome) \<Rightarrow> ('key \<Rightarrow> nat \<Rightarrow> (string, 'auth) outcome) \<Rightarrow>
     address \<Rightarrow> string \<Rightarrow> nat \<Rightarrow> (client_error, 'auth escrow_client) outcome" where
  "NewEscrowClient hexToECDSA newTransactor contractAddr privKeyHex chainID =
     (case hexToECDSA (TrimPrefix ''0x'' privKeyHex) of
        Err e \<Rightarrow> Err (ParsePrivateKey e)
      | Panic \<Rightarrow> Panic
      | Ok key \<Rightarrow>
          (case newTransactor key chainID of
             Err e \<Rightarrow> Err (BuildTransactor e)
           | Panic \<Rightarrow> Panic
           | Ok auth \<Rightarrow> Ok \<lparr>ec_address = contractAddr, ec_transactor = auth\<rparr>))"

lemma NewEscrowClient_prefix_irrelevant:
  "take 2 s \<noteq> ''0x'' \<Longrightarrow> NewEscrowClient p t a (''0x'' @ s) c = NewEscrowClient p t a s c"
  by (simp add: NewEscrowClient_def TrimPrefix_def numeral_2_eq_2)

definition Address :: "'auth escrow_client \<Rightarrow> address" where
  "Address c = ec_address c"

text \<open>\<^verbatim>\<open>WaitForReceipt\<close> hands the question on to the backend.\<close>

definition WaitForReceipt ::
    "(txhash \<Rightarrow> 'w \<Rightarrow> (string + 'receipt) \<times> 'w) \<Rightarrow> txhash \<Rightarrow> 'w \<Rightarrow> (string + 'receipt) \<times> 'w" where
  "WaitForReceipt transactionReceipt txHash w = transactionReceipt txHash w"

section \<open>The embedded contract\<close>

text \<open>
  The package's \<^verbatim>\<open>init\<close>: the embedded ABI is parsed by the parameter \<^verbatim>\<open>abiJSON\<close>, the embedded bytecode is
  trimmed of white space and a prefix and decoded; on a failure the package panics.
\<close>

definition is_space :: "char \<Rightarrow> bool" where
  "is_space ch \<longleftrightarrow> (let n = of_char ch :: nat in 9 \<le> n \<and> n \<le> 13 \<or> n = 32)"

definition TrimSpace :: "string \<Rightarrow> string" where
  "TrimSpace s = rev (dropWhile is_space (rev (dropWhile is_space s)))"

definition init :: "(string \<Rightarrow> string + 'abi) \<Rightarrow> string \<Rightarrow> string \<Rightarrow> (unit, 'abi \<times> byte list) outcome" where
  "init abiJSON escrowABIJSON escrowBytecodeHex =
     (case abiJSON escrowABIJSON of
        Inl e \<Rightarrow> Panic
      | Inr parsed \<Rightarrow>
          (case DecodeString (TrimPrefix ''0x'' (TrimSpace escrowBytecodeHex)) of
             Ok raw \<Rightarrow> Ok (parsed, raw)
           | _ \<Rightarrow> Panic))"

lemma hex_char_not_space: "n < 16 \<Longrightarrow> \<not> is_space (hex_char n)"
  by (auto simp: is_space_def hex_char_def Let_def)

lemma EncodeToString_not_space: "ch \<in> set (EncodeToString bs) \<Longrightarrow> \<not> is_space ch"
proof -
  have "unat b div 16 < 16" for b :: byte
    using unsigned_less [where 'a = nat, of b] by simp
  then show "ch \<in> set (EncodeToString bs) \<Longrightarrow> \<not> is_space ch"
    using hex_char_not_space by (auto simp: EncodeToString_def)
qed

lemma TrimSpace_trailing:
  assumes "list_all is_space sp" and "\<forall>ch \<in> set s. \<not> is_space ch"
  shows "TrimSpace (s @ sp) = s"
proof -
  have none: "dropWhile is_space (rev s) = rev s" using assms(2) by (cases "rev s") (auto simp: dropWhile_eq_self_iff)
  have gone: "dropWhile is_space (rev sp @ xs) = dropWhile is_space xs" for xs
    using assms(1) by (intro dropWhile_append2) (simp add: list_all_iff)
  have all: "dropWhile is_space sp = []" using assms(1) by (simp add: list_all_iff)
  show ?thesis
  proof (cases s)
    case Nil
    show ?thesis unfolding TrimSpace_def Nil append_Nil all by simp
  next
    case (Cons ch t)
    with assms(2) have "dropWhile is_space (s @ sp) = s @ sp" by simp
    then show ?thesis by (simp add: TrimSpace_def gone none)
  qed
qed

text \<open>Bytecode that was written in hexadecimal, with the prefix and a line end, is read back.\<close>

lemma init_bytecode:
  assumes "abiJSON j = Inr a" and "list_all is_space sp"
  shows "init abiJSON j (''0x'' @ EncodeToString code @ sp) = Ok (a, code)"
proof -
  have "\<forall>ch \<in> set (''0x'' @ EncodeToString code). \<not> is_space ch"
    using EncodeToString_not_space by (auto simp: is_space_def)
  then have "TrimSpace ((''0x'' @ EncodeToString code) @ sp) = ''0x'' @ EncodeToString code"
    by (rule TrimSpace_trailing [OF assms(2)])
  then show ?thesis
    using assms(1) by (simp add: init_def TrimPrefix_def DecodeString_EncodeToString)
qed

section \<open>Properties\<close>

text \<open>
  The on-chain nonce packs the satellite identity and the timestamp without loss: it is
  \<^verbatim>\<open>sat_id * 2^64 + epoch_ts\<close>, fits 96 bits, determines both parts, and its low 64 bits (the
  correlation token that the receipt carries back to the seller) are the timestamp.
\<close>

lemma DeriveTxNonce_packs:
  "DeriveTxNonce s t = unat s * 2 ^ 64 + unat t \<and> DeriveTxNonce s t < 2 ^ 96 \<and>
   Uint64 (DeriveTxNonce s t) = t \<and>
   (DeriveTxNonce s t = DeriveTxNonce s' t' \<longleftrightarrow> s = s' \<and> t = t')"
proof (intro conjI)
  show "DeriveTxNonce s t = unat s * 2 ^ 64 + unat t" by (rule DeriveTxNonce_arith)
  show "DeriveTxNonce s t < 2 ^ 96" by (rule DeriveTxNonce_less)
  show "Uint64 (DeriveTxNonce s t) = t" by (rule Uint64_DeriveTxNonce)
  have low: "DeriveTxNonce a b mod 2 ^ 64 = unat b" "DeriveTxNonce a b div 2 ^ 64 = unat a" for a b
    using unat_u64_less [of b] by (simp_all add: DeriveTxNonce_arith)
  show "DeriveTxNonce s t = DeriveTxNonce s' t' \<longleftrightarrow> s = s' \<and> t = t'"
  proof
    assume eq: "DeriveTxNonce s t = DeriveTxNonce s' t'"
    have "unat t = unat t'" and "unat s = unat s'"
      using low [of s t] low [of s' t'] unfolding eq by (simp_all only:)
    then show "s = s' \<and> t = t'"
      by (simp only: word_unat_eq_iff)
  qed auto
qed

end
