(* ===== verification/Watcher.thy ===== *)
theory Watcher
  imports Chain_Client
begin

text \<open>
  \<^verbatim>\<open>core/chain/watcher.go\<close>: the polling watcher for \<^verbatim>\<open>Escrow.SettlementCreated\<close> logs: its cursor,
  one poll, the decoding of a log and the run loop.  The RPC client behind \<^verbatim>\<open>EventFilterer\<close> is a
  parameter whose calls thread a world, because the chain moves on between calls.
\<close>

section \<open>Logs and events\<close>

record eth_log =
  log_Topics :: "byte list list"
  log_Data :: "byte list"
  log_TxHash :: txhash
  log_BlockNumber :: u64
  log_Index :: nat

record settlement_event =
  ev_SatID :: u32
  ev_Amount :: nat
  ev_TxNonce :: nat
  ev_Wallet :: address
  ev_TxHash :: txhash
  ev_BlockNumber :: u64
  ev_BlockTimeSec :: u64

text \<open>\<^verbatim>\<open>new(big.Int).SetBytes\<close>: the bytes as a big-endian number.\<close>

definition SetBytes :: "byte list \<Rightarrow> nat" where
  "SetBytes bs = foldl (\<lambda>v b. 256 * v + unat b) 0 bs"

lemma SetBytes_snoc: "SetBytes (bs @ [b]) = 256 * SetBytes bs + unat b"
  by (simp add: SetBytes_def)

lemma SetBytes_less: "SetBytes bs < 256 ^ length bs"
proof (induction bs rule: rev_induct)
  case Nil
  then show ?case by (simp add: SetBytes_def)
next
  case (snoc b bs)
  have "unat b < 256" using unsigned_less [where 'a = nat, of b] by simp
  moreover have "SetBytes bs + 1 \<le> 256 ^ length bs" using snoc by simp
  ultimately have "256 * SetBytes bs + unat b < 256 * (SetBytes bs + 1)" by simp
  also have "\<dots> \<le> 256 * 256 ^ length bs" using snoc by simp
  finally show ?case by (simp add: SetBytes_snoc)
qed

datatype decode_error = TopicCount nat | DataLength nat

text \<open>A topic is a \<^verbatim>\<open>common.Hash\<close>, 32 bytes: \<^verbatim>\<open>satTopic[HashLength-4:]\<close> is the last four.\<close>

definition decodeSettlementCreated :: "eth_lib \<Rightarrow> eth_log \<Rightarrow> decode_error + settlement_event" where
  "decodeSettlementCreated eth l =
     (if length (log_Topics l) \<noteq> 4 then Inl (TopicCount (length (log_Topics l)))
      else let satID = be_word (seg (log_Topics l ! 1) 28 32);
               txNonce = SetBytes (log_Topics l ! 2);
               wallet = BytesToAddress eth (log_Topics l ! 3)
        in if length (log_Data l) \<noteq> 32 then Inl (DataLength (length (log_Data l)))
           else Inr \<lparr>ev_SatID = satID, ev_Amount = SetBytes (log_Data l), ev_TxNonce = txNonce,
             ev_Wallet = wallet, ev_TxHash = log_TxHash l, ev_BlockNumber = log_BlockNumber l,
             ev_BlockTimeSec = 0\<rparr>)"

section \<open>The watcher\<close>

record 'c event_filterer =
  BlockNumber :: "'c \<Rightarrow> (string + u64) \<times> 'c"
  FilterLogs :: "u64 \<Rightarrow> u64 \<Rightarrow> address \<Rightarrow> byte list \<Rightarrow> 'c \<Rightarrow> (string + eth_log list) \<times> 'c"
  HeaderByNumber :: "u64 \<Rightarrow> 'c \<Rightarrow> (string + u64) \<times> 'c"

record watcher =
  w_contract :: address
  w_interval :: int
  eventTopic :: "byte list"
  nextBlock :: u64

definition DefaultWatchInterval :: int where
  "DefaultWatchInterval = 2000000000"

datatype watcher_error =
    MissingEventABI
  | RpcBlockNumber string
  | RpcFilterLogs string
  | DecodeLog txhash nat decode_error
  | RpcHeader u64 string
  | ContextDone

text \<open>The event id is looked up in the parsed ABI of the contract, which is embedded data.\<close>

definition NewWatcher ::
    "(string \<rightharpoonup> byte list) \<Rightarrow> address \<Rightarrow> u64 \<Rightarrow> int \<Rightarrow> (watcher_error, watcher) outcome" where
  "NewWatcher abiEvents contractAddr fromBlock iv =
     (case abiEvents ''SettlementCreated'' of
        None \<Rightarrow> Err MissingEventABI
      | Some ev \<Rightarrow> Ok \<lparr>w_contract = contractAddr,
          w_interval = (if iv \<le> 0 then DefaultWatchInterval else iv),
          eventTopic = ev, nextBlock = fromBlock\<rparr>)"

text \<open>
  The loop over the logs of one poll: it stops at the first log it cannot decode or whose block
  header it cannot fetch, and returns the events gathered so far beside the error.
\<close>

fun poll_logs ::
    "eth_lib \<Rightarrow> 'c event_filterer \<Rightarrow> u64 \<Rightarrow> eth_log list \<Rightarrow> settlement_event list \<Rightarrow> u64 \<Rightarrow> 'c \<Rightarrow>
     settlement_event list \<times> watcher_error option \<times> u64 \<times> 'c" where
  "poll_logs eth cl next [] events highest c = (events, None, highest, c)"
| "poll_logs eth cl next (l # ls) events highest c =
     (case decodeSettlementCreated eth l of
        Inr ev \<Rightarrow>
          (if next \<le> ev_BlockNumber ev
           then (case HeaderByNumber cl (ev_BlockNumber ev) c of
                   (Inl e, c') \<Rightarrow> (events, Some (RpcHeader (ev_BlockNumber ev) e), highest, c')
                 | (Inr t, c') \<Rightarrow>
                     poll_logs eth cl next ls (events @ [ev\<lparr>ev_BlockTimeSec := t\<rparr>])
                       (if highest < ev_BlockNumber ev then ev_BlockNumber ev else highest) c')
           else poll_logs eth cl next ls (events @ [ev])
                  (if highest < ev_BlockNumber ev then ev_BlockNumber ev else highest) c)
      | Inl e \<Rightarrow> (events, Some (DecodeLog (log_TxHash l) (log_Index l) e), highest, c))"

definition Poll ::
    "eth_lib \<Rightarrow> 'c event_filterer \<Rightarrow> watcher \<Rightarrow> 'c \<Rightarrow>
     (settlement_event list \<times> watcher_error option) \<times> watcher \<times> 'c" where
  "Poll eth cl w c =
     (case BlockNumber cl c of
        (Inl e, c1) \<Rightarrow> (([], Some (RpcBlockNumber e)), w, c1)
      | (Inr head, c1) \<Rightarrow>
          (if head < nextBlock w then (([], None), w, c1)
           else (case FilterLogs cl (nextBlock w) head (w_contract w) (eventTopic w) c1 of
                   (Inl e, c2) \<Rightarrow> (([], Some (RpcFilterLogs e)), w, c2)
                 | (Inr logs, c2) \<Rightarrow>
                     (if logs = [] then (([], None), w, c2)
                      else (case poll_logs eth cl (nextBlock w) logs [] (nextBlock w) c2 of
                              (events, None, highest, c3) \<Rightarrow>
                                ((events, None), w\<lparr>nextBlock := highest + 1\<rparr>, c3)
                            | (events, Some e, highest, c3) \<Rightarrow> ((events, Some e), w, c3))))))"

text \<open>
  \<^verbatim>\<open>Run\<close>: poll, hand every event to the handler, wait for the ticker.  The environment is the
  number of ticks before the \<^verbatim>\<open>select\<close> sees the context done, whose error \<^verbatim>\<open>Run\<close> then returns; an
  error of a poll ends the loop, and the events that poll had gathered are not handled.
\<close>

fun Run ::
    "eth_lib \<Rightarrow> 'c event_filterer \<Rightarrow> (settlement_event \<Rightarrow> 'h \<Rightarrow> 'h) \<Rightarrow> nat \<Rightarrow> watcher \<Rightarrow> 'c \<Rightarrow> 'h \<Rightarrow>
     watcher_error option \<times> watcher \<times> 'c \<times> 'h" where
  "Run eth cl handler ticks w c h =
     (case Poll eth cl w c of
        ((events, Some e), w', c') \<Rightarrow> (Some e, w', c', h)
      | ((events, None), w', c') \<Rightarrow>
          (case ticks of
             0 \<Rightarrow> (Some ContextDone, w', c', fold handler events h)
           | Suc n \<Rightarrow> Run eth cl handler n w' c' (fold handler events h)))"

declare Run.simps [simp del]

definition NextBlock :: "watcher \<Rightarrow> u64" where
  "NextBlock w = nextBlock w"

section \<open>Decoding\<close>

lemma decodeSettlementCreated_Inr_iff:
  "(\<exists>ev. decodeSettlementCreated eth l = Inr ev) \<longleftrightarrow> length (log_Topics l) = 4 \<and> length (log_Data l) = 32"
  by (auto simp: decodeSettlementCreated_def Let_def)

lemma decode_coordinates:
  "decodeSettlementCreated eth l = Inr ev \<Longrightarrow> ev_BlockNumber ev = log_BlockNumber l \<and> ev_TxHash ev = log_TxHash l"
  by (auto simp: decodeSettlementCreated_def Let_def split: if_splits)

text \<open>An event without its timestamp: what the log alone determines.\<close>

definition event_of :: "eth_lib \<Rightarrow> eth_log \<Rightarrow> settlement_event" where
  "event_of eth l = (case decodeSettlementCreated eth l of Inr ev \<Rightarrow> ev)"

definition well_formed_log :: "eth_log \<Rightarrow> bool" where
  "well_formed_log l \<longleftrightarrow> length (log_Topics l) = 4 \<and> length (log_Data l) = 32"

definition untimed :: "settlement_event \<Rightarrow> settlement_event" where
  "untimed ev = ev\<lparr>ev_BlockTimeSec := 0\<rparr>"

lemma event_of_decode: "decodeSettlementCreated eth l = Inr ev \<Longrightarrow> event_of eth l = ev \<and> untimed ev = ev"
  by (auto simp: event_of_def untimed_def decodeSettlementCreated_def Let_def split: if_splits)

section \<open>One poll\<close>

definition max_block :: "u64 \<Rightarrow> eth_log list \<Rightarrow> u64" where
  "max_block h ls = fold (\<lambda>l m. max m (log_BlockNumber l)) ls h"

lemma max_block_ge: "h \<le> max_block h ls"
proof (induction ls arbitrary: h)
  case Nil
  then show ?case by (simp add: max_block_def)
next
  case (Cons a ls)
  have "h \<le> max h (log_BlockNumber a)" by simp
  also have "\<dots> \<le> max_block (max h (log_BlockNumber a)) ls" by (rule Cons)
  finally show ?case by (simp add: max_block_def)
qed

lemma max_block_upper: "l \<in> set ls \<Longrightarrow> log_BlockNumber l \<le> max_block h ls"
proof (induction ls arbitrary: h)
  case Nil
  then show ?case by simp
next
  case (Cons a ls)
  then show ?case
    using max_block_ge [of "max h (log_BlockNumber a)" ls]
    by (auto simp: max_block_def)
qed

lemma max_block_in: "max_block h ls = h \<or> max_block h ls \<in> log_BlockNumber ` set ls"
proof (induction ls arbitrary: h)
  case Nil
  then show ?case by (simp add: max_block_def)
next
  case (Cons a ls)
  then show ?case
    using Cons [of "max h (log_BlockNumber a)"] by (auto simp: max_block_def max_def)
qed

lemma poll_logs_Ok:
  assumes "poll_logs eth cl next ls events highest c = (out, None, hi, c')"
  shows "(\<forall>l \<in> set ls. well_formed_log l) \<and>
    map untimed out = map untimed events @ map (event_of eth) ls \<and> hi = max_block highest ls"
  using assms
proof (induction ls arbitrary: events highest c)
  case Nil
  then show ?case by (simp add: max_block_def)
next
  case (Cons l ls)
  then obtain ev where ev: "decodeSettlementCreated eth l = Inr ev"
    by (cases "decodeSettlementCreated eth l") auto
  have hi: "(if highest < ev_BlockNumber ev then ev_BlockNumber ev else highest)
      = max highest (log_BlockNumber l)"
    using decode_coordinates [OF ev] by (auto simp: max_def)
  have wf: "well_formed_log l"
    using decodeSettlementCreated_Inr_iff [of eth l] ev by (simp add: well_formed_log_def)
  have un: "untimed (ev\<lparr>ev_BlockTimeSec := t\<rparr>) = event_of eth l" "untimed ev = event_of eth l" for t
    using event_of_decode [OF ev] by (simp_all add: untimed_def)
  obtain ev' c1 where "untimed ev' = event_of eth l"
      "poll_logs eth cl next ls (events @ [ev']) (max highest (log_BlockNumber l)) c1 = (out, None, hi, c')"
  proof (cases "next \<le> ev_BlockNumber ev")
    case True
    then obtain t c1 where "HeaderByNumber cl (ev_BlockNumber ev) c = (Inr t, c1)"
      using Cons.prems ev by (cases "HeaderByNumber cl (ev_BlockNumber ev) c") (auto split: sum.splits)
    with True Cons.prems ev that [OF un(1) [of t], of c1] show thesis
      by (simp only: poll_logs.simps sum.case prod.case if_True hi)
  next
    case False
    with Cons.prems ev that [OF un(2), of c] show thesis
      by (simp only: poll_logs.simps sum.case if_False hi)
  qed
  from Cons.IH [OF this(2)] this(1) wf show ?case
    by (simp add: max_block_def)
qed

text \<open>
  What the watcher relies on of an honest node without reorganisations: there is one history of
  matching logs, in block order; a node that has reported a head answers a query up to that head
  with exactly the logs of the history in the range.  Block numbers stay below the largest 64-bit
  value.
\<close>

definition honest_node :: "'c event_filterer \<Rightarrow> address \<Rightarrow> byte list \<Rightarrow> eth_log list \<Rightarrow> bool" where
  "honest_node cl contract topic hist \<longleftrightarrow>
     sorted (map log_BlockNumber hist) \<and> (\<forall>l \<in> set hist. log_BlockNumber l < - 1) \<and>
     (\<forall>c c1 head c2 from ls. BlockNumber cl c = (Inr head, c1) \<longrightarrow>
        FilterLogs cl from head contract topic c1 = (Inr ls, c2) \<longrightarrow>
        ls = filter (\<lambda>l. from \<le> log_BlockNumber l \<and> log_BlockNumber l \<le> head) hist)"

text \<open>The logs of the history in a half-open range of blocks.\<close>

definition logs_between :: "eth_log list \<Rightarrow> u64 \<Rightarrow> u64 \<Rightarrow> eth_log list" where
  "logs_between hist lo hi = filter (\<lambda>l. lo \<le> log_BlockNumber l \<and> log_BlockNumber l < hi) hist"

lemma logs_between_same: "logs_between hist lo lo = []"
  by (auto simp: logs_between_def filter_empty_conv)

lemma filter_between_append:
  assumes "sorted (map f xs)" and "a \<le> b" and "b \<le> (d :: 'b::linorder)"
  shows "filter (\<lambda>x. a \<le> f x \<and> f x < b) xs @ filter (\<lambda>x. b \<le> f x \<and> f x < d) xs
    = filter (\<lambda>x. a \<le> f x \<and> f x < d) xs"
  using assms(1)
proof (induction xs)
  case Nil
  then show ?case by simp
next
  case (Cons x xs)
  show ?case
  proof (cases "f x < b")
    case True
    with Cons assms show ?thesis by auto
  next
    case False
    with Cons.prems have "\<forall>y \<in> set xs. b \<le> f y"
      by (auto dest: order_trans)
    then have "filter (\<lambda>x. a \<le> f x \<and> f x < b) xs = []"
      by (auto simp: filter_empty_conv not_less)
    with False Cons assms show ?thesis
      by auto
  qed
qed

lemma word_less_plus_one: "(x :: u64) < - 1 \<Longrightarrow> y \<le> x \<longleftrightarrow> y < x + 1"
  by uint_arith

lemma logs_up_to_head:
  assumes "n \<le> head" and "ls = filter (\<lambda>l. n \<le> log_BlockNumber l \<and> log_BlockNumber l \<le> head) hist"
    and "ls \<noteq> []" and "\<forall>l \<in> set hist. log_BlockNumber l < - 1"
  shows "ls = logs_between hist n (max_block n ls + 1)"
proof -
  let ?m = "max_block n ls"
  have first: "hd ls \<in> set ls" using assms(3) by simp
  have "?m < - 1"
  proof (cases "?m = n")
    case True
    have "n \<le> log_BlockNumber (hd ls)" "log_BlockNumber (hd ls) < - 1"
      using first assms(2,4) by auto
    then show ?thesis using True by (metis order_le_less_trans)
  next
    case False
    then show ?thesis using max_block_in [of n ls] assms(2,4) by auto
  qed
  then have *: "b < ?m + 1 \<longleftrightarrow> b \<le> ?m" for b
    using word_less_plus_one by blast
  have "?m \<le> head"
    using max_block_in [of n ls] assms(1,2) by auto
  moreover have "log_BlockNumber l \<le> ?m"
    if "l \<in> set hist" "n \<le> log_BlockNumber l" "log_BlockNumber l \<le> head" for l
    using that assms(2) by (intro max_block_upper) simp
  ultimately show ?thesis
    unfolding logs_between_def *
    by (subst assms(2), intro filter_cong) (auto intro: order_trans)
qed

section \<open>Exactness of a poll\<close>

lemma Poll_error_keeps_watcher:
  "Poll eth cl w c = ((events, Some e), w', c') \<Longrightarrow> w' = w"
  by (auto simp: Poll_def split: prod.splits sum.splits if_splits option.splits)

lemma Poll_exact:
  assumes "honest_node cl (w_contract w) (eventTopic w) hist"
    and "Poll eth cl w c = ((events, None), w', c')"
  shows "map untimed events = map (event_of eth) (logs_between hist (nextBlock w) (nextBlock w')) \<and>
    nextBlock w \<le> nextBlock w' \<and> w_contract w' = w_contract w \<and> eventTopic w' = eventTopic w"
proof -
  obtain head c1 where head: "BlockNumber cl c = (Inr head, c1)"
    using assms(2) by (auto simp: Poll_def split: prod.splits sum.splits)
  show ?thesis
  proof (cases "head < nextBlock w")
    case True
    with assms(2) head show ?thesis by (simp add: Poll_def logs_between_same)
  next
    case False
    obtain ls c2 where ls: "FilterLogs cl (nextBlock w) head (w_contract w) (eventTopic w) c1 = (Inr ls, c2)"
      using assms(2) head False by (auto simp: Poll_def split: prod.splits sum.splits)
    have eq: "ls = filter (\<lambda>l. nextBlock w \<le> log_BlockNumber l \<and> log_BlockNumber l \<le> head) hist"
      using assms(1) head ls unfolding honest_node_def by blast
    show ?thesis
    proof (cases "ls = []")
      case True
      with assms(2) head False ls show ?thesis by (simp add: Poll_def logs_between_same)
    next
      case nonempty: False
      obtain hi where run: "poll_logs eth cl (nextBlock w) ls [] (nextBlock w) c2 = (events, None, hi, c')"
        and w': "w' = w\<lparr>nextBlock := hi + 1\<rparr>"
        using assms(2) head False ls nonempty
        by (auto simp: Poll_def split: prod.splits option.splits)
      have hi: "hi = max_block (nextBlock w) ls" and out: "map untimed events = map (event_of eth) ls"
        using poll_logs_Ok [OF run] by auto
      have bound: "\<forall>l \<in> set hist. log_BlockNumber l < - 1"
        using assms(1) unfolding honest_node_def by blast
      have ls_eq: "ls = logs_between hist (nextBlock w) (hi + 1)"
        unfolding hi using logs_up_to_head [OF _ eq nonempty bound] False by simp
      have "nextBlock w \<le> log_BlockNumber (hd ls) \<and> log_BlockNumber (hd ls) < hi + 1"
        using hd_in_set [OF nonempty] by (subst (asm) (2) ls_eq) (simp add: logs_between_def)
      then have "nextBlock w \<le> hi + 1" by (meson order_le_less_trans less_imp_le)
      with w' out ls_eq show ?thesis by simp
    qed
  qed
qed

lemma logs_between_append:
  assumes "sorted (map log_BlockNumber hist)" and "a \<le> b" and "b \<le> d"
  shows "logs_between hist a b @ logs_between hist b d = logs_between hist a d"
  using filter_between_append [OF assms] by (simp add: logs_between_def)

lemma Run_failed_Poll:
  assumes "Poll eth cl w c = ((events, Some e), w1, c1)" and "Run eth cl handler ticks w c h = (err, w', c', h')"
  shows "w' = w" and "h' = h"
  using assms Poll_error_keeps_watcher [OF assms(1)] by (simp_all add: Run.simps)

lemma Poll_exact_then:
  assumes "honest_node cl (w_contract w) (eventTopic w) hist" and "Poll eth cl w c = ((events, None), w1, c1)"
    and "nextBlock w1 \<le> b" and "map untimed rest = map (event_of eth) (logs_between hist (nextBlock w1) b)"
  shows "map untimed (events @ rest) = map (event_of eth) (logs_between hist (nextBlock w) b)"
proof -
  have "sorted (map log_BlockNumber hist)" using assms(1) by (simp add: honest_node_def)
  with Poll_exact [OF assms(1,2)] assms(3,4) show ?thesis
    by (metis logs_between_append map_append)
qed

lemma Run_exact:
  assumes "honest_node cl (w_contract w) (eventTopic w) hist"
    and "Run eth cl handler ticks w c h = (err, w', c', h')"
  shows "nextBlock w \<le> nextBlock w' \<and>
    (\<exists>events. h' = fold handler events h \<and>
       map untimed events = map (event_of eth) (logs_between hist (nextBlock w) (nextBlock w')))"
  using assms
proof (induction ticks arbitrary: w c h)
  case 0
  obtain events e w1 c1 where p: "Poll eth cl w c = ((events, e), w1, c1)"
    by (metis surj_pair)
  show ?case
  proof (cases e)
    case None
    with 0 p Poll_exact [OF 0(1) p [unfolded None]] show ?thesis
      by (auto simp: Run.simps)
  next
    case (Some err)
    from Run_failed_Poll [OF p [unfolded Some] 0(2)] show ?thesis
      by (auto simp: logs_between_same intro: exI [of _ "[]"])
  qed
next
  case (Suc n)
  obtain events e w1 c1 where p: "Poll eth cl w c = ((events, e), w1, c1)"
    by (metis surj_pair)
  show ?case
  proof (cases e)
    case None
    note p = p [unfolded None]
    note px = Poll_exact [OF Suc.prems(1) p]
    have "Run eth cl handler n w1 c1 (fold handler events h) = (err, w', c', h')"
      using Suc.prems(2) p by (simp add: Run.simps)
    with Suc.IH [of w1] Suc.prems(1) px obtain rest where ih: "nextBlock w1 \<le> nextBlock w'"
      "h' = fold handler rest (fold handler events h)"
      "map untimed rest = map (event_of eth) (logs_between hist (nextBlock w1) (nextBlock w'))"
      by fastforce
    from Poll_exact_then [OF Suc.prems(1) p ih(1,3)] ih(1,2) px show ?thesis
      by (intro conjI exI [of _ "events @ rest"]) auto
  next
    case (Some err)
    from Run_failed_Poll [OF p [unfolded Some] Suc.prems(2)] show ?thesis
      by (auto simp: logs_between_same intro: exI [of _ "[]"])
  qed
qed

text \<open>
  C11.  Exactly-once delivery.  Against an honest node, whatever the number of polls and however the
  loop ends (cancelled, or an RPC or decoding error in some poll), the events \<^verbatim>\<open>Run\<close> has handed to
  its handler are, in chain order and without gap or repetition, the decoded logs of the blocks the
  cursor has moved over: from the cursor \<^verbatim>\<open>Run\<close> started with up to the cursor it leaves behind, from
  which a later \<^verbatim>\<open>Run\<close> resumes.
\<close>

theorem Run_delivers_exactly_once:
  assumes "honest_node cl (w_contract w) (eventTopic w) hist"
    and "Run eth cl handler ticks w c h = (err, w', c', h')"
  shows "NextBlock w \<le> NextBlock w' \<and>
    (\<exists>events. h' = fold handler events h \<and>
       map untimed events = map (event_of eth) (logs_between hist (NextBlock w) (NextBlock w')))"
  using Run_exact [OF assms] by (simp add: NextBlock_def)

text \<open>
  A node for the witnesses: it sees one more block at every poll; here with one log per odd block.
\<close>

definition demo_log :: "u64 \<Rightarrow> eth_log" where
  "demo_log b = \<lparr>log_Topics = [replicate 32 7, replicate 32 1, replicate 32 2, replicate 32 3],
     log_Data = replicate 32 4, log_TxHash = replicate 32 (ucast b), log_BlockNumber = b, log_Index = 0\<rparr>"

definition demo_hist :: "eth_log list" where
  "demo_hist = [demo_log 1, demo_log 3, demo_log 5]"

definition log_node :: "eth_log list \<Rightarrow> u64 event_filterer" where
  "log_node hist = \<lparr>BlockNumber = (\<lambda>c. (Inr c, c + 1)),
     FilterLogs = (\<lambda>a b ad t c. (Inr (filter (\<lambda>l. a \<le> log_BlockNumber l \<and> log_BlockNumber l \<le> b) hist), c)),
     HeaderByNumber = (\<lambda>b c. (Inr (1000 + b), c))\<rparr>"

definition demo_node :: "u64 event_filterer" where
  "demo_node = log_node demo_hist"

lemma log_node_honest:
  "sorted (map log_BlockNumber hist) \<Longrightarrow> \<forall>l \<in> set hist. log_BlockNumber l < - 1 \<Longrightarrow> honest_node (log_node hist) ad t hist"
  by (simp add: honest_node_def log_node_def)

definition demo_watcher :: watcher where
  "demo_watcher = \<lparr>w_contract = [], w_interval = 1, eventTopic = [], nextBlock = 0\<rparr>"

lemma demo_node_honest: "honest_node demo_node ad t demo_hist"
  unfolding demo_node_def
  by (rule log_node_honest) (simp_all add: demo_hist_def demo_log_def word_less_def
      unsigned_minus_1_eq_mask mask_eq_exp_minus_1)

lemma demo_log_simps:
  "log_BlockNumber (demo_log b) = b"
  "decodeSettlementCreated eth (demo_log b) = Inr (event_of eth (demo_log b))"
  "ev_BlockNumber (event_of eth (demo_log b)) = b"
  by (simp_all add: demo_log_def event_of_def decodeSettlementCreated_def)

lemma demo_Run:
  "NextBlock (fst (snd (Run eth demo_node handler (Suc (Suc (Suc 0))) demo_watcher 0 h))) = 4"
  by (simp add: Run.simps Poll_def demo_watcher_def demo_node_def log_node_def demo_hist_def
      demo_log_simps NextBlock_def word_le_def word_less_def)

theorem Run_delivers_exactly_once_witness:
  "\<exists>err w' c' h'. Run demo_eth demo_node (\<lambda>ev h. h @ [ev]) (Suc (Suc (Suc 0))) demo_watcher 0 [] = (err, w', c', h') \<and>
    length h' = 2 \<and> NextBlock w' = 4 \<and>
    map untimed h' = map (event_of demo_eth) (logs_between demo_hist 0 4)"
proof -
  obtain err w' c' h' where
    run: "Run demo_eth demo_node (\<lambda>ev h. h @ [ev]) (Suc (Suc (Suc 0))) demo_watcher 0 [] = (err, w', c', h')"
    by (metis surj_pair)
  have cursor: "NextBlock w' = 4"
    using run demo_Run [of demo_eth "\<lambda>ev h. h @ [ev]" "[]"] by simp
  have start: "NextBlock demo_watcher = 0"
    by (simp add: NextBlock_def demo_watcher_def)
  obtain events where "h' = fold (\<lambda>ev h. h @ [ev]) events []"
    "map untimed events = map (event_of demo_eth) (logs_between demo_hist 0 4)"
    using Run_delivers_exactly_once [OF demo_node_honest run] cursor start by auto
  moreover have "fold (\<lambda>ev h. h @ [ev]) events h = h @ events" for events h :: "settlement_event list"
    by (induction events arbitrary: h) auto
  moreover have "length (logs_between demo_hist 0 4) = 2"
    by (simp add: logs_between_def demo_hist_def demo_log_def word_less_nat_alt)
  ultimately show ?thesis
    using run cursor by (metis append_Nil length_map)
qed

text \<open>
  Coverage.  A poll that succeeds after the node reported the block number \<open>head\<close> leaves no
  matching log of the blocks up to \<open>head\<close> behind: its events are all logs from the old cursor to
  \<open>head\<close>, and from the new cursor to \<open>head\<close> there are none.
\<close>

lemma Poll_covers_head:
  assumes "honest_node cl (w_contract w) (eventTopic w) hist"
    and "BlockNumber cl c = (Inr head, c1)" and "Poll eth cl w c = ((events, None), w', c')"
  shows "map untimed events = map (event_of eth)
      (filter (\<lambda>l. nextBlock w \<le> log_BlockNumber l \<and> log_BlockNumber l \<le> head) hist) \<and>
    filter (\<lambda>l. nextBlock w' \<le> log_BlockNumber l \<and> log_BlockNumber l \<le> head) hist = []"
proof (cases "head < nextBlock w")
  case True
  with assms show ?thesis by (auto simp: Poll_def filter_empty_conv)
next
  case False
  let ?ls = "filter (\<lambda>l. nextBlock w \<le> log_BlockNumber l \<and> log_BlockNumber l \<le> head) hist"
  obtain c2 where ls: "FilterLogs cl (nextBlock w) head (w_contract w) (eventTopic w) c1 = (Inr ?ls, c2)"
    using assms False unfolding honest_node_def
    by (auto simp: Poll_def split: prod.splits sum.splits)
  show ?thesis
  proof (cases "?ls = []")
    case True
    with assms(2,3) False ls show ?thesis by (simp add: Poll_def)
  next
    case nonempty: False
    obtain hi where run: "poll_logs eth cl (nextBlock w) ?ls [] (nextBlock w) c2 = (events, None, hi, c')"
      and w': "w' = w\<lparr>nextBlock := hi + 1\<rparr>"
      using assms(2,3) False ls nonempty by (auto simp: Poll_def split: prod.splits option.splits)
    have bound: "\<forall>l \<in> set hist. log_BlockNumber l < - 1"
      using assms(1) unfolding honest_node_def by blast
    have eq: "?ls = logs_between hist (nextBlock w) (hi + 1)"
      using logs_up_to_head [OF _ refl nonempty bound] poll_logs_Ok [OF run] False by simp
    have "\<not> (hi + 1 \<le> log_BlockNumber l \<and> log_BlockNumber l \<le> head)" if "l \<in> set hist" for l
    proof
      assume r: "hi + 1 \<le> log_BlockNumber l \<and> log_BlockNumber l \<le> head"
      have "nextBlock w \<le> hi + 1"
        using Poll_exact [OF assms(1,3)] w' by simp
      with r that have "l \<in> set ?ls" by auto
      then have "log_BlockNumber l < hi + 1" unfolding eq by (simp add: logs_between_def)
      with conjunct1 [OF r] show False by (meson leD)
    qed
    moreover have nb: "nextBlock w' = hi + 1" using w' by simp
    ultimately have rest: "filter (\<lambda>l. nextBlock w' \<le> log_BlockNumber l \<and> log_BlockNumber l \<le> head) hist = []"
      unfolding nb filter_empty_conv by blast
    have "map untimed events = map (event_of eth) ?ls"
      using poll_logs_Ok [OF run] by (simp only: list.map append_Nil)
    with rest show ?thesis by blast
  qed
qed

end
