(* ===== verification/Processor.thy ===== *)
theory Processor
  imports Receipt_Builder Store_Durability Watcher
begin

text \<open>
  \<^verbatim>\<open>core/receipt/processor.go\<close>: from a settlement event to a signed receipt in the store.  \<^verbatim>\<open>Handle\<close> is
  given whole, as one call, and as the atomic steps (the duplicate check, the counter and the append,
  each under its own mutex) of several calls that run at the same time.
\<close>

unbundle bit_operations_syntax

section \<open>The processor\<close>

definition SellerAPID100 :: u16 where "SellerAPID100 = 100"
definition AssetIDUSDC :: u16 where "AssetIDUSDC = 1"

record processor =
  sellerAPID :: u16
  p_seed :: "byte list"
  seqCount :: u16

datatype processor_error =
    StoreIsNil
  | SeedIsEmpty
  | BuildPacketC build_error
  | AppendToStore store_error

text \<open>The store the processor holds is passed beside it; \<^verbatim>\<open>None\<close> is the nil pointer.\<close>

definition NewProcessor ::
    "store option \<Rightarrow> u16 \<Rightarrow> byte list \<Rightarrow> (processor_error, processor \<times> store) outcome" where
  "NewProcessor st apid seed =
     (case st of
        None \<Rightarrow> Err StoreIsNil
      | Some s \<Rightarrow> if seed = [] then Err SeedIsEmpty
          else Ok (\<lparr>sellerAPID = apid, p_seed = seed, seqCount = 0\<rparr>, s))"

definition payment_id :: "settlement_event \<Rightarrow> string" where
  "payment_id ev = dec_string (ev_TxNonce ev)"

definition tx_hash_hex :: "eth_lib \<Rightarrow> settlement_event \<Rightarrow> string" where
  "tx_hash_hex eth ev = Hash_Hex eth (ev_TxHash ev)"

text \<open>The counter section: take the current value, advance it in 14 bits.\<close>

definition take_seq :: "processor \<Rightarrow> u16 \<times> processor" where
  "take_seq p = (seqCount p, p\<lparr>seqCount := (seqCount p + 1) AND 0x3FFF\<rparr>)"

definition receipt_inputs :: "processor \<Rightarrow> u16 \<Rightarrow> settlement_event \<Rightarrow> inputs" where
  "receipt_inputs p seq ev = \<lparr>ExecTimeMs = ev_BlockTimeSec ev * 1000, EncTxID = Uint64 (ev_TxNonce ev),
     EncStatus = 1, APID = sellerAPID p, in_SeqCount = seq, SeedEd25519 = p_seed p\<rparr>"

definition receipt_for :: "eth_lib \<Rightarrow> settlement_event \<Rightarrow> byte list \<Rightarrow> receipt_record" where
  "receipt_for eth ev packetC = \<lparr>PaymentID = payment_id ev, SettlementTxHash = tx_hash_hex eth ev,
     rc_SatID = ev_SatID ev, rc_Amount = dec_string (ev_Amount ev), AssetID = AssetIDUSDC,
     rc_Wallet = Address_Hex eth (ev_Wallet ev), PacketCHex = EncodeToString packetC,
     rc_BlockNumber = ev_BlockNumber ev, TsMs = ev_BlockTimeSec ev * 1000, DispatchStatus = ''''\<rparr>"

text \<open>The last section: append, and take a duplicate for success.\<close>

definition append_receipt ::
    "json_codec \<Rightarrow> io_fate \<Rightarrow> receipt_record \<Rightarrow> store \<Rightarrow> (processor_error, unit) outcome \<times> store" where
  "append_receipt js fate r s =
     (case Append js fate r s of
        (None, s') \<Rightarrow> (Ok (), s')
      | (Some e, s') \<Rightarrow> ((if e = ErrDuplicate then Ok () else Err (AppendToStore e)), s'))"

definition Handle ::
    "ed25519_lib \<Rightarrow> eth_lib \<Rightarrow> json_codec \<Rightarrow> io_fate \<Rightarrow> settlement_event \<Rightarrow> processor \<times> store \<Rightarrow>
     (processor_error, unit) outcome \<times> processor \<times> store" where
  "Handle ed eth js fate ev = (\<lambda>(p, s).
     if Has (payment_id ev) (tx_hash_hex eth ev) s then (Ok (), p, s)
     else let (seq, p') = take_seq p in
       (case Build ed (receipt_inputs p seq ev) of
          Err e \<Rightarrow> (Err (BuildPacketC e), p', s)
        | Panic \<Rightarrow> (Panic, p', s)
        | Ok packetC \<Rightarrow>
            (let (res, s') = append_receipt js fate (receipt_for eth ev packetC) s in (res, p', s'))))"

section \<open>One call\<close>

lemma dedupKey_events:
  "dedupKey (dec_string m) a = dedupKey (dec_string n) b \<longleftrightarrow> m = n \<and> a = b"
proof -
  have "x @ CHR ''|'' # a = y @ CHR ''|'' # b \<longleftrightarrow> x = y \<and> a = b"
    if "CHR ''|'' \<notin> set x" "CHR ''|'' \<notin> set y" for x y
    using that
  proof (induction x arbitrary: y)
    case Nil
    then show ?case by (cases y) auto
  next
    case (Cons c x)
    then show ?case by (cases y) auto
  qed
  then show ?thesis
    using dec_string_no_bar dec_string_inject by (simp add: dedupKey_def)
qed

definition event_key :: "eth_lib \<Rightarrow> settlement_event \<Rightarrow> string" where
  "event_key eth ev = dedupKey (payment_id ev) (tx_hash_hex eth ev)"

lemma event_key_inject:
  "eth_ok eth \<Longrightarrow> event_key eth ev = event_key eth ev' \<longleftrightarrow> ev_TxNonce ev = ev_TxNonce ev' \<and> ev_TxHash ev = ev_TxHash ev'"
  by (simp add: event_key_def payment_id_def tx_hash_hex_def dedupKey_events Hash_Hex_inject)

lemma record_key_receipt [simp]: "record_key (receipt_for eth ev packetC) = event_key eth ev"
  by (simp add: record_key_def receipt_for_def event_key_def)

lemma append_receipt_queue:
  assumes "store_inv s" and "append_receipt js fate r s = (res, s')"
  shows "store_inv s' \<and> res \<noteq> Panic \<and>
    (res = Ok () \<longrightarrow> record_key r \<in> record_key ` set (settlements s')) \<and>
    settlements s' = settlements s @ (if record_key r \<in> record_key ` set (settlements s) \<or> res \<noteq> Ok ()
      then [] else [default_status r])"
proof -
  obtain e s1 where a: "Append js fate r s = (e, s1)" by (cases "Append js fate r s")
  show ?thesis
  proof (cases e)
    case None
    with a assms receipt_store.append_Ok [OF assms(1), of js fate r s1] show ?thesis
      by (auto simp: append_receipt_def)
  next
    case (Some err)
    with a assms receipt_store.append_Err [OF assms(1), of js fate r err s1]
      Append_error_iff [of js fate r s err s1] receipt_store.has_iff [OF assms(1)]
    show ?thesis by (auto simp: append_receipt_def record_key_def)
  qed
qed

text \<open>With a 32-byte seed the builder always returns the frame.\<close>

definition seed_ok :: "processor \<Rightarrow> bool" where
  "seed_ok p \<longleftrightarrow> length (p_seed p) = SeedSize"

definition built :: "ed25519_lib \<Rightarrow> processor \<Rightarrow> u16 \<Rightarrow> settlement_event \<Rightarrow> byte list" where
  "built ed p seq ev = (case Build ed (receipt_inputs p seq ev) of Ok frame \<Rightarrow> frame | _ \<Rightarrow> [])"

lemma Build_built:
  "ed25519_ok ed \<Longrightarrow> seed_ok p \<Longrightarrow> Build ed (receipt_inputs p seq ev) = Ok (built ed p seq ev)"
  using Build_frame [of ed "receipt_inputs p seq ev"] by (simp add: seed_ok_def receipt_inputs_def built_def)

lemma default_status_receipt:
  "default_status (receipt_for eth ev packetC) = (receipt_for eth ev packetC)\<lparr>DispatchStatus := StatusPending\<rparr>"
  by (simp add: default_status_def receipt_for_def)

lemma Handle_known:
  "store_inv s \<Longrightarrow> event_key eth ev \<in> record_key ` set (settlements s) \<Longrightarrow>
     Handle ed eth js fate ev (p, s) = (Ok (), p, s)"
  using receipt_store.has_iff [of s] by (simp add: Handle_def event_key_def)

lemma Handle_new:
  assumes "store_inv s" and "event_key eth ev \<notin> record_key ` set (settlements s)"
    and "ed25519_ok ed" and "seed_ok p"
  shows "Handle ed eth js fate ev (p, s) =
    (let (res, s') = append_receipt js fate (receipt_for eth ev (built ed p (seqCount p) ev)) s
     in (res, p\<lparr>seqCount := (seqCount p + 1) AND 0x3FFF\<rparr>, s'))"
  using assms receipt_store.has_iff [OF assms(1)] Build_built [OF assms(3,4)]
  by (simp add: Handle_def event_key_def take_seq_def)

lemma Handle_queue:
  assumes "store_inv s" and "ed25519_ok ed" and "seed_ok p"
    and "Handle ed eth js fate ev (p, s) = (res, p', s')"
  shows "store_inv s' \<and> res \<noteq> Panic \<and> seed_ok p' \<and>
    (res = Ok () \<longrightarrow> event_key eth ev \<in> record_key ` set (settlements s')) \<and>
    (if event_key eth ev \<in> record_key ` set (settlements s) then res = Ok () \<and> p' = p \<and> s' = s
     else p' = p\<lparr>seqCount := (seqCount p + 1) AND 0x3FFF\<rparr> \<and>
       settlements s' = settlements s @ (if res = Ok ()
         then [(receipt_for eth ev (built ed p (seqCount p) ev))\<lparr>DispatchStatus := StatusPending\<rparr>] else []))"
proof (cases "event_key eth ev \<in> record_key ` set (settlements s)")
  case True
  with assms Handle_known [OF assms(1) True, of ed js fate p] show ?thesis by auto
next
  case False
  let ?r = "receipt_for eth ev (built ed p (seqCount p) ev)"
  obtain s1 where a: "append_receipt js fate ?r s = (res, s1)" "s1 = s'"
    and p': "p' = p\<lparr>seqCount := (seqCount p + 1) AND 0x3FFF\<rparr>"
    using Handle_new [OF assms(1) False assms(2,3), of js fate] assms(4)
    by (cases "append_receipt js fate ?r s") auto
  with append_receipt_queue [OF assms(1) a(1)] False assms(3) show ?thesis
    by (auto simp: default_status_receipt seed_ok_def)
qed

text \<open>The frame of a receipt, as the gateway's own parser reads it.\<close>

lemma built_accepted:
  assumes "ed25519_ok ed" and "seed_ok p" and "kaitai_stream k view"
  shows "\<exists>obj st b. length (built ed p seq ev) = PacketCFrameLen \<and> parse_frame k (built ed p seq ev) = Ok (obj, st) \<and>
    Body obj = PacketCBody b \<and> pc_ExecTime b = ev_BlockTimeSec ev * 1000 \<and> pc_EncTxId b = word_of_nat (ev_TxNonce ev) \<and>
    pc_EncStatus b = 1 \<and>
    Verify ed (Public ed (NewKeyFromSeed ed (p_seed p))) (seg (built ed p seq ev) 14 40) (sig_Raw (pc_Signature b))"
  using Build_frame_accepted [OF assms(1,3), of "receipt_inputs p seq ev"] Build_built [OF assms(1,2), of seq ev] assms(2)
  by (auto simp: receipt_inputs_def seed_ok_def Uint64_def)

section \<open>Calls that run at the same time\<close>

text \<open>
  Where a call of \<^verbatim>\<open>Handle\<close> stands: before the duplicate check, before it takes its number, before it
  appends the frame it has built, or returned.  Building uses no shared state, so it belongs to the
  step that takes the number.  Each section is atomic here; \<^verbatim>\<open>Handle_Locks\<close> has the two mutexes and shows that
  they make it so.
\<close>

datatype handle_pc =
    Checking
  | Numbering
  | Appending "byte list"
  | Returned "(processor_error, unit) outcome"

record call =
  c_event :: settlement_event
  c_pc :: handle_pc

record handlers =
  h_proc :: processor
  h_store :: store
  h_calls :: "call list"
  h_taken :: "u16 list"

definition set_pc :: "nat \<Rightarrow> handle_pc \<Rightarrow> handlers \<Rightarrow> handlers" where
  "set_pc i pc h = h\<lparr>h_calls := (h_calls h)[i := (h_calls h ! i)\<lparr>c_pc := pc\<rparr>]\<rparr>"

inductive handler_step :: "ed25519_lib \<Rightarrow> eth_lib \<Rightarrow> json_codec \<Rightarrow> handlers \<Rightarrow> handlers \<Rightarrow> bool"
  for ed eth js where
  known: "i < length (h_calls h) \<Longrightarrow> c_pc (h_calls h ! i) = Checking \<Longrightarrow> ev = c_event (h_calls h ! i) \<Longrightarrow>
    Has (payment_id ev) (tx_hash_hex eth ev) (h_store h) \<Longrightarrow>
    handler_step ed eth js h (set_pc i (Returned (Ok ())) h)"
| unknown: "i < length (h_calls h) \<Longrightarrow> c_pc (h_calls h ! i) = Checking \<Longrightarrow> ev = c_event (h_calls h ! i) \<Longrightarrow>
    \<not> Has (payment_id ev) (tx_hash_hex eth ev) (h_store h) \<Longrightarrow>
    handler_step ed eth js h (set_pc i Numbering h)"
| number: "i < length (h_calls h) \<Longrightarrow> c_pc (h_calls h ! i) = Numbering \<Longrightarrow> ev = c_event (h_calls h ! i) \<Longrightarrow>
    take_seq (h_proc h) = (seq, p') \<Longrightarrow>
    pc = (case Build ed (receipt_inputs (h_proc h) seq ev) of
            Err e \<Rightarrow> Returned (Err (BuildPacketC e)) | Panic \<Rightarrow> Returned Panic | Ok frame \<Rightarrow> Appending frame) \<Longrightarrow>
    handler_step ed eth js h (set_pc i pc (h\<lparr>h_proc := p', h_taken := h_taken h @ [seq]\<rparr>))"
| append: "i < length (h_calls h) \<Longrightarrow> c_pc (h_calls h ! i) = Appending frame \<Longrightarrow> ev = c_event (h_calls h ! i) \<Longrightarrow>
    append_receipt js fate (receipt_for eth ev frame) (h_store h) = (res, s') \<Longrightarrow>
    handler_step ed eth js h (set_pc i (Returned res) (h\<lparr>h_store := s'\<rparr>))"

inductive handler_run :: "ed25519_lib \<Rightarrow> eth_lib \<Rightarrow> json_codec \<Rightarrow> handlers \<Rightarrow> handlers \<Rightarrow> bool"
  for ed eth js where
  refl: "handler_run ed eth js h h"
| step: "handler_run ed eth js h h' \<Longrightarrow> handler_step ed eth js h' h'' \<Longrightarrow> handler_run ed eth js h h''"

definition start_handlers :: "processor \<Rightarrow> store \<Rightarrow> settlement_event list \<Rightarrow> handlers" where
  "start_handlers p s events = \<lparr>h_proc = p, h_store = s,
     h_calls = map (\<lambda>ev. \<lparr>c_event = ev, c_pc = Checking\<rparr>) events, h_taken = []\<rparr>"

text \<open>
  The invariant: the events of the calls stay; the store keeps its invariant and only grows by
  receipts of the calls; a call that returned successfully has its receipt in the store; the numbers
  taken are the counter's values one after the other.
\<close>

definition call_inv :: "eth_lib \<Rightarrow> store \<Rightarrow> call \<Rightarrow> bool" where
  "call_inv eth s c \<longleftrightarrow> c_pc c \<noteq> Returned Panic \<and>
     (c_pc c = Returned (Ok ()) \<longrightarrow> event_key eth (c_event c) \<in> record_key ` set (settlements s))"

definition handlers_inv :: "eth_lib \<Rightarrow> processor \<Rightarrow> store \<Rightarrow> settlement_event list \<Rightarrow> handlers \<Rightarrow> bool" where
  "handlers_inv eth p s events h \<longleftrightarrow> map c_event (h_calls h) = events \<and> store_inv (h_store h) \<and>
     seed_ok (h_proc h) \<and>
     (\<exists>new. settlements (h_store h) = settlements s @ new \<and> record_key ` set new \<subseteq> event_key eth ` set events) \<and>
     (\<forall>c \<in> set (h_calls h). call_inv eth (h_store h) c) \<and>
     h_taken h = map (\<lambda>j. word_of_nat ((unat (seqCount p) + j) mod 16384)) [0..<length (h_taken h)] \<and>
     seqCount (h_proc h) = word_of_nat ((unat (seqCount p) + length (h_taken h)) mod 16384)"

lemma seq_advance: "(word_of_nat (n mod 16384) + 1) AND 0x3FFF = (word_of_nat (Suc n mod 16384) :: u16)"
proof -
  have "(0x3FFF :: u16) = mask 14" by code_simp
  then have "(word_of_nat (n mod 16384) + 1) AND 0x3FFF = take_bit 14 (word_of_nat (n mod 16384) + 1 :: u16)"
    by (simp only: take_bit_eq_mask)
  also have "\<dots> = word_of_nat ((n mod 16384 + 1) mod 16384)"
  proof (rule iffD2 [OF word_unat_eq_iff])
    have "(word_of_nat (n mod 16384) + 1 :: u16) = word_of_nat (n mod 16384 + 1)" by simp
    moreover have "n mod 16384 + 1 < 65536" by simp
    ultimately have "unat (word_of_nat (n mod 16384) + 1 :: u16) = n mod 16384 + 1"
      by (simp only: unat_of_nat) simp
    then have "unat (take_bit 14 (word_of_nat (n mod 16384) + 1 :: u16)) = take_bit 14 (n mod 16384 + 1)"
      by (simp only: unsigned_take_bit_eq)
    then show "unat (take_bit 14 (word_of_nat (n mod 16384) + 1 :: u16))
        = unat (word_of_nat ((n mod 16384 + 1) mod 16384) :: u16)"
      by (simp add: take_bit_eq_mod unat_of_nat)
  qed
  finally show ?thesis by (simp add: mod_Suc_eq)
qed

lemma set_pc_events [simp]: "i < length (h_calls h) \<Longrightarrow> map c_event (h_calls (set_pc i pc h)) = map c_event (h_calls h)"
  by (simp add: set_pc_def map_update list_update_same_conv)

lemma set_pc_fields [simp]:
  "h_store (set_pc i pc h) = h_store h" "h_proc (set_pc i pc h) = h_proc h" "h_taken (set_pc i pc h) = h_taken h"
  by (simp_all add: set_pc_def)

lemma set_pc_all:
  "i < length (h_calls h) \<Longrightarrow> \<forall>c \<in> set (h_calls h). Q c \<Longrightarrow> Q ((h_calls h ! i)\<lparr>c_pc := pc\<rparr>) \<Longrightarrow>
     \<forall>c \<in> set (h_calls (set_pc i pc h)). Q c"
  using set_update_subset_insert [of "h_calls h" i] by (auto simp: set_pc_def)

lemma handlers_inv_start:
  "store_inv s \<Longrightarrow> seed_ok p \<Longrightarrow> seqCount p < 16384 \<Longrightarrow> handlers_inv eth p s events (start_handlers p s events)"
  by (auto simp: handlers_inv_def start_handlers_def o_def word_less_nat_alt call_inv_def)

lemma handlers_inv_set_pc:
  assumes "handlers_inv eth p s events h" and "i < length (h_calls h)"
    and "pc = Returned (Ok ()) \<Longrightarrow>
      event_key eth (c_event (h_calls h ! i)) \<in> record_key ` set (settlements (h_store h))"
    and "pc \<noteq> Returned Panic"
  shows "handlers_inv eth p s events (set_pc i pc h)"
proof -
  have "\<forall>c \<in> set (h_calls (set_pc i pc h)). call_inv eth (h_store h) c"
    using assms by (intro set_pc_all) (auto simp: handlers_inv_def call_inv_def)
  with assms(1,2) show ?thesis by (simp add: handlers_inv_def)
qed

lemma handlers_inv_step:
  assumes "ed25519_ok ed" and "handlers_inv eth p s events h" and "handler_step ed eth js h h'"
  shows "handlers_inv eth p s events h'"
  using assms(3)
proof cases
  case (known i ev)
  have "store_inv (h_store h)" using assms(2) by (simp add: handlers_inv_def)
  with known receipt_store.has_iff [of "h_store h"] show ?thesis
    by (auto intro!: handlers_inv_set_pc [OF assms(2)] simp: event_key_def)
next
  case (unknown i ev)
  then show ?thesis by (auto intro!: handlers_inv_set_pc [OF assms(2)])
next
  case (number i ev seq p' pc)
  have ok: "seed_ok (h_proc h)" using assms(2) by (simp add: handlers_inv_def)
  have pc: "pc = Appending (built ed (h_proc h) seq ev)"
    using number Build_built [OF assms(1) ok] by simp
  have "handlers_inv eth p s events (h\<lparr>h_proc := p', h_taken := h_taken h @ [seq]\<rparr>)"
    using assms(2) number(5) unfolding handlers_inv_def
    by (auto simp: take_seq_def seq_advance seed_ok_def)
  from handlers_inv_set_pc [OF this, of i pc] number(1,2) pc show ?thesis by simp
next
  case (append i frame ev fate res s')
  have inv: "store_inv (h_store h)" using assms(2) by (simp add: handlers_inv_def)
  note q = append_receipt_queue [OF inv append(5)]
  have ev: "event_key eth ev \<in> event_key eth ` set events"
    using append assms(2) unfolding handlers_inv_def by (metis image_eqI length_map nth_map nth_mem)
  have "handlers_inv eth p s events (h\<lparr>h_store := s'\<rparr>)"
    using assms(2) q ev unfolding handlers_inv_def call_inv_def by (auto split: if_splits)
  from handlers_inv_set_pc [OF this, of i "Returned res"] append q show ?thesis by simp
qed

lemma handlers_inv_run:
  assumes "handler_run ed eth js h h'" and "ed25519_ok ed" and "handlers_inv eth p s events h"
  shows "handlers_inv eth p s events h'"
  using assms by induction (auto intro: handlers_inv_step)

text \<open>Every interleaving can be completed; the sections before a call are the measure of the induction.\<close>

fun sections_left :: "handle_pc \<Rightarrow> nat" where
  "sections_left Checking = 3"
| "sections_left Numbering = 2"
| "sections_left (Appending frame) = 1"
| "sections_left (Returned res) = 0"

definition remaining :: "handlers \<Rightarrow> nat" where
  "remaining h = sum_list (map (\<lambda>c. sections_left (c_pc c)) (h_calls h))"

lemma remaining_set_pc:
  assumes "i < length (h_calls h)" and "sections_left pc < sections_left (c_pc (h_calls h ! i))"
  shows "remaining (set_pc i pc h) < remaining h"
proof -
  let ?w = "\<lambda>c. sections_left (c_pc c)"
  have split: "h_calls h = take i (h_calls h) @ (h_calls h ! i) # drop (Suc i) (h_calls h)"
    using assms(1) by (simp add: id_take_nth_drop)
  have "h_calls (set_pc i pc h) = take i (h_calls h) @ (h_calls h ! i)\<lparr>c_pc := pc\<rparr> # drop (Suc i) (h_calls h)"
    using assms(1) by (simp add: set_pc_def upd_conv_take_nth_drop)
  then have "remaining (set_pc i pc h)
      = sum_list (map ?w (take i (h_calls h))) + (sections_left pc + sum_list (map ?w (drop (Suc i) (h_calls h))))"
    by (simp add: remaining_def)
  moreover have "remaining h
      = sum_list (map ?w (take i (h_calls h))) + (?w (h_calls h ! i) + sum_list (map ?w (drop (Suc i) (h_calls h))))"
    unfolding remaining_def by (subst split) simp
  ultimately show ?thesis using assms(2) by simp
qed

lemma remaining_calls: "h_calls h' = h_calls h \<Longrightarrow> remaining h' = remaining h"
  by (simp add: remaining_def)

lemma handler_step_decreases: "handler_step ed eth js h h' \<Longrightarrow> remaining h' < remaining h"
proof (induction rule: handler_step.induct)
  case (number i h ev seq p' pc)
  let ?h = "h\<lparr>h_proc := p', h_taken := h_taken h @ [seq]\<rparr>"
  have "sections_left pc \<le> 1"
    unfolding number(5) by (cases "Build ed (receipt_inputs (h_proc h) seq ev)") simp_all
  then have "remaining (set_pc i pc ?h) < remaining ?h"
    using number(1,2) by (intro remaining_set_pc) simp_all
  also have "remaining ?h = remaining h" by (rule remaining_calls) simp
  finally show ?case .
next
  case (append i h frame ev fate res s')
  have "remaining (set_pc i (Returned res) (h\<lparr>h_store := s'\<rparr>)) < remaining (h\<lparr>h_store := s'\<rparr>)"
    using append(1,2) by (intro remaining_set_pc) simp_all
  also have "remaining (h\<lparr>h_store := s'\<rparr>) = remaining h" by (rule remaining_calls) simp
  finally show ?case .
qed (auto intro: remaining_set_pc)

lemma handler_step_exists:
  assumes "i < length (h_calls h)" and "\<And>res. c_pc (h_calls h ! i) \<noteq> Returned res"
  shows "\<exists>h'. handler_step ed eth js h h'"
proof (cases "c_pc (h_calls h ! i)")
  case Checking
  show ?thesis
    using handler_step.known [OF assms(1) Checking HOL.refl] handler_step.unknown [OF assms(1) Checking HOL.refl]
    by blast
next
  case Numbering
  obtain seq p' where "take_seq (h_proc h) = (seq, p')" by (cases "take_seq (h_proc h)")
  from handler_step.number [OF assms(1) Numbering HOL.refl this HOL.refl] show ?thesis by blast
next
  case (Appending frame)
  obtain res s' where
    "append_receipt js Stored (receipt_for eth (c_event (h_calls h ! i)) frame) (h_store h) = (res, s')"
    by (cases "append_receipt js Stored (receipt_for eth (c_event (h_calls h ! i)) frame) (h_store h)")
  from handler_step.append [OF assms(1) Appending HOL.refl this] show ?thesis by blast
next
  case (Returned res)
  with assms(2) show ?thesis by blast
qed

lemma handler_run_trans:
  "handler_run ed eth js h' h'' \<Longrightarrow> handler_run ed eth js h h' \<Longrightarrow> handler_run ed eth js h h''"
  by (induction rule: handler_run.induct) (auto intro: handler_run.step)

lemma handlers_finish:
  "\<exists>h'. handler_run ed eth js h h' \<and> (\<forall>c \<in> set (h_calls h'). \<exists>res. c_pc c = Returned res)"
proof (induction "remaining h" arbitrary: h rule: less_induct)
  case less
  show ?case
  proof (cases "\<forall>c \<in> set (h_calls h). \<exists>res. c_pc c = Returned res")
    case True
    then show ?thesis using handler_run.refl by blast
  next
    case False
    then obtain i where "i < length (h_calls h)" "\<And>res. c_pc (h_calls h ! i) \<noteq> Returned res"
      by (metis in_set_conv_nth)
    then obtain h1 where h1: "handler_step ed eth js h h1" using handler_step_exists by blast
    with less [OF handler_step_decreases [OF h1]] show ?thesis
      using handler_run_trans handler_run.refl handler_run.step by blast
  qed
qed

lemma mod_shift_inject:
  fixes i j a m :: nat
  assumes "(a + i) mod m = (a + j) mod m" and "i < m" and "j < m"
  shows "i = j"
proof -
  have "m dvd y - x" if "x \<le> y" "(a + x) mod m = (a + y) mod m" for x y
    using that mod_eq_dvd_iff_nat [of "a + x" "a + y" m] by (metis add_diff_cancel_left add_le_cancel_left)
  with assms(1) have "m dvd i - j" "m dvd j - i"
    by (metis diff_is_0_eq' dvd_0_right nat_le_linear)+
  with assms(2,3) show ?thesis
    by (metis diff_is_0_eq dvd_imp_le less_imp_diff_less linorder_not_le nat_less_le neq0_conv order_antisym)
qed

lemma wrapped_index:
  assumes "i < 16384" and "j < 16384"
    and "word_of_nat ((a + i) mod 16384) = (word_of_nat ((a + j) mod 16384) :: u16)"
  shows "i = j"
proof (rule mod_shift_inject)
  have "unat (word_of_nat ((a + n) mod 16384) :: u16) = (a + n) mod 16384" for n
    by (simp add: unat_of_nat)
  then show "(a + i) mod 16384 = (a + j) mod 16384" using assms(3) by metis
qed (use assms in auto)

section \<open>Properties\<close>

text \<open>
  C12.  One settlement, one receipt.  \<^verbatim>\<open>Handle\<close> on an event whose key the store knows changes nothing and
  reports success, so a replay is harmless.  On a new event, whatever happens to the write, it uses up
  one sequence number, and if it reports success the queue has grown at its end by exactly one pending
  receipt with the event's payment id, transaction hash, satellite, amount, wallet and block; the
  frame in it, decoded from hexadecimal, is one the gateway's parser reads as a PacketC whose execution
  time is the block time in milliseconds, whose transaction id is the low 64 bits of the payment id
  and whose signature verifies under the processor's seed.  It never panics.
\<close>

theorem Handle_records_settlement:
  assumes "store_inv s" and "ed25519_ok ed" and "seed_ok p" and "kaitai_stream k view"
    and "Handle ed eth js fate ev (p, s) = (res, p', s')"
  shows "store_inv s' \<and> res \<noteq> Panic \<and>
    (if event_key eth ev \<in> record_key ` set (settlements s) then res = Ok () \<and> p' = p \<and> s' = s
     else p' = p\<lparr>seqCount := (seqCount p + 1) AND 0x3FFF\<rparr> \<and>
       (if res \<noteq> Ok () then settlements s' = settlements s
        else \<exists>r frame obj st b. settlements s' = settlements s @ [r] \<and> pending r \<and>
          PaymentID r = dec_string (ev_TxNonce ev) \<and> SettlementTxHash r = Hash_Hex eth (ev_TxHash ev) \<and>
          rc_SatID r = ev_SatID ev \<and> rc_Amount r = dec_string (ev_Amount ev) \<and>
          rc_Wallet r = Address_Hex eth (ev_Wallet ev) \<and> rc_BlockNumber r = ev_BlockNumber ev \<and>
          DecodeString (PacketCHex r) = Ok frame \<and> length frame = PacketCFrameLen \<and>
          parse_frame k frame = Ok (obj, st) \<and> Body obj = PacketCBody b \<and>
          pc_ExecTime b = ev_BlockTimeSec ev * 1000 \<and> pc_EncTxId b = word_of_nat (ev_TxNonce ev) \<and>
          pc_EncStatus b = 1 \<and>
          Verify ed (Public ed (NewKeyFromSeed ed (p_seed p))) (seg frame 14 40) (sig_Raw (pc_Signature b))))"
proof (cases "event_key eth ev \<in> record_key ` set (settlements s) \<or> res \<noteq> Ok ()")
  case True
  with Handle_queue [OF assms(1-3,5)] show ?thesis by (auto split: if_splits)
next
  case False
  let ?f = "built ed p (seqCount p) ev"
  let ?r = "(receipt_for eth ev ?f)\<lparr>DispatchStatus := StatusPending\<rparr>"
  have "settlements s' = settlements s @ [?r]" "p' = p\<lparr>seqCount := (seqCount p + 1) AND 0x3FFF\<rparr>" "store_inv s'"
    using Handle_queue [OF assms(1-3,5)] False by auto
  moreover note built_accepted [OF assms(2-4), of "seqCount p" ev]
  moreover have "DecodeString (PacketCHex ?r) = Ok ?f"
    by (simp add: receipt_for_def DecodeString_EncodeToString)
  ultimately show ?thesis
    using False
    by (auto simp: receipt_for_def pending_def payment_id_def tx_hash_hex_def intro!: exI [of _ ?r])
qed

definition demo_event :: settlement_event where
  "demo_event = \<lparr>ev_SatID = 7, ev_Amount = 42, ev_TxNonce = 12, ev_Wallet = [1], ev_TxHash = [171],
     ev_BlockNumber = 3, ev_BlockTimeSec = 1\<rparr>"

definition demo_processor :: processor where
  "demo_processor = \<lparr>sellerAPID = SellerAPID100, p_seed = replicate 32 9, seqCount = 0\<rparr>"

lemma demo_processor_ok: "seed_ok demo_processor" "seqCount demo_processor = 0"
  by (simp_all add: demo_processor_def seed_ok_def SeedSize_def)

lemma store_inv_empty: "store_inv (empty_store path)"
  using durable_empty by (simp add: durable_def)

lemma settlements_empty [simp]: "settlements (empty_store path) = []"
  by (simp add: settlements_def empty_store_def)

lemma demo_append: "fst (append_receipt demo_js Stored r (empty_store path)) = Ok ()"
  by (simp add: append_receipt_def Append_def empty_store_def writeLineLocked_def demo_js_def Let_def)

theorem Handle_records_settlement_witness:
  "\<exists>p' s' r. Handle demo_ed demo_eth demo_js Stored demo_event (demo_processor, empty_store ''f'') = (Ok (), p', s') \<and>
     settlements s' = [r] \<and> PaymentID r = ''12'' \<and> seqCount p' = 1"
proof -
  obtain res p' s' where h:
    "Handle demo_ed demo_eth demo_js Stored demo_event (demo_processor, empty_store ''f'') = (res, p', s')"
    by (metis surj_pair)
  have "res = Ok ()"
    using h Handle_new [OF store_inv_empty _ demo_ed_ok demo_processor_ok(1), of demo_eth demo_event "''f''" demo_js Stored]
      demo_append by (auto simp: Let_def split_beta)
  moreover have "dec_string 12 = ''12''" by code_simp
  ultimately show ?thesis
    using h Handle_records_settlement [OF store_inv_empty demo_ed_ok demo_processor_ok(1) bytes_stream.kaitai_stream_axioms h]
    by (auto simp: demo_event_def demo_processor_ok(2))
qed

text \<open>
  C17.  Calls of \<^verbatim>\<open>Handle\<close> that run at the same time.  Under every interleaving of the atomic sections and
  every fate of the writes, starting from a good store: the store stays a queue with one receipt per
  key; it has only grown, by receipts of events that are being handled; a call that has returned
  success has its receipt in the store, also when another call won the race between the check and
  the append; no call panics; and the sequence numbers handed out are the successive values of the
  14-bit counter, so up to 16384 of them are pairwise different.
\<close>

theorem concurrent_handles_are_safe:
  assumes "store_inv s" and "ed25519_ok ed" and "seed_ok p" and "seqCount p < 16384"
    and "handler_run ed eth js (start_handlers p s events) h"
  shows "distinct (map record_key (settlements (h_store h))) \<and>
    (\<exists>new. settlements (h_store h) = settlements s @ new \<and> record_key ` set new \<subseteq> event_key eth ` set events) \<and>
    (\<forall>c \<in> set (h_calls h). c_pc c \<noteq> Returned Panic \<and>
       (c_pc c = Returned (Ok ()) \<longrightarrow> event_key eth (c_event c) \<in> record_key ` set (settlements (h_store h)))) \<and>
    h_taken h = map (\<lambda>j. word_of_nat ((unat (seqCount p) + j) mod 16384)) [0..<length (h_taken h)] \<and>
    (length (h_taken h) \<le> 16384 \<longrightarrow> distinct (h_taken h))"
proof -
  have inv: "handlers_inv eth p s events h"
    by (rule handlers_inv_run [OF assms(5,2) handlers_inv_start [OF assms(1,3,4)]])
  then have taken: "h_taken h = map (\<lambda>j. word_of_nat ((unat (seqCount p) + j) mod 16384)) [0..<length (h_taken h)]"
    by (simp add: handlers_inv_def)
  have "distinct (h_taken h)" if "length (h_taken h) \<le> 16384"
  proof -
    have "inj_on (\<lambda>j. word_of_nat ((unat (seqCount p) + j) mod 16384) :: u16) (set [0..<length (h_taken h)])"
      using that by (intro inj_onI wrapped_index) auto
    then show ?thesis by (subst taken) (simp only: distinct_map distinct_upt simp_thms)
  qed
  with inv taken receipt_store.keys_distinct [of "h_store h"] show ?thesis
    unfolding handlers_inv_def call_inv_def by blast
qed

theorem concurrent_handles_are_safe_witness:
  "\<exists>h. handler_run demo_ed demo_eth demo_js
       (start_handlers demo_processor (empty_store ''f'') [demo_event, demo_event]) h \<and>
     (\<forall>c \<in> set (h_calls h). \<exists>res. c_pc c = Returned res) \<and>
     distinct (map record_key (settlements (h_store h))) \<and>
     record_key ` set (settlements (h_store h)) \<subseteq> {event_key demo_eth demo_event}"
proof -
  obtain h where h: "handler_run demo_ed demo_eth demo_js
      (start_handlers demo_processor (empty_store ''f'') [demo_event, demo_event]) h"
    "\<forall>c \<in> set (h_calls h). \<exists>res. c_pc c = Returned res"
    using handlers_finish by blast
  have "seqCount demo_processor < 16384" by (simp add: demo_processor_def)
  with concurrent_handles_are_safe [OF store_inv_empty demo_ed_ok demo_processor_ok(1) _ h(1)] h show ?thesis
    by auto
qed

end
