(* ===== verification/Gin_Context.thy ===== *)
theory Gin_Context
  imports Receipt_Store
begin

text \<open>
  The gin context as the handlers of \<^verbatim>\<open>api/handlers\<close> use it: the list of the responses written so far
  and the abort flag.  A JSON error object is its message, or the store error whose text it carries.
\<close>

datatype reply =
    ErrorReply string
  | AcceptedReply int string
  | ReceiptsReply "receipt_record list"
  | StatusReply string
  | StoreErrorReply store_error

record gin_context =
  responses :: "(nat \<times> reply) list"
  aborted :: bool

definition NewContext :: gin_context where
  "NewContext = \<lparr>responses = [], aborted = False\<rparr>"

definition AbortWithReply :: "nat \<Rightarrow> reply \<Rightarrow> gin_context \<Rightarrow> gin_context" where
  "AbortWithReply code r c = c\<lparr>responses := responses c @ [(code, r)], aborted := True\<rparr>"

definition AbortWithStatusJSON :: "nat \<Rightarrow> string \<Rightarrow> gin_context \<Rightarrow> gin_context" where
  "AbortWithStatusJSON code msg c = AbortWithReply code (ErrorReply msg) c"

definition JSON :: "nat \<Rightarrow> reply \<Rightarrow> gin_context \<Rightarrow> gin_context" where
  "JSON code r c = c\<lparr>responses := responses c @ [(code, r)]\<rparr>"

definition IsAborted :: "gin_context \<Rightarrow> bool" where
  "IsAborted c = aborted c"

definition StatusOK :: nat where "StatusOK = 200"
definition StatusBadRequest :: nat where "StatusBadRequest = 400"
definition StatusUnauthorized :: nat where "StatusUnauthorized = 401"
definition StatusNotFound :: nat where "StatusNotFound = 404"
definition StatusInternalServerError :: nat where "StatusInternalServerError = 500"
definition StatusServiceUnavailable :: nat where "StatusServiceUnavailable = 503"

lemmas gin_simps = NewContext_def AbortWithStatusJSON_def AbortWithReply_def JSON_def IsAborted_def StatusOK_def
  StatusBadRequest_def StatusUnauthorized_def StatusNotFound_def StatusInternalServerError_def
  StatusServiceUnavailable_def

end
