(* ===== verification/Egress.thy ===== *)
theory Egress
  imports Gin_Context Store_Durability
begin

text \<open>
  \<^verbatim>\<open>api/handlers/egress.go\<close>: the two endpoints the bouncer drains receipts with.  The package variable
  \<^verbatim>\<open>EgressStore\<close> is an optional store; what \<^verbatim>\<open>ShouldBindJSON\<close> made of the request body and the fate of a
  write are arguments.  A bouncer that polls and acknowledges is modelled as the client of the two
  handlers, with restarts of the gateway between its rounds.
\<close>

section \<open>The handlers\<close>

definition EgressPageSize :: int where "EgressPageSize = 10"

definition HandleEgressPending :: "store option \<Rightarrow> gin_context \<Rightarrow> gin_context" where
  "HandleEgressPending es c =
     (case es of
        None \<Rightarrow> AbortWithStatusJSON StatusServiceUnavailable ''egress pipeline not configured'' c
      | Some s \<Rightarrow> JSON StatusOK (ReceiptsReply (PendingRecords EgressPageSize s)) c)"

record ackRequest =
  ack_PaymentID :: string
  ack_SettlementTxHash :: string

definition HandleEgressAck ::
    "json_codec \<Rightarrow> io_fate \<Rightarrow> string + ackRequest \<Rightarrow> store option \<Rightarrow> gin_context \<Rightarrow> store option \<times> gin_context" where
  "HandleEgressAck js fate bound es c =
     (case es of
        None \<Rightarrow> (None, AbortWithStatusJSON StatusServiceUnavailable ''egress pipeline not configured'' c)
      | Some s \<Rightarrow>
          (case bound of
             Inl e \<Rightarrow> (es, AbortWithStatusJSON StatusBadRequest ''invalid JSON'' c)
           | Inr req \<Rightarrow>
               if ack_PaymentID req = '''' \<or> ack_SettlementTxHash req = ''''
               then (es, AbortWithStatusJSON StatusBadRequest ''payment_id and settlement_tx_hash are required'' c)
               else (case MarkDispatched js fate (ack_PaymentID req) (ack_SettlementTxHash req) s of
                   (Some e, s') \<Rightarrow>
                     if e = ErrUnknown
                     then (Some s', AbortWithStatusJSON StatusNotFound ''unknown payment_id + settlement_tx_hash'' c)
                     else (Some s', AbortWithReply StatusInternalServerError (StoreErrorReply e) c)
                 | (None, s') \<Rightarrow> (Some s', JSON StatusOK (StatusReply ''dispatched'') c))))"

section \<open>The contract of a bouncer\<close>

text \<open>
  What the two endpoints are made for, as a specification: a client that polls, transmits what it got and
  acknowledges each receipt.  It is not the ground station of the repository, which reaches the endpoints
  through HTTP and a serial line; that one is \<^verbatim>\<open>tick\<close> of \<^verbatim>\<open>Egress_Client\<close>, and \<^verbatim>\<open>Egress_Drain\<close> and \<^verbatim>\<open>Station_Drain\<close> show
  when it meets this contract and when it does not.
\<close>

definition ack_for :: "receipt_record \<Rightarrow> ackRequest" where
  "ack_for r = \<lparr>ack_PaymentID = PaymentID r, ack_SettlementTxHash = SettlementTxHash r\<rparr>"

text \<open>One round: poll, transmit what came back, acknowledge each receipt.\<close>

definition acknowledge :: "json_codec \<Rightarrow> receipt_record list \<Rightarrow> store option \<Rightarrow> store option" where
  "acknowledge js rs es =
     fold (\<lambda>r es. fst (HandleEgressAck js Stored (Inr (ack_for r)) es NewContext)) rs es"

definition polled :: "store option \<Rightarrow> receipt_record list" where
  "polled es = (case responses (HandleEgressPending es NewContext) of
     [(_, ReceiptsReply rs)] \<Rightarrow> rs | _ \<Rightarrow> [])"

text \<open>A restart of the gateway: the store is what opening its file gives.\<close>

definition restart :: "json_codec \<Rightarrow> store option \<Rightarrow> store option" where
  "restart js es = (case es of None \<Rightarrow> None
     | Some s \<Rightarrow> (case NewStore js Loads (st_path s) (disk s) of Ok s' \<Rightarrow> Some s' | _ \<Rightarrow> None))"

text \<open>Rounds, each after a restart or not; the result is what was transmitted and the store.\<close>

fun bouncer_rounds :: "json_codec \<Rightarrow> bool list \<Rightarrow> store option \<Rightarrow> receipt_record list \<times> store option" where
  "bouncer_rounds js [] es = ([], es)"
| "bouncer_rounds js (crash # rounds) es =
     (let es1 = (if crash then restart js es else es); rs = polled es1;
          (sent, es') = bouncer_rounds js rounds (acknowledge js rs es1)
      in (rs @ sent, es'))"

section \<open>Draining\<close>

definition drainable :: "json_codec \<Rightarrow> store \<Rightarrow> bool" where
  "drainable js s \<longleftrightarrow> durable js s \<and> is_open s \<and>
     (\<forall>r \<in> set (settlements s). PaymentID r \<noteq> '''' \<and> SettlementTxHash r \<noteq> '''')"

lemma durable_inv: "durable js s \<Longrightarrow> store_inv s"
  by (simp add: durable_def)

lemma polled_Some: "polled (Some s) = PendingRecords 10 s"
  by (simp add: polled_def HandleEgressPending_def gin_simps EgressPageSize_def)

text \<open>On an open store with a working disk, marking a known receipt succeeds.\<close>

lemma MarkDispatched_stored:
  assumes "json_ok js" and "durable js s" and "is_open s" and "r \<in> set (settlements s)"
  shows "\<exists>s'. MarkDispatched js Stored (PaymentID r) (SettlementTxHash r) s = (None, s') \<and> is_open s'"
proof -
  let ?r = "r\<lparr>DispatchStatus := StatusDispatched\<rparr>"
  have "map_of (records s) (dedupKey (PaymentID r) (SettlementTxHash r)) = Some r"
    using map_of_settlements [OF durable_inv [OF assms(2)], of "record_key r" r] assms(4)
    by (simp add: record_key_def)
  moreover have "ascii_record ?r"
    using assms(2,4) by (simp add: durable_def storable_def good_line_def)
  then have "Marshal js ?r = Some (store_line js ?r)" by (rule json_line(1) [OF assms(1)])
  ultimately show ?thesis
    using assms(3) by (simp add: MarkDispatched_def Let_def writeLineLocked_def)
qed

lemma MarkDispatched_again:
  assumes "store_inv s" and "MarkDispatched js fate p t s = (None, s')"
  shows "MarkDispatched js fate' p t s' = (None, s')"
proof -
  let ?k = "dedupKey p t"
  note ok = MarkDispatched_Ok [OF assms]
  obtain r where r: "r \<in> set (settlements s)" "record_key r = ?k" using ok(1) by auto
  have "dispatch ?k r \<in> set (settlements s')" "record_key (dispatch ?k r) = ?k"
    using r ok(3) by auto
  then have "map_of (records s') ?k = Some (dispatch ?k r)"
    using map_of_settlements [OF ok(2)] by blast
  then show ?thesis using r(2) by (simp add: MarkDispatched_def Let_def dispatch_def)
qed

lemma dispatch_settlement:
  "PaymentID (dispatch k r) = PaymentID r" "SettlementTxHash (dispatch k r) = SettlementTxHash r"
  by (simp_all add: dispatch_def)

lemma pending_dispatch:
  "filter pending (map (dispatch k) rs) = filter (\<lambda>r. record_key r \<noteq> k) (filter pending rs)"
  by (induction rs) (simp_all add: dispatch_def pending_def StatusPending_def StatusDispatched_def)

lemma acknowledge_one:
  assumes "json_ok js" and "drainable js s" and "r \<in> set (settlements s)"
  shows "\<exists>s'. HandleEgressAck js Stored (Inr (ack_for r)) (Some s) NewContext
      = (Some s', \<lparr>responses = [(200, StatusReply ''dispatched'')], aborted = False\<rparr>) \<and> drainable js s' \<and>
    settlements s' = map (dispatch (record_key r)) (settlements s)"
proof -
  have d: "durable js s" "is_open s" using assms(2) by (simp_all add: drainable_def)
  obtain s' where run: "MarkDispatched js Stored (PaymentID r) (SettlementTxHash r) s = (None, s')" "is_open s'"
    using MarkDispatched_stored [OF assms(1) d assms(3)] by blast
  have q: "settlements s' = map (dispatch (record_key r)) (settlements s)"
    using MarkDispatched_Ok(3) [OF durable_inv [OF d(1)] run(1)] by (simp add: record_key_def)
  have "durable js s'"
    using durable_MarkDispatched [OF assms(1) d(1), of Stored "PaymentID r" "SettlementTxHash r"] run
    by (simp add: clean_def)
  then have "drainable js s'"
    using run(2) q assms(2) by (auto simp: drainable_def dispatch_settlement)
  moreover have "HandleEgressAck js Stored (Inr (ack_for r)) (Some s) NewContext
      = (Some s', \<lparr>responses = [(200, StatusReply ''dispatched'')], aborted = False\<rparr>)"
    using assms(2,3) run by (auto simp: HandleEgressAck_def ack_for_def drainable_def gin_simps)
  ultimately show ?thesis using q by blast
qed

text \<open>Acknowledging the oldest pending receipt takes it off the queue.\<close>

lemma acknowledge_head:
  assumes "json_ok js" and "drainable js s" and "filter pending (settlements s) = r # rs"
  shows "\<exists>s'. HandleEgressAck js Stored (Inr (ack_for r)) (Some s) NewContext
      = (Some s', \<lparr>responses = [(200, StatusReply ''dispatched'')], aborted = False\<rparr>) \<and> drainable js s' \<and>
    filter pending (settlements s') = rs"
proof -
  have r: "r \<in> set (settlements s)" using arg_cong [OF assms(3), of set] by auto
  obtain s1 where s1: "HandleEgressAck js Stored (Inr (ack_for r)) (Some s) NewContext
      = (Some s1, \<lparr>responses = [(200, StatusReply ''dispatched'')], aborted = False\<rparr>)"
      "drainable js s1" "settlements s1 = map (dispatch (record_key r)) (settlements s)"
    using acknowledge_one [OF assms(1,2) r] by blast
  have keys: "distinct (map record_key (settlements s))"
    using assms(2) receipt_store.keys_distinct by (simp add: drainable_def durable_def)
  have "distinct (map record_key (filter pending (settlements s)))"
    by (rule distinct_map_filter [OF keys])
  then have "record_key r \<notin> record_key ` set rs"
    unfolding assms(3) by auto
  then have "filter (\<lambda>q. record_key q \<noteq> record_key r) rs = rs"
    by (simp only: filter_id_conv) (metis imageI)
  then have "filter pending (settlements s1) = rs"
    unfolding s1(3) pending_dispatch assms(3) by simp
  with s1(1,2) show ?thesis by blast
qed

lemma acknowledge_prefix:
  assumes "json_ok js" and "drainable js s" and "filter pending (settlements s) = rs @ rest"
  shows "\<exists>s'. acknowledge js rs (Some s) = Some s' \<and> drainable js s' \<and> filter pending (settlements s') = rest"
  using assms(2,3)
proof (induction rs arbitrary: s)
  case Nil
  then show ?case by (simp add: acknowledge_def)
next
  case (Cons r rs)
  then have "filter pending (settlements s) = r # rs @ rest" by simp
  from acknowledge_head [OF assms(1) Cons.prems(1) this] obtain s1 where
    s1: "fst (HandleEgressAck js Stored (Inr (ack_for r)) (Some s) NewContext) = Some s1"
      "drainable js s1" "filter pending (settlements s1) = rs @ rest" by auto
  from Cons.IH [OF s1(2,3)] s1(1) show ?case by (simp add: acknowledge_def)
qed

lemma restart_drainable:
  assumes "json_ok js" and "drainable js s"
  shows "\<exists>s'. restart js (Some s) = Some s' \<and> drainable js s' \<and> settlements s' = settlements s"
proof -
  have d: "durable js s" using assms(2) by (simp add: drainable_def)
  let ?s = "s\<lparr>st_path := st_path s, is_open := True\<rparr>"
  have "restart js (Some s) = Some ?s"
    using reload_durable [OF assms(1) d] by (simp add: restart_def)
  moreover have "settlements ?s = settlements s" "durable js ?s"
    using d by (simp_all add: settlements_def durable_def store_inv_def)
  ultimately show ?thesis
    using assms(2) by (auto simp: drainable_def)
qed

lemma bouncer_rounds_drain:
  assumes "json_ok js" and "drainable js s"
  shows "\<exists>s'. bouncer_rounds js rounds (Some s) = (take (10 * length rounds) (filter pending (settlements s)), Some s') \<and>
    drainable js s' \<and> filter pending (settlements s') = drop (10 * length rounds) (filter pending (settlements s))"
  using assms(2)
proof (induction rounds arbitrary: s)
  case Nil
  then show ?case by simp
next
  case (Cons crash rounds)
  let ?q = "filter pending (settlements s)"
  obtain s1 where s1: "(if crash then restart js (Some s) else Some s) = Some s1" "drainable js s1"
    "settlements s1 = settlements s"
    using restart_drainable [OF assms(1) Cons.prems] Cons.prems by (cases crash) auto
  have rs: "polled (Some s1) = take 10 ?q"
    using receipt_store.pending_eq [of s1 10] s1 by (simp add: polled_Some drainable_def durable_def)
  have "filter pending (settlements s1) = take 10 ?q @ drop 10 ?q" using s1(3) by simp
  then obtain s2 where s2: "acknowledge js (take 10 ?q) (Some s1) = Some s2" "drainable js s2"
    "filter pending (settlements s2) = drop 10 ?q"
    using acknowledge_prefix [OF assms(1) s1(2)] by blast
  obtain s3 where s3: "bouncer_rounds js rounds (Some s2) = (take (10 * length rounds) (drop 10 ?q), Some s3)"
    "drainable js s3" "filter pending (settlements s3) = drop (10 * length rounds) (drop 10 ?q)"
    using Cons.IH [OF s2(2)] s2(3) by auto
  have "take 10 ?q @ take (10 * length rounds) (drop 10 ?q) = take (10 * length (crash # rounds)) ?q"
    by (simp add: take_add)
  moreover have "drop (10 * length rounds) (drop 10 ?q) = drop (10 * length (crash # rounds)) ?q"
    by (simp add: add.commute)
  moreover have "bouncer_rounds js (crash # rounds) (Some s)
      = (take 10 ?q @ take (10 * length rounds) (drop 10 ?q), Some s3)"
    by (simp only: bouncer_rounds.simps s1(1) Let_def rs s2(1) s3(1) prod.case)
  ultimately show ?case using s3(2,3) by metis
qed

section \<open>Properties\<close>

text \<open>
  C25.  The acknowledgement endpoint.  Every request gets exactly one answer: 503 without a store, 400
  for a body that is not the JSON object or misses a field, 404 for a receipt that was never recorded
  and otherwise 200, or 500 when the write failed.  Only a 200 changes the queue, and it changes exactly
  the status of the acknowledged receipt, so the receipts still offered are the pending ones before
  without that one.  After a 200 the same request gets 200 again and leaves the store as it is,
  whatever the disk does: a lost answer can be retried.
\<close>

theorem HandleEgressAck_answers:
  assumes "store_inv s"
  shows "HandleEgressAck js fate bound None NewContext
      = (None, \<lparr>responses = [(503, ErrorReply ''egress pipeline not configured'')], aborted = True\<rparr>) \<and>
    (\<exists>s' code r. HandleEgressAck js fate bound (Some s) NewContext
        = (Some s', \<lparr>responses = [(code, r)], aborted = (code \<noteq> 200)\<rparr>) \<and>
      store_inv s' \<and>
      (case bound of
         Inl e \<Rightarrow> code = 400 \<and> s' = s
       | Inr req \<Rightarrow>
           let k = dedupKey (ack_PaymentID req) (ack_SettlementTxHash req) in
           if ack_PaymentID req = '''' \<or> ack_SettlementTxHash req = '''' then code = 400 \<and> s' = s
           else if k \<notin> record_key ` set (settlements s) then code = 404 \<and> s' = s
           else if code = 200
           then filter pending (settlements s') = filter (\<lambda>r. record_key r \<noteq> k) (filter pending (settlements s)) \<and>
             map record_key (settlements s') = map record_key (settlements s) \<and>
             (\<forall>fate'. HandleEgressAck js fate' bound (Some s') NewContext
                = (Some s', \<lparr>responses = [(200, StatusReply ''dispatched'')], aborted = False\<rparr>))
           else code = 500 \<and> settlements s' = settlements s))"
    (is "?none \<and> ?some")
proof
  show ?none by (simp add: HandleEgressAck_def gin_simps)
  consider (bad) e where "bound = Inl e"
    | (empty) req where "bound = Inr req" "ack_PaymentID req = '''' \<or> ack_SettlementTxHash req = ''''"
    | (mark) req where "bound = Inr req" "\<not> (ack_PaymentID req = '''' \<or> ack_SettlementTxHash req = '''')"
    by (cases bound) blast+
  then show ?some
  proof cases
    case bad
    with assms show ?thesis by (simp add: HandleEgressAck_def gin_simps)
  next
    case empty
    with assms show ?thesis by (simp add: HandleEgressAck_def gin_simps)
  next
    case mark
    let ?p = "ack_PaymentID req" and ?t = "ack_SettlementTxHash req"
    obtain e s' where run: "MarkDispatched js fate ?p ?t s = (e, s')" by (cases "MarkDispatched js fate ?p ?t s")
    show ?thesis
    proof (cases e)
      case None
      note ok = MarkDispatched_Ok [OF assms run [unfolded None]]
      have "MarkDispatched js fate' ?p ?t s' = (None, s')" for fate'
        by (rule MarkDispatched_again [OF assms run [unfolded None]])
      with run None mark ok show ?thesis
        by (simp add: HandleEgressAck_def gin_simps pending_dispatch o_def)
    next
      case (Some err)
      have keep: "store_inv s'" "settlements s' = settlements s"
        using MarkDispatched_error_frame [OF run [unfolded Some]] assms by auto
      have unknown: "err = ErrUnknown \<longleftrightarrow> dedupKey ?p ?t \<notin> record_key ` set (settlements s)"
        using MarkDispatched_error_iff [OF run [unfolded Some]] Has_queue [OF assms] by simp
      moreover have "s' = s" if "err = ErrUnknown"
        using that unknown run receipt_store.mark_unknown [OF assms, of ?p ?t js fate] by simp
      ultimately show ?thesis
        using run Some mark keep assms by (simp add: HandleEgressAck_def gin_simps)
    qed
  qed
qed

text \<open>A store that holds one pending receipt, for the witnesses.\<close>

definition demo_stored :: store where
  "demo_stored = snd (Append demo_js Stored demo_receipt (empty_store ''f''))"

lemma demo_stored_drainable: "drainable demo_js demo_stored"
proof -
  have "durable demo_js demo_stored"
    unfolding demo_stored_def
    by (rule durable_Append [OF demo_js_ok durable_empty demo_receipt_storable]) (simp add: clean_def)
  moreover have "is_open demo_stored" "settlements demo_stored = [default_status demo_receipt]"
    by code_simp+
  moreover have "PaymentID (default_status demo_receipt) \<noteq> ''''" "SettlementTxHash (default_status demo_receipt) \<noteq> ''''"
    by code_simp+
  ultimately show ?thesis by (simp add: drainable_def)
qed

theorem HandleEgressAck_answers_witness:
  "\<exists>s'. HandleEgressAck demo_js Stored (Inr (ack_for demo_receipt)) (Some demo_stored) NewContext
      = (Some s', \<lparr>responses = [(200, StatusReply ''dispatched'')], aborted = False\<rparr>) \<and>
     filter pending (settlements s') = [] \<and>
     HandleEgressAck demo_js (WriteError 3 ''disk full'') (Inr (ack_for demo_receipt)) (Some s') NewContext
      = (Some s', \<lparr>responses = [(200, StatusReply ''dispatched'')], aborted = False\<rparr>)"
proof -
  let ?run = "HandleEgressAck demo_js Stored (Inr (ack_for demo_receipt)) (Some demo_stored) NewContext"
  have inv: "store_inv demo_stored"
    using demo_stored_drainable by (simp add: drainable_def durable_def)
  have ctx: "snd ?run = \<lparr>responses = [(200, StatusReply ''dispatched'')], aborted = False\<rparr>" by code_simp
  have req: "ack_PaymentID (ack_for demo_receipt) \<noteq> ''''" "ack_SettlementTxHash (ack_for demo_receipt) \<noteq> ''''"
    by code_simp+
  have known: "dedupKey (ack_PaymentID (ack_for demo_receipt)) (ack_SettlementTxHash (ack_for demo_receipt))
      \<in> record_key ` set (settlements demo_stored)" by code_simp
  have only: "filter (\<lambda>r. record_key r \<noteq> dedupKey (ack_PaymentID (ack_for demo_receipt)) (ack_SettlementTxHash (ack_for demo_receipt)))
      (filter pending (settlements demo_stored)) = []" by code_simp
  obtain s' code r where run: "?run = (Some s', \<lparr>responses = [(code, r)], aborted = (code \<noteq> 200)\<rparr>)"
    and post: "if code = 200 then filter pending (settlements s') = [] \<and>
        (\<forall>fate'. HandleEgressAck demo_js fate' (Inr (ack_for demo_receipt)) (Some s') NewContext
           = (Some s', \<lparr>responses = [(200, StatusReply ''dispatched'')], aborted = False\<rparr>))
      else code = 500"
    using HandleEgressAck_answers [OF inv, of demo_js Stored "Inr (ack_for demo_receipt)"] req known only
    by (auto simp: Let_def split: if_splits)
  from run ctx have "code = 200" "r = StatusReply ''dispatched''" by auto
  with run post show ?thesis by auto
qed

end
