(* ===== verification/Receipt_Pipeline.thy ===== *)
theory Receipt_Pipeline
  imports Processor Egress
begin

text \<open>
  The goroutine that \<^verbatim>\<open>startReceiptWatcher\<close> of \<^verbatim>\<open>cmd/server/main.go\<close> starts: the watcher's loop with the
  callback that feeds every settlement event to the receipt processor.  A failed event is logged and
  the loop goes on.  The fates of the writes come from a list; when it is used up the disk works.
\<close>

section \<open>The callback\<close>

record pipeline =
  pl_proc :: processor
  pl_store :: store
  pl_fates :: "io_fate list"
  pl_errors :: "(settlement_event \<times> processor_error) list"
  pl_panicked :: bool

definition on_event ::
    "ed25519_lib \<Rightarrow> eth_lib \<Rightarrow> json_codec \<Rightarrow> settlement_event \<Rightarrow> pipeline \<Rightarrow> pipeline" where
  "on_event ed eth js ev x =
     (if pl_panicked x then x
      else let fate = (case pl_fates x of [] \<Rightarrow> Stored | f # fs \<Rightarrow> f) in
        case Handle ed eth js fate ev (pl_proc x, pl_store x) of
          (res, p, s) \<Rightarrow>
            (let x' = x\<lparr>pl_proc := p, pl_store := s, pl_fates := drop 1 (pl_fates x)\<rparr> in
             case res of
               Ok _ \<Rightarrow> x'
             | Err e \<Rightarrow> x'\<lparr>pl_errors := pl_errors x @ [(ev, e)]\<rparr>
             | Panic \<Rightarrow> x'\<lparr>pl_panicked := True\<rparr>))"

definition run_receipts ::
    "ed25519_lib \<Rightarrow> eth_lib \<Rightarrow> json_codec \<Rightarrow> 'c event_filterer \<Rightarrow> nat \<Rightarrow> watcher \<Rightarrow> 'c \<Rightarrow> pipeline \<Rightarrow>
     watcher_error option \<times> watcher \<times> 'c \<times> pipeline" where
  "run_receipts ed eth js cl ticks w c x = Run eth cl (on_event ed eth js) ticks w c x"

section \<open>Sizes and characters of a receipt\<close>

text \<open>
  What the pipeline relies on of the libraries: an address is 20 bytes and its text 42 ASCII
  characters; a JSON line is no longer than the names and numbers and six characters for each
  character of a string.
\<close>

definition eth_text :: "eth_lib \<Rightarrow> bool" where
  "eth_text eth \<longleftrightarrow> eth_ok eth \<and> (\<forall>bs. length bs = 32 \<longrightarrow> length (BytesToAddress eth bs) = 20) \<and>
     (\<forall>a. length a = 20 \<longrightarrow> ascii (Address_Hex eth a) \<and> length (Address_Hex eth a) = 42)"

definition text_size :: "receipt_record \<Rightarrow> nat" where
  "text_size r = length (PaymentID r) + length (SettlementTxHash r) + length (rc_Amount r) +
     length (rc_Wallet r) + length (PacketCHex r) + length (DispatchStatus r)"

definition json_compact :: "json_codec \<Rightarrow> bool" where
  "json_compact js \<longleftrightarrow> (\<forall>r line. Marshal js r = Some line \<longrightarrow> length line \<le> 400 + 6 * text_size r)"

text \<open>The sizes a decoded log has by its Go types: 32-byte topics, data and hash.\<close>

definition typed_log :: "eth_log \<Rightarrow> bool" where
  "typed_log l \<longleftrightarrow> (\<forall>t \<in> set (log_Topics l). length t = 32) \<and> length (log_TxHash l) = 32"

definition typed_event :: "settlement_event \<Rightarrow> bool" where
  "typed_event ev \<longleftrightarrow> ev_TxNonce ev < 2 ^ 256 \<and> ev_Amount ev < 2 ^ 256 \<and> length (ev_Wallet ev) = 20 \<and>
     length (ev_TxHash ev) = 32"

lemma typed_event_of:
  assumes "eth_text eth" and "typed_log l" and "well_formed_log l"
  shows "typed_event (event_of eth l)"
proof -
  have top: "length (log_Topics l ! i) = 32" if "i < 4" for i
    using that assms(2,3) by (simp add: typed_log_def well_formed_log_def)
  have "SetBytes (log_Topics l ! 2) < 256 ^ 32" "SetBytes (log_Data l) < 256 ^ 32"
    using SetBytes_less [of "log_Topics l ! 2"] SetBytes_less [of "log_Data l"] top [of 2] assms(3)
    by (simp_all add: well_formed_log_def)
  then have "SetBytes (log_Topics l ! 2) < 2 ^ 256" "SetBytes (log_Data l) < 2 ^ 256"
    by (simp_all add: power_mult [of 2 8 32, simplified])
  moreover have "length (BytesToAddress eth (log_Topics l ! 3)) = 20"
    using assms(1) top [of 3] by (simp add: eth_text_def)
  ultimately show ?thesis
    using assms(2,3)
    by (simp add: typed_event_def event_of_def decodeSettlementCreated_def well_formed_log_def typed_log_def)
qed

lemma typed_event_untimed: "typed_event (untimed ev) = typed_event ev"
  by (simp add: typed_event_def untimed_def)

lemma event_key_untimed: "event_key eth (untimed ev) = event_key eth ev"
  by (simp add: event_key_def payment_id_def tx_hash_hex_def untimed_def)

lemma length_dec_string: "n < 10 ^ k \<Longrightarrow> 0 < k \<Longrightarrow> length (dec_string n) \<le> k"
proof (induction k arbitrary: n)
  case 0
  then show ?case by simp
next
  case (Suc k)
  show ?case
  proof (cases "n < 10")
    case True
    then show ?thesis by (simp add: dec_string.simps [of n])
  next
    case False
    then have "0 < k" using Suc.prems by (cases k) auto
    moreover have "n div 10 < 10 ^ k" using Suc.prems by (simp add: div_less_iff_less_mult mult.commute)
    ultimately show ?thesis using Suc.IH [of "n div 10"] False by (simp add: dec_string.simps [of n])
  qed
qed

lemma ascii_dec_string: "ascii (dec_string n)"
  using dec_string_digits [of _ n] by (fastforce simp: ascii_def list_all_iff)

lemma ascii_EncodeToString: "ascii (EncodeToString bs)"
proof -
  have h: "of_char (hex_char n) < (128 :: nat)" if "n < 16" for n
    using that by (auto simp: hex_char_def)
  have "unat b div 16 < 16" for b :: byte
    using unsigned_less [where 'a = nat, of b] by simp
  with h show ?thesis by (auto simp: ascii_def list_all_iff EncodeToString_def)
qed

lemma ascii_hash: "eth_ok eth \<Longrightarrow> ascii (Hash_Hex eth h)"
  using ascii_EncodeToString [of h] by (simp add: eth_ok_def ascii_def)

lemma ascii_status: "ascii StatusPending" "ascii StatusDispatched"
  by (simp_all add: ascii_def StatusPending_def StatusDispatched_def)

lemma receipt_good_line:
  assumes "json_compact js" and "json_ok js" and "eth_text eth" and "typed_event ev" and "length frame = PacketCFrameLen"
    and "ascii st" and "length st \<le> 10"
  shows "good_line js ((receipt_for eth ev frame)\<lparr>DispatchStatus := st\<rparr>)"
proof -
  let ?r = "(receipt_for eth ev frame)\<lparr>DispatchStatus := st\<rparr>"
  have eth: "eth_ok eth" "ascii (Address_Hex eth (ev_Wallet ev))" "length (Address_Hex eth (ev_Wallet ev)) = 42"
    using assms(3,4) by (auto simp: eth_text_def typed_event_def)
  have asc: "ascii_record ?r"
    using eth(2) assms(6) ascii_hash [OF eth(1)]
    by (simp add: ascii_record_def receipt_for_def payment_id_def tx_hash_hex_def ascii_dec_string ascii_EncodeToString)
  have "(2 :: nat) ^ 256 \<le> 10 ^ 78" by simp
  then have "length (dec_string (ev_TxNonce ev)) \<le> 78" "length (dec_string (ev_Amount ev)) \<le> 78"
    using assms(4) by (auto intro!: length_dec_string simp: typed_event_def)
  moreover have "length (Hash_Hex eth (ev_TxHash ev)) = 66"
    using eth(1) assms(4) by (simp add: eth_ok_def length_EncodeToString typed_event_def)
  ultimately have "text_size ?r \<le> 78 + 66 + 78 + 42 + 224 + 10"
    using eth(3) assms(5,7)
    by (simp add: text_size_def receipt_for_def payment_id_def tx_hash_hex_def length_EncodeToString PacketCFrameLen_def)
  moreover have "length (store_line js ?r) \<le> 400 + 6 * text_size ?r"
    using assms(1) json_line(1) [OF assms(2) asc] by (auto simp: json_compact_def)
  ultimately have "length (store_line js ?r) < maxTokenSize"
    by (simp add: maxTokenSize_def)
  with asc show ?thesis by (simp add: good_line_def)
qed

lemma receipt_storable:
  assumes "json_compact js" and "json_ok js" and "eth_text eth" and "typed_event ev" and "length frame = PacketCFrameLen"
  shows "storable js (receipt_for eth ev frame)"
  using receipt_good_line [OF assms ascii_status(1)] receipt_good_line [OF assms ascii_status(2)]
  by (simp add: storable_def default_status_receipt StatusPending_def StatusDispatched_def)

section \<open>One event\<close>

text \<open>The laws of the libraries, together.\<close>

definition libraries_ok :: "ed25519_lib \<Rightarrow> eth_lib \<Rightarrow> json_codec \<Rightarrow> bool" where
  "libraries_ok ed eth js \<longleftrightarrow> ed25519_ok ed \<and> eth_text eth \<and> json_ok js \<and> json_compact js"

text \<open>The pipeline between two events: a good, open store and a usable seed.\<close>

definition pipeline_inv :: "json_codec \<Rightarrow> pipeline \<Rightarrow> bool" where
  "pipeline_inv js x \<longleftrightarrow> drainable js (pl_store x) \<and> seed_ok (pl_proc x) \<and> \<not> pl_panicked x \<and>
     (\<forall>f \<in> set (pl_fates x). clean f)"

text \<open>The receipt of an event, for some sequence number.\<close>

definition receipt_of :: "ed25519_lib \<Rightarrow> eth_lib \<Rightarrow> processor \<Rightarrow> settlement_event \<Rightarrow> receipt_record \<Rightarrow> bool" where
  "receipt_of ed eth p ev r \<longleftrightarrow> (\<exists>seq. r = (receipt_for eth ev (built ed p seq ev))\<lparr>DispatchStatus := StatusPending\<rparr>)"

definition same_identity :: "processor \<Rightarrow> processor \<Rightarrow> bool" where
  "same_identity p q \<longleftrightarrow> p_seed p = p_seed q \<and> sellerAPID p = sellerAPID q"

lemma receipt_of_identity: "same_identity p q \<Longrightarrow> receipt_of ed eth p ev r = receipt_of ed eth q ev r"
  by (simp add: receipt_of_def same_identity_def built_def receipt_inputs_def)

lemma receipt_of_key: "receipt_of ed eth p ev r \<Longrightarrow> record_key r = event_key eth ev \<and> pending r"
  by (auto simp: receipt_of_def pending_def)

lemma built_length: "ed25519_ok ed \<Longrightarrow> seed_ok p \<Longrightarrow> length (built ed p seq ev) = PacketCFrameLen"
  using Build_built [of ed p seq ev]
    Build_frame_accepted [OF _ bytes_stream.kaitai_stream_axioms, of ed "receipt_inputs p seq ev"]
  by (auto simp: seed_ok_def receipt_inputs_def)

lemma receipt_ids: "eth_ok eth \<Longrightarrow> PaymentID (receipt_for eth ev frame) \<noteq> '''' \<and> SettlementTxHash (receipt_for eth ev frame) \<noteq> ''''"
  by (simp add: receipt_for_def payment_id_def tx_hash_hex_def dec_string_not_Nil eth_ok_def)

lemma Append_stored:
  assumes "json_ok js" and "is_open s" and "storable js r" and "\<not> Has (PaymentID r) (SettlementTxHash r) s"
  shows "fst (Append js Stored r s) = None"
proof -
  have "ascii_record (default_status r)" using assms(3) by (simp add: storable_def good_line_def)
  from json_line(1) [OF assms(1) this] show ?thesis
    using assms(2,4) by (simp add: Append_def Has_def Let_def writeLineLocked_def)
qed

lemma Append_is_open: "is_open (snd (Append js fate r s)) = is_open s"
proof -
  have "is_open s' = is_open s" if "writeLineLocked js fate (default_status r) s = (e, s')" for e s'
    using writeLineLocked_frame [OF that] by simp
  then show ?thesis
    by (auto simp: Append_def Let_def split: prod.splits option.splits)
qed

lemma append_receipt_drainable:
  assumes "json_ok js" and "drainable js s" and "storable js r" and "clean fate"
    and "PaymentID r \<noteq> '''' \<and> SettlementTxHash r \<noteq> ''''" and "append_receipt js fate r s = (res, s')"
  shows "drainable js s' \<and> (fate = Stored \<longrightarrow> res = Ok ())"
proof -
  have inv: "store_inv s" and d: "durable js s" and op: "is_open s"
    using assms(2) by (simp_all add: drainable_def durable_def)
  have s': "s' = snd (Append js fate r s)"
    using assms(6) by (auto simp: append_receipt_def split: prod.splits option.splits)
  have "durable js s'" unfolding s' by (rule durable_Append [OF assms(1) d assms(3,4)])
  moreover have "is_open s'" using op by (simp add: s' Append_is_open)
  moreover have "set (settlements s') \<subseteq> set (settlements s) \<union> {default_status r}"
    using append_receipt_queue [OF inv assms(6)] by auto
  moreover have "PaymentID (default_status r) = PaymentID r" "SettlementTxHash (default_status r) = SettlementTxHash r"
    by (simp_all add: default_status_def)
  ultimately have "drainable js s'" using assms(2,5) by (auto simp: drainable_def)
  moreover have "res = Ok ()" if "fate = Stored"
  proof (cases "Has (PaymentID r) (SettlementTxHash r) s")
    case True
    then have "Append js fate r s = (Some ErrDuplicate, s)" by (simp add: Append_def Has_def Let_def)
    with assms(6) show ?thesis by (simp add: append_receipt_def)
  next
    case False
    with Append_stored [OF assms(1) op assms(3)] that assms(6) show ?thesis
      by (auto simp: append_receipt_def split: prod.splits)
  qed
  ultimately show ?thesis by blast
qed

lemma Handle_pipeline:
  assumes "libraries_ok ed eth js" and "drainable js s" and "seed_ok p" and "clean fate" and "typed_event ev"
    and "Handle ed eth js fate ev (p, s) = (res, p', s')"
  shows "drainable js s' \<and> (fate = Stored \<longrightarrow> res = Ok ())"
proof -
  have laws: "ed25519_ok ed" "eth_text eth" "json_ok js" "json_compact js"
    using assms(1) by (simp_all add: libraries_ok_def)
  have inv: "store_inv s" using assms(2) by (simp add: drainable_def durable_def)
  show ?thesis
  proof (cases "event_key eth ev \<in> record_key ` set (settlements s)")
    case True
    with Handle_known [OF inv True, of ed js fate p] assms(2,6) show ?thesis by simp
  next
    case False
    let ?r = "receipt_for eth ev (built ed p (seqCount p) ev)"
    have "storable js ?r"
      by (rule receipt_storable [OF laws(4,3,2) assms(5) built_length [OF laws(1) assms(3)]])
    moreover have "PaymentID ?r \<noteq> '''' \<and> SettlementTxHash ?r \<noteq> ''''"
      using laws(2) by (intro receipt_ids) (simp add: eth_text_def)
    moreover have "append_receipt js fate ?r s = (res, s')"
      using Handle_new [OF inv False laws(1) assms(3), of js fate] assms(6) by (simp add: split_beta Let_def prod_eq_iff)
    ultimately show ?thesis
      using append_receipt_drainable [OF laws(3) assms(2) _ assms(4)] by blast
  qed
qed

text \<open>
  What the events do to the store: it grows by receipts of some of them, none is lost but those
  that were logged as failed, and with a disk that works none fails.
\<close>

definition recorded ::
    "ed25519_lib \<Rightarrow> eth_lib \<Rightarrow> json_codec \<Rightarrow> settlement_event list \<Rightarrow> pipeline \<Rightarrow> pipeline \<Rightarrow> bool" where
  "recorded ed eth js evs x y \<longleftrightarrow> pipeline_inv js y \<and> same_identity (pl_proc y) (pl_proc x) \<and>
     (\<exists>new failed. settlements (pl_store y) = settlements (pl_store x) @ new \<and>
        (\<forall>r \<in> set new. \<exists>ev \<in> set evs. receipt_of ed eth (pl_proc x) ev r) \<and>
        pl_errors y = pl_errors x @ failed \<and> fst ` set failed \<subseteq> set evs \<and>
        event_key eth ` set evs \<subseteq> record_key ` set (settlements (pl_store y)) \<union> event_key eth ` fst ` set failed \<and>
        (pl_fates x = [] \<longrightarrow> failed = [] \<and> pl_fates y = []))"

lemma on_event_recorded:
  assumes "libraries_ok ed eth js" and "pipeline_inv js x" and "typed_event ev"
  shows "recorded ed eth js [ev] x (on_event ed eth js ev x)"
proof -
  define fate where "fate = (case pl_fates x of [] \<Rightarrow> Stored | f # fs \<Rightarrow> f)"
  obtain res p s where run: "Handle ed eth js fate ev (pl_proc x, pl_store x) = (res, p, s)"
    by (metis surj_pair)
  have x: "drainable js (pl_store x)" "seed_ok (pl_proc x)" "\<not> pl_panicked x" "clean fate"
    using assms(2) by (auto simp: pipeline_inv_def fate_def clean_def split: list.splits)
  have inv: "store_inv (pl_store x)" and ed: "ed25519_ok ed"
    using x(1) assms(1) by (simp_all add: drainable_def durable_def libraries_ok_def)
  note q = Handle_queue [OF inv ed x(2) run]
  note d = Handle_pipeline [OF assms(1) x(1,2,4) assms(3) run]
  let ?y = "on_event ed eth js ev x"
  have y: "pl_proc ?y = p" "pl_store ?y = s" "pl_fates ?y = drop 1 (pl_fates x)" "\<not> pl_panicked ?y"
      "pl_errors ?y = pl_errors x @ (case res of Err e \<Rightarrow> [(ev, e)] | _ \<Rightarrow> [])"
    using x(3) q by (auto simp: on_event_def run fate_def [symmetric] Let_def split: outcome.splits)
  have id: "same_identity p (pl_proc x)"
    using q by (auto simp: same_identity_def split: if_splits)
  have "pipeline_inv js ?y"
    using y d q assms(2) by (auto simp: pipeline_inv_def dest: in_set_dropD)
  moreover have "\<exists>new. settlements s = settlements (pl_store x) @ new \<and>
      (\<forall>r \<in> set new. receipt_of ed eth (pl_proc x) ev r)"
    using q by (auto simp: receipt_of_def split: if_splits)
  moreover have "res = Ok () \<longrightarrow> event_key eth ev \<in> record_key ` set (settlements s)" "res \<noteq> Panic"
    using q by auto
  moreover have "res = Ok ()" if "pl_fates x = []" using d that by (simp add: fate_def)
  ultimately show ?thesis
    using id y by (cases res) (auto simp: recorded_def)
qed

section \<open>Many events\<close>

lemma recorded_Nil: "pipeline_inv js x \<Longrightarrow> recorded ed eth js [] x x"
  by (simp add: recorded_def same_identity_def)

lemma union_accounted: "A \<subseteq> C \<union> E \<Longrightarrow> B \<subseteq> D \<union> F \<Longrightarrow> C \<subseteq> D \<Longrightarrow> A \<union> B \<subseteq> D \<union> (E \<union> F)"
  by blast

lemma recorded_trans:
  assumes "recorded ed eth js es x y" and "recorded ed eth js fs y z"
  shows "recorded ed eth js (es @ fs) x z"
proof -
  have id: "same_identity (pl_proc y) (pl_proc x)" "same_identity (pl_proc z) (pl_proc y)" "pipeline_inv js z"
    using assms by (simp_all add: recorded_def)
  obtain n1 f1 where a: "settlements (pl_store y) = settlements (pl_store x) @ n1"
      "\<forall>r \<in> set n1. \<exists>ev \<in> set es. receipt_of ed eth (pl_proc x) ev r"
      "pl_errors y = pl_errors x @ f1" "fst ` set f1 \<subseteq> set es"
      "event_key eth ` set es \<subseteq> record_key ` set (settlements (pl_store y)) \<union> event_key eth ` fst ` set f1"
      "pl_fates x = [] \<longrightarrow> f1 = [] \<and> pl_fates y = []"
    using assms(1) unfolding recorded_def by blast
  obtain n2 f2 where b: "settlements (pl_store z) = settlements (pl_store y) @ n2"
      "\<forall>r \<in> set n2. \<exists>ev \<in> set fs. receipt_of ed eth (pl_proc y) ev r"
      "pl_errors z = pl_errors y @ f2" "fst ` set f2 \<subseteq> set fs"
      "event_key eth ` set fs \<subseteq> record_key ` set (settlements (pl_store z)) \<union> event_key eth ` fst ` set f2"
      "pl_fates y = [] \<longrightarrow> f2 = [] \<and> pl_fates z = []"
    using assms(2) unfolding recorded_def by blast
  have "settlements (pl_store z) = settlements (pl_store x) @ (n1 @ n2)" using a(1) b(1) by simp
  moreover have "\<forall>r \<in> set (n1 @ n2). \<exists>ev \<in> set (es @ fs). receipt_of ed eth (pl_proc x) ev r"
    using a(2) b(2) receipt_of_identity [OF id(1)] by auto
  moreover have "pl_errors z = pl_errors x @ (f1 @ f2)" "fst ` set (f1 @ f2) \<subseteq> set (es @ fs)"
    using a(3,4) b(3,4) by auto
  moreover have "event_key eth ` set (es @ fs)
      \<subseteq> record_key ` set (settlements (pl_store z)) \<union> event_key eth ` fst ` set (f1 @ f2)"
    unfolding set_append image_Un
    by (rule union_accounted [OF a(5) b(5)]) (simp add: b(1) image_Un)
  moreover have "pl_fates x = [] \<longrightarrow> f1 @ f2 = [] \<and> pl_fates z = []" using a(6) b(6) by simp
  moreover have "same_identity (pl_proc z) (pl_proc x)" using id by (simp add: same_identity_def)
  ultimately show ?thesis unfolding recorded_def using id(3) by blast
qed

lemma fold_recorded:
  assumes "libraries_ok ed eth js" and "pipeline_inv js x" and "\<forall>ev \<in> set evs. typed_event ev"
  shows "recorded ed eth js evs x (fold (on_event ed eth js) evs x)"
  using assms(2,3)
proof (induction evs arbitrary: x)
  case Nil
  then show ?case by (simp add: recorded_Nil)
next
  case (Cons ev evs)
  have first: "recorded ed eth js [ev] x (on_event ed eth js ev x)"
    using on_event_recorded [OF assms(1)] Cons.prems by simp
  then have "pipeline_inv js (on_event ed eth js ev x)" by (simp add: recorded_def)
  from recorded_trans [OF first Cons.IH [OF this]] Cons.prems(2) show ?case by simp
qed

text \<open>The history of the escrow contract: logs of the sizes the contract's ABI gives them.\<close>

definition escrow_history :: "eth_log list \<Rightarrow> bool" where
  "escrow_history hist \<longleftrightarrow> (\<forall>l \<in> set hist. typed_log l \<and> well_formed_log l)"

lemma typed_events:
  assumes "libraries_ok ed eth js" and "escrow_history hist"
    and "map untimed events = map (event_of eth) (logs_between hist a b)" and "ev \<in> set events"
  shows "typed_event ev"
proof -
  have "untimed ev \<in> set (map (event_of eth) (logs_between hist a b))" using assms(4) by (simp flip: assms(3))
  then obtain l where "l \<in> set (logs_between hist a b)" "untimed ev = event_of eth l" by auto
  moreover from this have "typed_log l" "well_formed_log l"
    using assms(2) by (auto simp: escrow_history_def logs_between_def)
  ultimately show ?thesis
    using typed_event_of [of eth l] typed_event_untimed [of ev] assms(1) by (simp add: libraries_ok_def)
qed

lemma run_receipts_recorded:
  assumes "libraries_ok ed eth js" and "pipeline_inv js x"
    and "honest_node cl (w_contract w) (eventTopic w) hist" and "escrow_history hist"
    and "run_receipts ed eth js cl ticks w c x = (err, w', c', y)"
  shows "nextBlock w \<le> nextBlock w' \<and> (\<exists>events. recorded ed eth js events x y \<and>
    map untimed events = map (event_of eth) (logs_between hist (nextBlock w) (nextBlock w')))"
proof -
  let ?logs = "logs_between hist (nextBlock w) (nextBlock w')"
  obtain events where ev: "nextBlock w \<le> nextBlock w'" "y = fold (on_event ed eth js) events x"
    "map untimed events = map (event_of eth) ?logs"
    using Run_exact [OF assms(3) assms(5) [unfolded run_receipts_def]] by blast
  have "typed_event ev" if "ev \<in> set events" for ev
    using that typed_events [OF assms(1,4) ev(3)] by blast
  with fold_recorded [OF assms(1,2)] ev show ?thesis by blast
qed

definition log_key :: "eth_lib \<Rightarrow> eth_log \<Rightarrow> string" where
  "log_key eth l = event_key eth (event_of eth l)"

lemma event_keys_of_logs:
  assumes "map untimed events = map (event_of eth) logs"
  shows "event_key eth ` set events = log_key eth ` set logs"
proof -
  have "event_key eth ` set events = event_key eth ` set (map untimed events)"
    by (simp add: event_key_untimed image_image)
  also have "\<dots> = log_key eth ` set logs" unfolding assms by (simp add: log_key_def image_image)
  finally show ?thesis .
qed

lemma recorded_keys:
  assumes "recorded ed eth js events x y" and "pl_fates x = []"
  shows "record_key ` set (settlements (pl_store y))
    = record_key ` set (settlements (pl_store x)) \<union> event_key eth ` set events"
  using assms receipt_of_key unfolding recorded_def by fastforce

lemma drainable_distinct: "drainable js s \<Longrightarrow> distinct (map record_key (settlements s))"
  using receipt_store.keys_distinct by (simp add: drainable_def durable_def)

section \<open>Properties\<close>

text \<open>
  C18.  From the chain to the receipt store.  Let the watcher run over an honest node for any number of
  polls, ended by a cancellation or an error.  The store has grown, at its end, by receipts of
  settlements in the blocks the cursor crossed, at most one for each payment and transaction, and no
  receipt that was there is touched; each new receipt is the one \<^verbatim>\<open>Handle\<close> builds for its event.  Every
  settlement of these blocks has its receipt, or its failure is in the log; and when no write fails,
  none failed: the keys in the store are the old ones and those of the crossed blocks, no more.
\<close>

theorem run_receipts_records_settlements:
  assumes "libraries_ok ed eth js" and "pipeline_inv js x"
    and "honest_node cl (w_contract w) (eventTopic w) hist" and "escrow_history hist"
    and "run_receipts ed eth js cl ticks w c x = (err, w', c', y)"
  defines "logs \<equiv> logs_between hist (NextBlock w) (NextBlock w')"
  shows "\<not> pl_panicked y \<and> distinct (map record_key (settlements (pl_store y))) \<and>
    (\<exists>new. settlements (pl_store y) = settlements (pl_store x) @ new \<and>
       (\<forall>r \<in> set new. \<exists>ev. untimed ev \<in> event_of eth ` set logs \<and> receipt_of ed eth (pl_proc x) ev r)) \<and>
    (\<forall>l \<in> set logs. log_key eth l \<in> record_key ` set (settlements (pl_store y)) \<or>
       (\<exists>(ev, e) \<in> set (pl_errors y). event_key eth ev = log_key eth l)) \<and>
    (pl_fates x = [] \<longrightarrow> pl_errors y = pl_errors x \<and>
       record_key ` set (settlements (pl_store y)) = record_key ` set (settlements (pl_store x)) \<union> log_key eth ` set logs)"
proof -
  obtain events where rec: "recorded ed eth js events x y"
    and ev: "map untimed events = map (event_of eth) logs"
    using run_receipts_recorded [OF assms(1-5)] unfolding logs_def NextBlock_def by blast
  note keys = event_keys_of_logs [OF ev]
  obtain new failed where n: "settlements (pl_store y) = settlements (pl_store x) @ new"
      "\<forall>r \<in> set new. \<exists>ev \<in> set events. receipt_of ed eth (pl_proc x) ev r"
      "pl_errors y = pl_errors x @ failed"
      "event_key eth ` set events \<subseteq> record_key ` set (settlements (pl_store y)) \<union> event_key eth ` fst ` set failed"
      "pl_fates x = [] \<longrightarrow> failed = []" "pipeline_inv js y"
    using rec unfolding recorded_def by blast
  have "\<exists>ev. untimed ev \<in> event_of eth ` set logs \<and> receipt_of ed eth (pl_proc x) ev r" if "r \<in> set new" for r
    using that n(2) arg_cong [OF ev, of set] unfolding set_map by (metis imageI)
  moreover have "log_key eth l \<in> record_key ` set (settlements (pl_store y)) \<or>
      (\<exists>(ev, e) \<in> set (pl_errors y). event_key eth ev = log_key eth l)" if "l \<in> set logs" for l
  proof -
    have "log_key eth l \<in> record_key ` set (settlements (pl_store y)) \<union> event_key eth ` fst ` set failed"
      by (rule subsetD [OF n(4)]) (simp add: keys that)
    then show ?thesis
    proof
      assume "log_key eth l \<in> event_key eth ` fst ` set failed"
      then obtain z where "z \<in> set failed" "log_key eth l = event_key eth (fst z)" by (metis imageE)
      then show ?thesis by (intro disjI2 bexI [of _ z]) (simp_all add: n(3) split_beta)
    qed (rule disjI1)
  qed
  moreover have "distinct (map record_key (settlements (pl_store y)))" "\<not> pl_panicked y"
    using n(6) drainable_distinct [of js "pl_store y"] by (simp_all add: pipeline_inv_def)
  moreover have "pl_errors y = pl_errors x \<and> record_key ` set (settlements (pl_store y))
      = record_key ` set (settlements (pl_store x)) \<union> log_key eth ` set logs" if "pl_fates x = []"
    using that n(3,5) recorded_keys [OF rec that] keys by simp
  ultimately show ?thesis using n(1) by (intro conjI ballI impI exI [of _ new]) simp_all
qed

text \<open>The libraries of the witnesses meet the laws of sizes, too.\<close>

lemma demo_eth_text: "eth_text demo_eth"
  using ascii_EncodeToString demo_eth_ok
  by (auto simp: eth_text_def demo_eth_def length_EncodeToString ascii_def)

lemma length_hex_text: "length (hex_text s) = 2 * length s"
  by (simp add: hex_text_def length_EncodeToString)

lemma length_dec_word:
  fixes w :: "'a::len word"
  assumes "LENGTH('a) \<le> 64"
  shows "length (dec_string (unat w)) \<le> 20"
proof (rule length_dec_string)
  have "unat w < 2 ^ LENGTH('a)" by (rule unsigned_less)
  also have "\<dots> \<le> 2 ^ 64" using assms by (intro power_increasing) auto
  also have "\<dots> \<le> (10 :: nat) ^ 20" by simp
  finally show "unat w < 10 ^ 20" .
qed simp

lemma demo_js_compact: "json_compact demo_js"
proof -
  have num: "length (dec_string (unat (rc_SatID r))) \<le> 20" "length (dec_string (unat (AssetID r))) \<le> 20"
    "length (dec_string (unat (rc_BlockNumber r))) \<le> 20" "length (dec_string (unat (TsMs r))) \<le> 20" for r
    by (rule length_dec_word, simp)+
  have "length (demo_line r) \<le> 400 + 6 * text_size r" for r
    using num [of r] by (simp add: demo_line_def demo_fields_def length_hex_text text_size_def)
  then show ?thesis by (simp add: json_compact_def demo_js_def)
qed

lemma demo_libraries_ok: "libraries_ok demo_ed demo_eth demo_js"
  by (simp add: libraries_ok_def demo_ed_ok demo_eth_text demo_js_ok demo_js_compact)

lemma demo_history: "escrow_history demo_hist"
  by (simp add: escrow_history_def demo_hist_def demo_log_def typed_log_def well_formed_log_def)

definition demo_pipeline :: pipeline where
  "demo_pipeline = \<lparr>pl_proc = demo_processor, pl_store = empty_store ''f'', pl_fates = [], pl_errors = [], pl_panicked = False\<rparr>"

lemma drainable_empty: "drainable js (empty_store path)"
  by (simp add: drainable_def durable_empty) (simp add: empty_store_def)

lemma demo_pipeline_inv: "pipeline_inv demo_js demo_pipeline"
  by (simp add: pipeline_inv_def demo_pipeline_def drainable_empty demo_processor_ok)

theorem run_receipts_records_settlements_witness:
  "\<exists>err w' c' y. run_receipts demo_ed demo_eth demo_js demo_node (Suc (Suc (Suc 0))) demo_watcher 0 demo_pipeline
      = (err, w', c', y) \<and> NextBlock w' = 4 \<and>
     record_key ` set (settlements (pl_store y)) = {log_key demo_eth (demo_log 1), log_key demo_eth (demo_log 3)}"
proof -
  obtain err w' c' y where run: "run_receipts demo_ed demo_eth demo_js demo_node (Suc (Suc (Suc 0))) demo_watcher 0 demo_pipeline
      = (err, w', c', y)" by (metis surj_pair)
  have cursor: "NextBlock w' = 4" "NextBlock demo_watcher = 0"
    using run demo_Run [of demo_eth "on_event demo_ed demo_eth demo_js" demo_pipeline]
    by (simp_all add: run_receipts_def NextBlock_def demo_watcher_def)
  have "logs_between demo_hist 0 4 = [demo_log 1, demo_log 3]"
    by (simp add: logs_between_def demo_hist_def demo_log_def word_less_nat_alt)
  moreover have "settlements (pl_store demo_pipeline) = []" "pl_fates demo_pipeline = []"
    by (simp_all add: demo_pipeline_def)
  ultimately show ?thesis
    using run cursor run_receipts_records_settlements [OF demo_libraries_ok demo_pipeline_inv demo_node_honest demo_history run]
    by simp
qed

end
