(* ===== verification/Egress_Drain.thy ===== *)
theory Egress_Drain
  imports Egress_Client Receipt_Pipeline
begin

text \<open>
  The ground station on the gateway: \<^verbatim>\<open>EgressOrchestrator::tick\<close> with the HTTP poll client on one side and
  a transmit callback on the other, run against the two egress handlers of the gateway.  The callback is a
  parameter of the orchestrator: here it is the one of its contract, which says whether the frame went out.
  The world is the gateway's store, the frames handed over and the answers of the callback to come; when
  those are used up it succeeds.  \<^verbatim>\<open>Station_Drain\<close> puts the serial line of \<^verbatim>\<open>main.cpp\<close> in its place.
\<close>

section \<open>The ground station\<close>

record ground =
  gr_store :: "store option"
  gr_sent :: "byte list list"
  gr_radio :: "bool list"

definition poll_client :: "store option network \<Rightarrow> string \<Rightarrow> nat \<Rightarrow> ground egress_client" where
  "poll_client net host port = \<lparr>
     ec_fetch = (\<lambda>cap g. case fetch_pending net host port cap (gr_store g) of (r, es) \<Rightarrow> (r, g\<lparr>gr_store := es\<rparr>)),
     ec_ack = (\<lambda>p t g. case ack_dispatched net host port p t (gr_store g) of (r, es) \<Rightarrow> (r, g\<lparr>gr_store := es\<rparr>))\<rparr>"

definition radio_tx :: "byte list \<Rightarrow> ground \<Rightarrow> bool \<times> ground" where
  "radio_tx frame g = (case gr_radio g of
     [] \<Rightarrow> (True, g\<lparr>gr_sent := gr_sent g @ [frame]\<rparr>)
   | ok # oks \<Rightarrow> (ok, g\<lparr>gr_radio := oks, gr_sent := gr_sent g @ (if ok then [frame] else [])\<rparr>))"

text \<open>The specification: which receipts of a page are transmitted, and the frame of a receipt.\<close>

fun transmitted :: "bool list \<Rightarrow> receipt_record list \<Rightarrow> receipt_record list" where
  "transmitted oks [] = []"
| "transmitted [] (r # rs) = r # rs"
| "transmitted (ok # oks) (r # rs) = (if ok then r # transmitted oks rs else transmitted oks rs)"

definition frame_of :: "receipt_record \<Rightarrow> byte list" where
  "frame_of r = (case DecodeString (PacketCHex r) of Ok frame \<Rightarrow> frame | _ \<Rightarrow> [])"

text \<open>What the gateway's receipts look like on the wire.\<close>

definition wire_receipt :: "receipt_record \<Rightarrow> bool" where
  "wire_receipt r \<longleftrightarrow> plain_record r \<and> PaymentID r \<noteq> '''' \<and> length (PaymentID r) \<le> 78 \<and> length (SettlementTxHash r) = 66 \<and>
     length (rc_Amount r) \<le> 78 \<and> length (rc_Wallet r) = 42 \<and>
     length (PacketCHex r) = 224 \<and> (\<exists>frame. DecodeString (PacketCHex r) = Ok frame) \<and>
     (DispatchStatus r = StatusPending \<or> DispatchStatus r = StatusDispatched)"

definition status_json :: "string \<Rightarrow> string" where
  "status_json st = CHR ''{'' # json_member ''status'' (json_str st) @ [CHR ''}'']"

lemma transmitted_all [simp]: "transmitted [] rs = rs"
  by (cases rs) simp_all

lemma c_string_plain: "json_plain v \<Longrightarrow> c_string v = v"
  unfolding json_plain_def c_string_def list_all_iff by (intro takeWhile_eq_all_conv [THEN iffD2]) (auto simp: Let_def)

text \<open>Acknowledging a receipt keeps the others as they are.\<close>

lemma others_kept:
  assumes "settlements s' = map (dispatch (record_key r)) (settlements s)"
    and "set rs \<subseteq> set (settlements s)" and "record_key r \<notin> record_key ` set rs"
  shows "set rs \<subseteq> set (settlements s')"
proof
  fix q assume q: "q \<in> set rs"
  have "record_key q \<noteq> record_key r" using imageI [OF q, of record_key] assms(3) by metis
  moreover have "q \<in> set (settlements s)" by (rule subsetD [OF assms(2) q])
  ultimately show "q \<in> set (settlements s')" unfolding assms(1) by (auto intro!: image_eqI [of _ _ q] simp: dispatch_def)
qed

text \<open>The receipts \<open>tx\<close> have been acknowledged, in this order: the store they leave, and what is still pending.\<close>

definition dispatched :: "json_codec \<Rightarrow> receipt_record list \<Rightarrow> store \<Rightarrow> store \<Rightarrow> bool" where
  "dispatched js tx s s' \<longleftrightarrow> acknowledge js tx (Some s) = Some s' \<and> drainable js s' \<and>
     filter pending (settlements s') = filter (\<lambda>q. record_key q \<notin> record_key ` set tx) (filter pending (settlements s))"

lemma dispatched_Nil: "drainable js s \<Longrightarrow> dispatched js [] s s"
  by (simp add: dispatched_def acknowledge_def)

lemma dispatched_Cons:
  assumes "HandleEgressAck js Stored (Inr (ack_for r)) (Some s) NewContext = (Some s1, c)"
    and "settlements s1 = map (dispatch (record_key r)) (settlements s)" and "dispatched js tx s1 s'"
  shows "dispatched js (r # tx) s s'"
proof -
  note tx = assms(3) [unfolded dispatched_def]
  have "acknowledge js (r # tx) (Some s) = Some s'" using tx assms(1) by (simp add: acknowledge_def)
  moreover have "filter pending (settlements s') = filter (\<lambda>q. record_key q \<notin> record_key ` set (r # tx)) (filter pending (settlements s))"
    using tx unfolding assms(2) pending_dispatch by (simp add: conj_ac)
  ultimately show ?thesis using tx by (simp add: dispatched_def)
qed

text \<open>The size of a receipt on the wire.\<close>

lemma word_text: "length (dec_string (unat (w :: 64 word))) \<le> 20" "length (dec_string (unat (v :: 32 word))) \<le> 10"
  "length (dec_string (unat (u :: 16 word))) \<le> 5" "length (json_int (sint w)) \<le> 20"
proof -
  have b: "unat w < 2 ^ 64" "unat v < 2 ^ 32" "unat u < 2 ^ 16"
    using unsigned_less [where 'a = nat, of w] unsigned_less [where 'a = nat, of v] unsigned_less [where 'a = nat, of u] by simp_all
  show "length (dec_string (unat w)) \<le> 20" "length (dec_string (unat v)) \<le> 10" "length (dec_string (unat u)) \<le> 5"
    using b by (auto intro!: length_dec_string)
  have "- (2 ^ 63) \<le> sint w" "sint w < 2 ^ 63"
    using sint_ge [of w] sint_lt [of w] by simp_all
  then have "nat (sint w) < 10 ^ 20" "nat (- sint w) < 10 ^ 19" by (simp_all add: nat_less_iff)
  then have "length (dec_string (nat (sint w))) \<le> 20" "length (dec_string (nat (- sint w))) \<le> 19"
    by (auto intro!: length_dec_string)
  then show "length (json_int (sint w)) \<le> 20" by (simp add: json_int_def)
qed

lemma record_json_size:
  assumes "wire_receipt r"
  shows "440 \<le> length (record_json r)" "length (record_json r) \<le> 720"
proof -
  note wire = assms [unfolded wire_receipt_def]
  have st: "DispatchStatus r \<noteq> ''''" "7 \<le> length (DispatchStatus r)" "length (DispatchStatus r) \<le> 10"
    using wire by (auto simp: StatusPending_def StatusDispatched_def)
  have len: "length (PaymentID r) \<le> 78" "length (SettlementTxHash r) = 66" "length (rc_Amount r) \<le> 78"
    "length (rc_Wallet r) = 42" "length (PacketCHex r) = 224" using wire by simp_all
  note sizes = record_json_def record_members_def json_member_def json_str_def
  show "440 \<le> length (record_json r)" using st(1,2) len by (simp add: sizes)
  show "length (record_json r) \<le> 720"
    using st(1,3) len word_text(1) [of "rc_BlockNumber r"] word_text(2) [of "rc_SatID r"] word_text(3) [of "AssetID r"] word_text(4) [of "TsMs r"] by (simp add: sizes)
qed

lemma page_size:
  assumes "list_all wire_receipt rs"
  shows "440 * length rs \<le> length (records_json rs)" "length (records_json rs) \<le> 721 * length rs + 2"
proof -
  have "440 * length rs \<le> length (join_with CHR '','' (map record_json rs)) \<and>
    length (join_with CHR '','' (map record_json rs)) \<le> 721 * length rs"
    using assms
  proof (induction rs)
    case (Cons r rs)
    then show ?case using record_json_size [of r] by (cases "rs = []") (simp_all add: join_Cons)
  qed simp
  then show "440 * length rs \<le> length (records_json rs)" "length (records_json rs) \<le> 721 * length rs + 2"
    by (simp_all add: records_json_def)
qed

lemma wire_readable: "wire_receipt r \<Longrightarrow> readable_record r"
  by (simp add: wire_receipt_def readable_record_def)

section \<open>The link\<close>

text \<open>A request is answered: the server's text arrives, in any non-empty chunks.\<close>

definition answers :: "store option network \<Rightarrow> string \<Rightarrow> store option \<Rightarrow> store option \<Rightarrow> nat \<Rightarrow> string \<Rightarrow> bool" where
  "answers net req es es' code body \<longleftrightarrow> (\<exists>h chunks. http_ok h \<and> net req es = (Some (map Some chunks), es') \<and>
     [] \<notin> set chunks \<and> concat chunks = go_response h code body)"

lemma length_hex_string: "n < 16 ^ k \<Longrightarrow> 0 < k \<Longrightarrow> length (hex_string n) \<le> k"
proof (induction k arbitrary: n)
  case (Suc k)
  then show ?case
  proof (cases "n < 16")
    case False
    then have "0 < k" using Suc.prems by (cases k) auto
    moreover have "n div 16 < 16 ^ k" using Suc.prems by (simp add: div_less_iff_less_mult mult.commute)
    ultimately show ?thesis using Suc.IH [of "n div 16"] False by (simp add: hex_string.simps [of n])
  qed (simp add: hex_string.simps)
qed simp

lemma go_response_fits:
  assumes "http_ok h" and "length body \<le> 8192"
  shows "length (go_response h 200 body) \<le> RESP_CAP"
proof -
  have "length (header_lines (status_line h 200 # hl_before h @ hl_after h)) \<le> 4096"
    using assms(1) by (simp add: http_ok_def)
  moreover have "length (dec_string (length body)) \<le> 4" "length (hex_string (length body)) \<le> 4"
    using assms(2) by (auto intro!: length_dec_string length_hex_string)
  ultimately show ?thesis
    using assms(2) by (simp add: go_response_def header_lines_def framing_line_def http_payload_def RESP_CAP_def)
qed

lemma answers_round_trip:
  assumes "answers net req es es' 200 body" and "length body \<le> 8192"
  shows "do_round_trip net req cap es = (if length (http_payload body) \<le> cap then Some (200, http_payload body) else None, es')"
proof -
  obtain h chunks where net: "http_ok h" "net req es = (Some (map Some chunks), es')" "[] \<notin> set chunks"
      "concat chunks = go_response h 200 body"
    using assms(1) by (auto simp: answers_def)
  have "read_full_response (map Some chunks) [] = Some (go_response h 200 body)"
    using read_full_chunks [OF net(3), of "[]"] go_response_fits [OF net(1) assms(2)] net(4) by simp
  from read_go_response [OF net(1) _ this] assms(2) net(2) show ?thesis
    by (simp add: do_round_trip_def)
qed

text \<open>The body of a chunked response begins with the size of the chunk, which is not a JSON array.\<close>

lemma hex_string_head: "\<exists>d t. d < 16 \<and> hex_string n = hex_char d # t"
proof (induction n rule: less_induct)
  case (less n)
  show ?case
  proof (cases "n < 16")
    case False
    then obtain d t where "d < 16" "hex_string (n div 16) = hex_char d # t" using less.IH [of "n div 16"] by auto
    with False show ?thesis by (auto simp: hex_string.simps [of n])
  qed (auto simp: hex_string.simps [of n])
qed

lemma parse_chunked:
  assumes "bufferBeforeChunkingSize < length body"
  shows "parse_pending_response (http_payload body) n = Err ScanFailed"
proof -
  obtain d t where d: "d < 16" "http_payload body = hex_char d # t"
    using hex_string_head [of "length body"] assms by (auto simp: http_payload_def)
  have "list_all (\<lambda>d. \<not> is_ws (hex_char d) \<and> hex_char d \<noteq> CHR ''['') [0..<16]" by code_simp
  then have c: "\<not> is_ws (hex_char d)" "hex_char d \<noteq> CHR ''[''" using d(1) by (simp_all add: list_all_iff)
  have "char_at (hex_char d # t) 0 = Some (hex_char d)" by (simp add: char_at_def)
  moreover from this c(1) have "skip_ws (hex_char d # t) 0 (length (hex_char d # t)) = Ok 0"
    by (intro skip_ws_stay [of 0 _ _ "hex_char d"]) simp_all
  ultimately show ?thesis using c(2) by (simp add: d(2) parse_pending_response_def Let_def)
qed

text \<open>
  What the ground station relies on of the connection: a poll gets the answer of the pending handler as
  the server writes it, and an acknowledgement for plain strings reaches the acknowledgement handler
  with the two fields of its JSON object.
\<close>

locale egress_link =
  fixes js :: json_codec and host :: string and port :: nat and net :: "store option network"
  assumes json_laws: "json_ok js"
    and short_host: "length host \<le> 64" "port < 65536"
    and pending_law: "HandleEgressPending es NewContext = \<lparr>responses = [(200, ReceiptsReply rs)], aborted = False\<rparr> \<Longrightarrow>
      list_all plain_record rs \<Longrightarrow> answers net (get_request host port) es es 200 (records_json rs)"
    and ack_law: "json_plain p \<Longrightarrow> json_plain t \<Longrightarrow> length p < 96 \<Longrightarrow> length t < 80 \<Longrightarrow>
      HandleEgressAck js Stored (Inr \<lparr>ack_PaymentID = p, ack_SettlementTxHash = t\<rparr>) es NewContext
        = (es', \<lparr>responses = [(200, StatusReply st)], aborted = False\<rparr>) \<Longrightarrow>
      answers net (post_request host port (ack_json p t)) es es' 200 (status_json st)"
begin

lemma fetch_page:
  assumes "list_all plain_record (polled (Some s))" and "length (records_json (polled (Some s))) \<le> 8192" and "0 < cap"
  shows "fetch_pending net host port cap (Some s) =
    (let payload = http_payload (records_json (polled (Some s))) in
     if length payload \<le> cap then Some (200, payload) else None, Some s)"
proof -
  have "HandleEgressPending (Some s) NewContext = \<lparr>responses = [(200, ReceiptsReply (polled (Some s)))], aborted = False\<rparr>"
    by (simp add: HandleEgressPending_def polled_Some gin_simps EgressPageSize_def)
  from pending_law [OF this assms(1)] have "answers net (get_request host port) (Some s) (Some s) 200 (records_json (polled (Some s)))" .
  moreover have "length (dec_string port) \<le> 5" using short_host(2) by (intro length_dec_string) simp_all
  then have "length (get_request host port) < REQ_BUF_SIZE"
    using short_host(1) by (simp add: get_request_def REQ_BUF_SIZE_def)
  ultimately show ?thesis
    using assms(3) answers_round_trip [OF _ assms(2), of net "get_request host port" "Some s" "Some s" cap]
    by (simp add: fetch_pending_def Let_def)
qed

lemma ack_one:
  assumes "plain_record r" and "length (PaymentID r) \<le> 78" and "length (SettlementTxHash r) \<le> 66"
    and "HandleEgressAck js Stored (Inr (ack_for r)) es NewContext
      = (es', \<lparr>responses = [(200, StatusReply ''dispatched'')], aborted = False\<rparr>)"
  shows "ack_dispatched net host port (PaymentID r) (SettlementTxHash r) es = (Some 200, es')"
proof -
  let ?p = "PaymentID r" and ?t = "SettlementTxHash r"
  have plain: "json_plain ?p" "json_plain ?t" using assms(1) by (simp_all add: plain_record_def)
  have net: "answers net (post_request host port (ack_json ?p ?t)) es es' 200 (status_json ''dispatched'')"
    using ack_law [OF plain _ _ assms(4) [unfolded ack_for_def]] assms(2,3) by simp
  have reply: "length (http_payload (status_json ''dispatched'')) \<le> 1024" "length (status_json ''dispatched'') \<le> 8192"
    by (simp_all add: status_json_def json_member_def json_str_def http_payload_def bufferBeforeChunkingSize_def)
  have small: "length (ack_json ?p ?t) \<le> 190" using assms(2,3) by (simp add: ack_json_def)
  have "length (dec_string port) \<le> 5" using short_host(2) by (intro length_dec_string) simp_all
  moreover have "length (dec_string (length (ack_json ?p ?t))) \<le> 3" using small by (intro length_dec_string) simp_all
  ultimately have "length (post_request host port (ack_json ?p ?t)) < REQ_BUF_SIZE"
    using short_host(1) small by (simp add: post_request_def REQ_BUF_SIZE_def)
  with answers_round_trip [OF net reply(2), of 1024] reply(1) small show ?thesis
    by (simp add: ack_dispatched_def Let_def)
qed

text \<open>One receipt: transmitted and acknowledged, or left alone when the radio fails.\<close>

lemma dispatch_receipt:
  assumes "wire_receipt r" and "gr_store g = Some s"
    and "HandleEgressAck js Stored (Inr (ack_for r)) (Some s) NewContext
      = (Some s', \<lparr>responses = [(200, StatusReply ''dispatched'')], aborted = False\<rparr>)"
  shows "dispatch_one (poll_client net host port) radio_tx (egress_fields r) g =
    (if gr_radio g = [] \<or> hd (gr_radio g)
     then (1, g\<lparr>gr_store := Some s', gr_sent := gr_sent g @ [frame_of r], gr_radio := tl (gr_radio g)\<rparr>)
     else (0, g\<lparr>gr_radio := tl (gr_radio g)\<rparr>))"
proof -
  note wire = assms(1) [unfolded wire_receipt_def]
  have plain: "plain_record r" "json_plain (PaymentID r)" "json_plain (SettlementTxHash r)" "json_plain (PacketCHex r)"
    using wire by (simp_all add: plain_record_def)
  obtain frame where dec: "DecodeString (PacketCHex r) = Ok frame" using wire by blast
  then have "length frame \<le> EgressPacketCSize" using DecodeString_length [OF dec] wire by (simp add: EgressPacketCSize_def)
  then have hex: "hex_decode (PacketCHex r) (length (PacketCHex r)) EgressPacketCSize = Ok (frame_of r)"
    using dec by (simp add: hex_decode_DecodeString frame_of_def)
  have ack: "ack_dispatched net host port (PaymentID r) (SettlementTxHash r) (Some s) = (Some 200, Some s')"
    using wire by (intro ack_one [OF plain(1) _ _ assms(3)]) simp_all
  have size: "length (PacketCHex r) = EgressPacketCSize * 2" using wire by (simp add: EgressPacketCSize_def)
  show ?thesis
  proof (cases "gr_radio g")
    case Nil
    with assms(2) hex ack size show ?thesis
      by (simp add: dispatch_one_def egress_fields_def c_string_plain [OF plain(2)] c_string_plain [OF plain(3)]
          c_string_plain [OF plain(4)] radio_tx_def poll_client_def Let_def)
  next
    case (Cons ok oks)
    with assms(2) hex ack size show ?thesis
      by (cases ok) (simp_all add: dispatch_one_def egress_fields_def c_string_plain [OF plain(2)] c_string_plain [OF plain(3)]
          c_string_plain [OF plain(4)] radio_tx_def poll_client_def Let_def)
  qed
qed

lemma dispatch_page:
  assumes "list_all wire_receipt rs" and "set rs \<subseteq> set (settlements s)" and "distinct (map record_key rs)"
    and "drainable js s" and "gr_store g = Some s"
  shows "\<exists>s'. let tx = transmitted (gr_radio g) rs in dispatched js tx s s' \<and>
    dispatch_all (poll_client net host port) radio_tx (map egress_fields rs) n g
      = (n + length tx, g\<lparr>gr_store := Some s', gr_sent := gr_sent g @ map frame_of tx, gr_radio := drop (length rs) (gr_radio g)\<rparr>)"
  using assms
proof (induction rs arbitrary: s g n)
  case Nil
  then show ?case by (auto simp: Let_def intro!: exI [of _ s] dispatched_Nil)
next
  case (Cons r rs)
  let ?g = "g\<lparr>gr_radio := tl (gr_radio g)\<rparr>"
  have r: "r \<in> set (settlements s)" "wire_receipt r" using Cons.prems by simp_all
  obtain s1 where s1: "HandleEgressAck js Stored (Inr (ack_for r)) (Some s) NewContext
      = (Some s1, \<lparr>responses = [(200, StatusReply ''dispatched'')], aborted = False\<rparr>)"
      "drainable js s1" "settlements s1 = map (dispatch (record_key r)) (settlements s)"
    using acknowledge_one [OF json_laws Cons.prems(4) r(1)] by blast
  note one = dispatch_receipt [OF r(2) Cons.prems(5) s1(1)]
  have rest: "list_all wire_receipt rs" "set rs \<subseteq> set (settlements s)" "distinct (map record_key rs)" "record_key r \<notin> record_key ` set rs"
    using Cons.prems(1,2,3) by simp_all
  show ?case
  proof (cases "gr_radio g = [] \<or> hd (gr_radio g)")
    case True
    let ?g1 = "g\<lparr>gr_store := Some s1, gr_sent := gr_sent g @ [frame_of r], gr_radio := tl (gr_radio g)\<rparr>"
    have sel: "transmitted (gr_radio g) (r # rs) = r # transmitted (tl (gr_radio g)) rs"
      using True by (cases "gr_radio g") (auto simp: transmitted_all)
    obtain s' where s': "dispatched js (transmitted (tl (gr_radio g)) rs) s1 s'"
      "dispatch_all (poll_client net host port) radio_tx (map egress_fields rs) (n + 1) ?g1
         = (n + 1 + length (transmitted (tl (gr_radio g)) rs), ?g1\<lparr>gr_store := Some s',
             gr_sent := gr_sent ?g1 @ map frame_of (transmitted (tl (gr_radio g)) rs), gr_radio := drop (length rs) (tl (gr_radio g))\<rparr>)"
      using Cons.IH [OF rest(1) others_kept [OF s1(3) rest(2,4)] rest(3) s1(2), of ?g1 "n + 1"] by (auto simp: Let_def)
    show ?thesis unfolding Let_def sel
      using s'(2) one True by (intro exI [of _ s'] conjI dispatched_Cons [OF s1(1,3) s'(1)]) (simp add: drop_Suc)
  next
    case False
    then have sel: "transmitted (gr_radio g) (r # rs) = transmitted (gr_radio ?g) rs" by (cases "gr_radio g") auto
    have "dispatch_all (poll_client net host port) radio_tx (map egress_fields (r # rs)) n g
        = dispatch_all (poll_client net host port) radio_tx (map egress_fields rs) n ?g"
      using one False by simp
    then show ?thesis using Cons.IH [OF rest(1,2,3) Cons.prems(4), of ?g n] Cons.prems(5)
      unfolding sel Let_def by (simp add: drop_Suc)
  qed
qed

lemma page_of:
  assumes "drainable js s"
  shows "polled (Some s) = take 10 (filter pending (settlements s))" "set (polled (Some s)) \<subseteq> set (settlements s)"
    "distinct (map record_key (polled (Some s)))"
proof -
  show page: "polled (Some s) = take 10 (filter pending (settlements s))"
    using receipt_store.pending_eq [of s 10] assms by (simp add: polled_Some drainable_def durable_def)
  show "set (polled (Some s)) \<subseteq> set (settlements s)"
    unfolding page using set_take_subset [of 10 "filter pending (settlements s)"] by auto
  have "distinct (map record_key (filter pending (settlements s)))"
    using drainable_distinct [OF assms] by (rule distinct_map_filter)
  then show "distinct (map record_key (polled (Some s)))" unfolding page by (simp add: take_map [symmetric])
qed

lemma tick_page:
  assumes "drainable js s" and "list_all wire_receipt (polled (Some s))" and "gr_store g = Some s"
    and "length (records_json (polled (Some s))) \<le> bufferBeforeChunkingSize"
  shows "\<exists>s'. let tx = transmitted (gr_radio g) (polled (Some s)) in dispatched js tx s s' \<and>
    tick (poll_client net host port) radio_tx g
      = (int (length tx), g\<lparr>gr_store := Some s', gr_sent := gr_sent g @ map frame_of tx,
           gr_radio := drop (length (polled (Some s))) (gr_radio g)\<rparr>)"
proof -
  let ?page = "polled (Some s)"
  have plain: "list_all plain_record ?page" "list_all readable_record ?page"
    using assms(2) wire_readable by (auto simp: list_all_iff readable_record_def)
  have fetch: "ec_fetch (poll_client net host port) RESPONSE_BUF_SIZE g = (Some (200, records_json ?page), g)"
    using fetch_page [OF plain(1), of RESPONSE_BUF_SIZE] assms(3,4)
    by (simp add: poll_client_def RESPONSE_BUF_SIZE_def http_payload_def bufferBeforeChunkingSize_def)
  have parse: "parse_pending_response (records_json ?page) EgressMaxPerTick = Ok (map egress_fields ?page)"
    using page_of(1) [OF assms(1)] by (intro parse_page [OF _ _ plain(2)]) (simp_all add: EgressMaxPerTick_def)
  show ?thesis
    using dispatch_page [OF assms(2) page_of(2,3) [OF assms(1)] assms(1,3), of 0] fetch parse
    by (auto simp: tick_def Let_def)
qed

lemma tick_large:
  assumes "drainable js s" and "list_all wire_receipt (polled (Some s))" and "gr_store g = Some s"
    and "bufferBeforeChunkingSize < length (records_json (polled (Some s)))"
  shows "tick (poll_client net host port) radio_tx g = (- 1, g)"
proof -
  let ?page = "polled (Some s)"
  have plain: "list_all plain_record ?page" using assms(2) by (auto simp: list_all_iff wire_receipt_def)
  have "length ?page \<le> 10" using page_of(1) [OF assms(1)] by simp
  then have "length (records_json ?page) \<le> 8192" using page_size(2) [OF assms(2)] by linarith
  from fetch_page [OF plain this, of RESPONSE_BUF_SIZE] parse_chunked [OF assms(4)] assms(3) show ?thesis
    by (simp add: tick_def poll_client_def RESPONSE_BUF_SIZE_def Let_def)
qed

end

section \<open>The gateway as such a link\<close>

text \<open>
  A network that hands the request to the handler it is for and writes the handler's answer, with the two
  fields of an acknowledgement read from the JSON object after the header.
\<close>

definition bind_ack :: "string \<Rightarrow> string + ackRequest" where
  "bind_ack body = (case (key_value ''payment_id'' 96 body, key_value ''settlement_tx_hash'' 80 body) of
     (Some p, Some t) \<Rightarrow> Inr \<lparr>ack_PaymentID = p, ack_SettlementTxHash = t\<rparr> | _ \<Rightarrow> Inl ''EOF'')"

definition reply_text :: "http_lib \<Rightarrow> gin_context \<Rightarrow> string" where
  "reply_text h c = (case responses c of
     [(code, ReceiptsReply rs)] \<Rightarrow> go_response h code (records_json rs)
   | [(code, StatusReply st)] \<Rightarrow> go_response h code (status_json st)
   | [(code, _)] \<Rightarrow> go_response h code ''''
   | _ \<Rightarrow> '''')"

definition gateway_net :: "json_codec \<Rightarrow> http_lib \<Rightarrow> string \<Rightarrow> nat \<Rightarrow> store option network" where
  "gateway_net js h host port req es =
     (if req = get_request host port then (Some [Some (reply_text h (HandleEgressPending es NewContext))], es)
      else case HandleEgressAck js Stored (bind_ack (drop (find_header_end req) req)) es NewContext of
          (es', c) \<Rightarrow> (Some [Some (reply_text h c)], es'))"

lemma bind_ack_json:
  assumes "json_plain p" and "json_plain t" and "length p < 96" and "length t < 80"
  shows "bind_ack (ack_json p t) = Inr \<lparr>ack_PaymentID = p, ack_SettlementTxHash = t\<rparr>"
proof -
  let ?pid = "json_member ''payment_id'' (json_str p)" and ?tx = "json_member ''settlement_tx_hash'' (json_str t)"
  have shape: "ack_json p t = CHR ''{'' # join_with CHR '','' [?pid, ?tx] @ [CHR ''}'']"
    by (simp add: ack_json_def json_member_def json_str_def)
  note plain = json_plain_unescaped [OF assms(1)] json_plain_unescaped [OF assms(2)]
  have "key_value ''payment_id'' 96 (join_with CHR '','' [?pid, ?tx] @ [CHR ''}'']) = Some p"
    by (rule key_value_join [where pre = "[]", unfolded append_Nil]) (use plain assms in simp_all)
  moreover have "list_all (passed ''settlement_tx_hash'') [?pid]"
    using plain_value(2) [OF assms(1)] by (simp add: member_passes(1))
  then have "key_value ''settlement_tx_hash'' 80 (join_with CHR '','' [?pid, ?tx] @ [CHR ''}'']) = Some t"
    by (rule key_value_join [where pre = "[?pid]", unfolded append_Cons append_Nil]) (use plain assms in simp_all)
  ultimately show ?thesis by (simp add: bind_ack_def shape key_value_char del: join_with.simps)
qed

lemma post_body:
  assumes "CHR 0x0D \<notin> set host"
  shows "drop (find_header_end (post_request host port json)) (post_request host port json) = json"
proof -
  let ?l = "''POST /api/v1/egress/ack HTTP/1.1''"
  let ?ls = "[''Host: '' @ host @ '':'' @ dec_string port, ''Content-Type: application/json'',
    ''Content-Length: '' @ dec_string (length json), ''Connection: close'']"
  have shape: "post_request host port json = (header_lines (?l # ?ls) @ crlf) @ json"
    by (simp add: post_request_def header_lines_def)
  have "list_all clean_line ?ls"
    using assms dec_string_digits [of "CHR 0x0D" port] dec_string_digits [of "CHR 0x0D" "length json"]
    by (auto simp: clean_line_def)
  moreover have "CHR 0x0D \<notin> set ?l" by simp
  ultimately have "find_header_end ((header_lines (?l # ?ls) @ crlf) @ json) = length (header_lines (?l # ?ls) @ crlf)"
    using header_end_lines [of ?l ?ls json 0] by (simp add: find_header_end_def)
  moreover have "drop (length xs) (xs @ ys) = ys" for xs ys :: string by simp
  ultimately show ?thesis unfolding shape by (simp only:)
qed

lemma answersI: "http_ok h \<Longrightarrow> net req es = (Some [Some (go_response h code body)], es') \<Longrightarrow> answers net req es es' code body"
  unfolding answers_def by (intro exI [of _ h] exI [of _ "[go_response h code body]"]) (simp add: go_response_def)

lemma gateway_net_link:
  assumes "json_ok js" and "http_ok h" and "length host \<le> 64" and "port < 65536" and "CHR 0x0D \<notin> set host"
  shows "egress_link js host port (gateway_net js h host port)"
proof
  fix es rs
  assume "HandleEgressPending es NewContext = \<lparr>responses = [(200, ReceiptsReply rs)], aborted = False\<rparr>"
  then show "answers (gateway_net js h host port) (get_request host port) es es 200 (records_json rs)"
    by (intro answersI [OF assms(2)]) (simp add: gateway_net_def reply_text_def)
next
  fix p t es es' st
  assume plain: "json_plain p" "json_plain t" "length p < 96" "length t < 80"
    and run: "HandleEgressAck js Stored (Inr \<lparr>ack_PaymentID = p, ack_SettlementTxHash = t\<rparr>) es NewContext
      = (es', \<lparr>responses = [(200, StatusReply st)], aborted = False\<rparr>)"
  have "post_request host port (ack_json p t) \<noteq> get_request host port" by (simp add: post_request_def get_request_def)
  then show "answers (gateway_net js h host port) (post_request host port (ack_json p t)) es es' 200 (status_json st)"
    using run by (intro answersI [OF assms(2)])
      (simp add: gateway_net_def reply_text_def post_body [OF assms(5)] bind_ack_json [OF plain])
qed (use assms in simp_all)

text \<open>A header as the server writes it, and the address the ground station is built with.\<close>

definition demo_http :: http_lib where
  "demo_http = \<lparr>hl_reason = (\<lambda>code. ''OK''),
     hl_before = [''Content-Type: application/json; charset=utf-8'', ''Date: Sun, 19 Apr 2026 12:00:00 GMT''],
     hl_after = [''Connection: close'']\<rparr>"

lemma to_lower_colon: "to_lower c = CHR '':'' \<Longrightarrow> c = CHR '':''"
proof (rule ccontr)
  assume low: "to_lower c = CHR '':''" and other: "c \<noteq> CHR '':''"
  then have c: "65 \<le> (of_char c :: nat)" "of_char c \<le> (90 :: nat)" and eq: "char_of (of_char c + 32 :: nat) = CHR '':''"
    by (auto simp: to_lower_def split: if_splits)
  have "(of_char c + 32 :: nat) mod 256 = of_char (CHR '':'')"
    unfolding eq [symmetric] by (rule of_char_of [symmetric])
  moreover have "(of_char c + 32 :: nat) mod 256 = of_char c + 32" using c(2) by simp
  ultimately show False using c(1) by simp
qed

lemma silent_without:
  assumes "d \<in> set ''content-length:''" and "list_all (\<lambda>c. to_lower c \<noteq> d) l"
  shows "silent_line l"
proof -
  have crlf: "to_lower (CHR 0x0D) \<noteq> d" "to_lower (CHR 0x0A) \<noteq> d" using assms(1) by (auto simp: to_lower_def)
  have "\<not> content_length_at (drop i l @ crlf)" for i
  proof
    assume "content_length_at (drop i l @ crlf)"
    then have "map to_lower (take 15 (drop i l @ crlf)) = ''content-length:''" by (simp only: content_length_at_def)
    with assms(1) have "d \<in> to_lower ` set (take 15 (drop i l @ crlf))" by (metis set_map)
    then obtain c where c: "c \<in> set (take 15 (drop i l @ crlf))" "d = to_lower c" by (rule imageE)
    from in_set_takeD [OF c(1)] have "c \<in> set l \<or> c = CHR 0x0D \<or> c = CHR 0x0A" by (auto dest: in_set_dropD)
    then show False using c(2) crlf assms(2) by (auto simp: list_all_iff)
  qed
  then show ?thesis by (simp add: silent_line_def)
qed

lemma demo_http_ok: "http_ok demo_http"
proof -
  have "silent_line ''Content-Type: application/json; charset=utf-8''" "silent_line ''Connection: close''"
    by (rule silent_without [of "CHR ''g''"], simp, simp add: to_lower_def char_of_eq_iff)+
  moreover have "silent_line ''Date: Sun, 19 Apr 2026 12:00:00 GMT''"
    by (rule silent_without [of "CHR ''l''"], simp, simp add: to_lower_def char_of_eq_iff)
  ultimately have "list_all (\<lambda>l. clean_line l \<and> silent_line l) (hl_before demo_http @ hl_after demo_http)"
    by (simp add: demo_http_def clean_line_def)
  moreover have "silent_line (status_line demo_http code)" for code
  proof (rule silent_without [of "CHR '':''"])
    have "to_lower c \<noteq> CHR '':''" if "c \<in> set (dec_string code)" for c
      using dec_string_digits [OF that] to_lower_colon [of c] by auto
    then show "list_all (\<lambda>c. to_lower c \<noteq> CHR '':'') (status_line demo_http code)"
      by (simp add: status_line_def demo_http_def list_all_iff to_lower_def char_of_eq_iff)
  qed simp
  moreover have "length (header_lines (status_line demo_http code # hl_before demo_http @ hl_after demo_http)) \<le> 4096" if "code < 1000" for code
    using length_dec_string [of code 3] that by (simp add: header_lines_def status_line_def demo_http_def)
  moreover have "CHR 0x0D \<notin> set (hl_reason demo_http code)" for code by (simp add: demo_http_def)
  ultimately show ?thesis by (simp add: http_ok_def)
qed

definition demo_net :: "store option network" where
  "demo_net = gateway_net demo_js demo_http ''127.0.0.1'' 8080"

interpretation gateway_link: egress_link demo_js "''127.0.0.1''" 8080 demo_net
  unfolding demo_net_def by (rule gateway_net_link [OF demo_js_ok demo_http_ok]) simp_all

section \<open>The receipts of the pipeline on this link\<close>

text \<open>The receipts that the processor stores are plain and of fixed sizes, when an address prints as hexadecimal.\<close>

definition address_plain :: "eth_lib \<Rightarrow> bool" where
  "address_plain eth \<longleftrightarrow> (\<forall>a. length a = 20 \<longrightarrow> json_plain (Address_Hex eth a))"

lemma json_plain_append: "json_plain (x @ y) \<longleftrightarrow> json_plain x \<and> json_plain y"
  by (simp add: json_plain_def)

lemma json_plain_Nil: "json_plain []"
  by (simp add: json_plain_def)

lemma json_plain_dec: "json_plain (dec_string n)"
  unfolding json_plain_def list_all_iff using dec_string_digits [of _ n] by (simp add: Let_def)

lemma json_plain_hex: "json_plain (EncodeToString bs)"
proof -
  have digit: "json_plain [hex_char n]" if "n < 16" for n
    using that by (simp add: json_plain_def hex_char_def Let_def)
  have "json_plain ([hex_char (unat b div 16)] @ [hex_char (unat b mod 16)])" for b :: byte
    unfolding json_plain_append using unsigned_less [where 'a = nat, of b] by (intro conjI digit) simp_all
  then have "json_plain (concat (map (\<lambda>b. [hex_char (unat b div 16)] @ [hex_char (unat b mod 16)]) bs))"
    by (induction bs) (simp_all only: list.map concat.simps json_plain_append json_plain_Nil conj.right_neutral)
  then show ?thesis by (simp add: EncodeToString_def)
qed

lemma json_plain_0x: "json_plain ''0x''"
  by (simp add: json_plain_def)

lemma receipt_wire:
  assumes "libraries_ok ed eth js" and "address_plain eth" and "seed_ok p" and "typed_event ev" and "receipt_of ed eth p ev r"
  shows "wire_receipt r" "\<exists>seq. frame_of r = built ed p seq ev"
proof -
  obtain seq where r: "r = (receipt_for eth ev (built ed p seq ev))\<lparr>DispatchStatus := StatusPending\<rparr>"
    using assms(5) by (auto simp: receipt_of_def)
  have lib: "eth_ok eth" "ed25519_ok ed" "length (ev_Wallet ev) = 20" "length (ev_TxHash ev) = 32"
    using assms(1,4) by (simp_all add: libraries_ok_def eth_text_def typed_event_def)
  have len: "length (built ed p seq ev) = 112" using built_length [OF lib(2) assms(3)] by (simp add: PacketCFrameLen_def)
  have wallet: "json_plain (Address_Hex eth (ev_Wallet ev))" "length (Address_Hex eth (ev_Wallet ev)) = 42"
    using assms(1,2) lib(3) by (simp_all add: libraries_ok_def eth_text_def address_plain_def)
  have "(2 :: nat) ^ 256 \<le> 10 ^ 78" by simp
  then have num: "length (dec_string (ev_TxNonce ev)) \<le> 78" "length (dec_string (ev_Amount ev)) \<le> 78"
    using assms(4) by (auto intro!: length_dec_string simp: typed_event_def)
  have hash: "json_plain (Hash_Hex eth (ev_TxHash ev))" "length (Hash_Hex eth (ev_TxHash ev)) = 66"
    using lib(1,4) json_plain_hex [of "ev_TxHash ev"] json_plain_append [of "''0x''"] json_plain_0x
    by (simp_all add: eth_ok_def length_EncodeToString)
  show "\<exists>seq. frame_of r = built ed p seq ev"
    by (intro exI [of _ seq]) (simp add: r frame_of_def receipt_for_def DecodeString_EncodeToString)
  have "json_plain StatusPending" by (simp add: json_plain_def StatusPending_def)
  with len wallet num hash show "wire_receipt r"
    by (simp add: r wire_receipt_def plain_record_def receipt_for_def payment_id_def tx_hash_hex_def json_plain_dec
        json_plain_hex length_EncodeToString DecodeString_EncodeToString dec_string_not_Nil)
qed

lemma wire_storable:
  assumes "json_compact js" and "json_ok js" and "wire_receipt r"
  shows "storable js r"
proof -
  have ascii: "ascii v" if "json_plain v" for v
    using that unfolding json_plain_def ascii_def by (rule list.pred_mono_strong) (auto simp: Let_def)
  note wire = assms(3) [unfolded wire_receipt_def]
  have "good_line js (r\<lparr>DispatchStatus := st\<rparr>)" if "ascii st" "length st \<le> 10" for st
  proof -
    let ?r = "r\<lparr>DispatchStatus := st\<rparr>"
    have asc: "ascii_record ?r" using wire that(1) ascii by (simp add: ascii_record_def plain_record_def)
    have "length (store_line js ?r) \<le> 400 + 6 * text_size ?r"
      using assms(1) json_line(1) [OF assms(2) asc] by (auto simp: json_compact_def)
    moreover have "text_size ?r \<le> 498" using wire that(2) by (simp add: text_size_def)
    ultimately show ?thesis using asc by (simp add: good_line_def maxTokenSize_def)
  qed
  note good = this [OF ascii_status(1)] this [OF ascii_status(2)]
  have "default_status r = r" using wire by (intro default_status_id) (auto simp: StatusPending_def StatusDispatched_def)
  moreover have "r = r\<lparr>DispatchStatus := StatusPending\<rparr> \<or> r = r\<lparr>DispatchStatus := StatusDispatched\<rparr>"
    using wire by (cases r) auto
  ultimately show ?thesis using good by (auto simp: storable_def StatusPending_def StatusDispatched_def)
qed

text \<open>Every receipt of a run that began with an empty store is pending, fit for the wire and has the frame of its event.\<close>

lemma recorded_wire:
  assumes "libraries_ok ed eth js" and "address_plain eth" and "seed_ok (pl_proc x)" and "settlements (pl_store x) = []"
    and "recorded ed eth js events x y" and "\<And>ev. ev \<in> set events \<Longrightarrow> typed_event ev"
  shows "list_all (\<lambda>r. wire_receipt r \<and> pending r) (settlements (pl_store y))"
    and "\<forall>r \<in> set (settlements (pl_store y)). \<exists>ev \<in> set events. \<exists>seq. record_key r = event_key eth ev \<and> frame_of r = built ed (pl_proc x) seq ev"
proof -
  have src: "\<exists>ev \<in> set events. receipt_of ed eth (pl_proc x) ev r" if "r \<in> set (settlements (pl_store y))" for r
    using that assms(4,5) by (auto simp: recorded_def)
  show "list_all (\<lambda>r. wire_receipt r \<and> pending r) (settlements (pl_store y))"
    unfolding list_all_iff using src receipt_wire(1) [OF assms(1,2,3) assms(6)] receipt_of_key by metis
  show "\<forall>r \<in> set (settlements (pl_store y)). \<exists>ev \<in> set events. \<exists>seq. record_key r = event_key eth ev \<and> frame_of r = built ed (pl_proc x) seq ev"
    using src receipt_wire(2) [OF assms(1,2,3) assms(6)] receipt_of_key by metis
qed

lemma key_count:
  assumes "distinct (map record_key rs)" and "record_key ` set rs = f ` set logs"
  shows "length rs \<le> length logs"
proof -
  have "length rs = card (f ` set logs)" using distinct_card [OF assms(1)] assms(2) by simp
  also have "\<dots> \<le> length logs" using card_image_le [of "set logs" f] card_length [of logs] by simp
  finally show ?thesis .
qed

text \<open>A store with any number of receipts, for the witnesses.\<close>

definition demo_wire :: "nat \<Rightarrow> receipt_record" where
  "demo_wire i = \<lparr>PaymentID = dec_string i, SettlementTxHash = ''0x'' @ replicate 64 (CHR ''a''), rc_SatID = 7, rc_Amount = ''42'',
     AssetID = 1, rc_Wallet = ''0x'' @ replicate 40 (CHR ''b''), PacketCHex = EncodeToString (replicate 112 0), rc_BlockNumber = 3,
     TsMs = 1000, DispatchStatus = StatusPending\<rparr>"

fun demo_backlog :: "nat \<Rightarrow> store" where
  "demo_backlog 0 = empty_store ''f''"
| "demo_backlog (Suc n) = snd (append_receipt demo_js Stored (demo_wire n) (demo_backlog n))"

lemma demo_wire_receipt: "i < 10 ^ 78 \<Longrightarrow> wire_receipt (demo_wire i)"
proof -
  assume i: "i < 10 ^ 78"
  have fill: "json_plain (replicate n (CHR ''a''))" "json_plain (replicate n (CHR ''b''))" for n
    by (simp_all add: json_plain_def list_all_iff)
  have "json_plain ''42''" "json_plain StatusPending" by (simp_all add: json_plain_def StatusPending_def)
  then have "plain_record (demo_wire i)"
    unfolding plain_record_def demo_wire_def
    by (simp only: receipt_record.simps json_plain_dec json_plain_hex json_plain_append json_plain_0x fill)
  moreover have "length (dec_string i) \<le> 78" using i by (intro length_dec_string) simp_all
  ultimately show ?thesis
    by (simp add: wire_receipt_def demo_wire_def dec_string_not_Nil length_EncodeToString DecodeString_EncodeToString)
qed

lemma demo_wire_key: "record_key (demo_wire i) = record_key (demo_wire j) \<longleftrightarrow> i = j"
proof -
  have "record_key (demo_wire i) = dec_string i @ CHR ''|'' # ''0x'' @ replicate 64 (CHR ''a'')" for i
    by (simp add: record_key_def dedupKey_def demo_wire_def)
  then show ?thesis by (simp only: append_same_eq dec_string_inject)
qed

lemma demo_backlog:
  assumes "n < 10 ^ 78"
  shows "drainable demo_js (demo_backlog n)" "settlements (demo_backlog n) = map demo_wire [0..<n]"
proof -
  have "drainable demo_js (demo_backlog n) \<and> settlements (demo_backlog n) = map demo_wire [0..<n]"
    using assms
  proof (induction n)
    case (Suc n)
    let ?s = "demo_backlog n" and ?r = "demo_wire n"
    obtain res s' where run: "append_receipt demo_js Stored ?r ?s = (res, s')" by (metis surj_pair)
    have s: "drainable demo_js ?s" "settlements ?s = map demo_wire [0..<n]" "wire_receipt ?r"
      using Suc demo_wire_receipt [of n] by simp_all
    have ids: "PaymentID ?r \<noteq> '''' \<and> SettlementTxHash ?r \<noteq> ''''" by (simp add: demo_wire_def dec_string_not_Nil)
    have d: "drainable demo_js s'" "res = Ok ()"
      using append_receipt_drainable [OF demo_js_ok s(1) wire_storable [OF demo_js_compact demo_js_ok s(3)] _ ids run]
      by (simp_all add: clean_def)
    have "default_status ?r = ?r" by (rule default_status_id) (simp add: demo_wire_def StatusPending_def)
    moreover have "record_key ?r \<notin> record_key ` set (map demo_wire [0..<n])" by (auto simp: demo_wire_key)
    ultimately have "settlements s' = settlements ?s @ [?r]"
      using append_receipt_queue [OF _ run] s(1,2) d(2) by (simp add: drainable_def durable_def)
    with d(1) run s(2) show ?case by simp
  qed (simp add: drainable_empty)
  then show "drainable demo_js (demo_backlog n)" "settlements (demo_backlog n) = map demo_wire [0..<n]" by blast+
qed

lemma demo_backlog_pending: "n < 10 ^ 78 \<Longrightarrow> filter pending (settlements (demo_backlog n)) = map demo_wire [0..<n]"
  by (simp add: demo_backlog(2) filter_id_conv pending_def demo_wire_def)

lemma demo_address_plain: "address_plain demo_eth"
  unfolding address_plain_def demo_eth_def
  by (intro allI impI) (simp only: eth_lib.simps json_plain_append json_plain_hex json_plain_0x)

section \<open>Properties\<close>

text \<open>
  C8.  A tick of the ground station implements a round of the bouncer.  Against a gateway whose page of
  pending receipts takes at most 2048 bytes, one tick puts the frames of exactly those receipts on the
  radio whose transmission succeeds, in the order of the page, has the gateway mark exactly these as
  dispatched and returns their number; a receipt whose transmission fails stays pending.  When the
  radio does not fail, the receipts and the store are those of the abstract round.
\<close>

theorem tick_implements_round:
  assumes "egress_link js host port net" and "drainable js s" and "list_all wire_receipt (polled (Some s))"
    and "length (records_json (polled (Some s))) \<le> 2048" and "gr_store g = Some s"
  shows "\<exists>s'. let page = polled (Some s); tx = transmitted (gr_radio g) page in
    tick (poll_client net host port) radio_tx g
      = (int (length tx), g\<lparr>gr_store := Some s', gr_sent := gr_sent g @ map frame_of tx, gr_radio := drop (length page) (gr_radio g)\<rparr>) \<and>
    acknowledge js tx (Some s) = Some s' \<and>
    filter pending (settlements s') = filter (\<lambda>r. record_key r \<notin> record_key ` set tx) (filter pending (settlements s)) \<and>
    (gr_radio g = [] \<longrightarrow> bouncer_rounds js [False] (Some s) = (page, Some s'))"
proof -
  have "length (records_json (polled (Some s))) \<le> bufferBeforeChunkingSize"
    using assms(4) by (simp add: bufferBeforeChunkingSize_def)
  from egress_link.tick_page [OF assms(1,2,3,5) this] show ?thesis
    by (auto simp: Let_def dispatched_def)
qed

theorem tick_implements_round_witness:
  "\<exists>s'. tick (poll_client demo_net ''127.0.0.1'' 8080) radio_tx \<lparr>gr_store = Some (demo_backlog 2), gr_sent = [], gr_radio = [False]\<rparr>
      = (1, \<lparr>gr_store = Some s', gr_sent = [replicate 112 0], gr_radio = []\<rparr>) \<and>
     filter pending (settlements s') = [demo_wire 0]"
proof -
  let ?s = "demo_backlog 2" and ?g = "\<lparr>gr_store = Some (demo_backlog 2), gr_sent = [], gr_radio = [False]\<rparr>"
  have s: "drainable demo_js ?s" "filter pending (settlements ?s) = [demo_wire 0, demo_wire 1]"
    using demo_backlog(1) [of 2] demo_backlog_pending [of 2] by (simp_all add: numeral_2_eq_2 upt_rec)
  then have page: "polled (Some ?s) = [demo_wire 0, demo_wire 1]"
    using gateway_link.page_of(1) [OF s(1)] by simp
  have wire: "list_all wire_receipt (polled (Some ?s))" unfolding page by (simp add: demo_wire_receipt)
  have small: "length (records_json (polled (Some ?s))) \<le> 2048" using page_size(2) [OF wire] by (simp add: page)
  have frame: "frame_of (demo_wire 1) = replicate 112 0"
    by (simp only: frame_of_def demo_wire_def receipt_record.simps DecodeString_EncodeToString outcome.case)
  have tx: "transmitted (gr_radio ?g) (polled (Some ?s)) = [demo_wire 1]" by (simp add: page)
  have keys: "record_key (demo_wire 0) \<noteq> record_key (demo_wire 1)" by (simp add: demo_wire_key)
  show ?thesis
    using tick_implements_round [OF gateway_link.egress_link_axioms s(1) wire small, of ?g]
    unfolding Let_def tx s(2) page using frame keys by auto
qed

text \<open>
  C20.  A backlog stalls the ground station.  With five or more receipts pending the page of the gateway
  is longer than 2048 bytes, so that the server sends it in the chunked transfer encoding, which the
  poll client does not decode: every tick returns -1, and after any number of ticks nothing has been
  transmitted and the same receipts are pending.
\<close>

theorem large_page_stalls:
  assumes "egress_link js host port net" and "drainable js s" and "list_all wire_receipt (settlements s)"
    and "5 \<le> length (filter pending (settlements s))" and "gr_store g = Some s"
  shows "tick (poll_client net host port) radio_tx g = (- 1, g) \<and>
    ((\<lambda>g. snd (tick (poll_client net host port) radio_tx g)) ^^ n) g = g"
proof -
  let ?page = "polled (Some s)"
  have page: "?page = take 10 (filter pending (settlements s))" "set ?page \<subseteq> set (settlements s)"
    using egress_link.page_of [OF assms(1,2)] by blast+
  have wire: "list_all wire_receipt ?page" using assms(3) page(2) by (auto simp: list_all_iff)
  have "5 \<le> length ?page" using page(1) assms(4) by simp
  then have "bufferBeforeChunkingSize < length (records_json ?page)"
    using page_size(1) [OF wire] by (simp add: bufferBeforeChunkingSize_def)
  from egress_link.tick_large [OF assms(1,2) wire assms(5) this]
  have stuck: "tick (poll_client net host port) radio_tx g = (- 1, g)" .
  then have "((\<lambda>g. snd (tick (poll_client net host port) radio_tx g)) ^^ n) g = g" by (induction n) simp_all
  with stuck show ?thesis ..
qed

theorem large_page_stalls_witness:
  "((\<lambda>g. snd (tick (poll_client demo_net ''127.0.0.1'' 8080) radio_tx g)) ^^ 1000)
     \<lparr>gr_store = Some (demo_backlog 5), gr_sent = [], gr_radio = []\<rparr> = \<lparr>gr_store = Some (demo_backlog 5), gr_sent = [], gr_radio = []\<rparr> \<and>
   length (filter pending (settlements (demo_backlog 5))) = 5"
proof -
  have s: "drainable demo_js (demo_backlog 5)" "filter pending (settlements (demo_backlog 5)) = map demo_wire [0..<5]"
    "list_all wire_receipt (settlements (demo_backlog 5))"
    using demo_backlog [of 5] demo_backlog_pending [of 5] demo_wire_receipt by (simp_all add: list_all_iff)
  then have five: "length (filter pending (settlements (demo_backlog 5))) = 5" by simp
  with large_page_stalls [OF gateway_link.egress_link_axioms s(1,3),
      of "\<lparr>gr_store = Some (demo_backlog 5), gr_sent = [], gr_radio = []\<rparr>" 1000] show ?thesis by simp
qed

end
