(* ===== verification/Ingest.thy ===== *)
theory Ingest
  imports Crc32 Frames Registry Frame_Constants Chain_Client Gin_Context
begin

text \<open>
  \<^verbatim>\<open>api/handlers/ingest.go\<close>: the ingest handler.  The gin context is the list of the responses the
  handler writes and the abort flag; the request body is what reading it gave; the package variable
  \<^verbatim>\<open>Submitter\<close> is an optional queue with its \<^verbatim>\<open>Enqueue\<close> operation.  Every slice of the raw frame that
  could be out of range is a branch to \<^verbatim>\<open>Panic\<close>.  Log lines are left out; the one non-ASCII character of a
  response text (a dash) is written as a colon.
\<close>

section \<open>The handler\<close>

definition magicPacketD :: byte where "magicPacketD = 0xD0"
definition magicPacketAck :: byte where "magicPacketAck = 0xAC"

definition bodyOffsetZero :: "byte list \<Rightarrow> bool \<Rightarrow> byte \<times> bool" where
  "bodyOffsetZero raw isSnlp =
     (let headerLen = (if isSnlp then 14 else 6) in
      if length raw \<le> headerLen then (0, False) else (raw ! headerLen, True))"

definition enqueueSettlementIntent ::
    "eth_lib \<Rightarrow> registry \<Rightarrow> (settlement_intent \<Rightarrow> 'q \<Rightarrow> 'q) \<Rightarrow> packet_b_body \<Rightarrow> 'q \<Rightarrow> (unit, 'q) outcome" where
  "enqueueSettlementIntent eth db enq b q =
     (if length (pb_EncPayload b) \<noteq> 62 then Ok q
      else case GetSat db (pb_SatId b) of
          None \<Rightarrow> Ok q
        | Some satRec \<Rightarrow>
            if rec_Wallet satRec = '''' then Ok q
            else
              bind_ok (go_slice (pb_EncPayload b) 48 56) (\<lambda>am.
              bind_ok (go_slice (pb_EncPayload b) 56 58) (\<lambda>as.
              let amount = le_word am :: u64; assetID = le_word as :: u16;
                  intent = \<lparr>in_SatId = pb_SatId b, in_Amount = unat amount, in_AssetId = assetID,
                    in_TxNonce = DeriveTxNonce (pb_SatId b) (pb_EpochTs b),
                    in_Wallet = HexToAddress eth (rec_Wallet satRec)\<rparr>
              in Ok (enq intent q))))"

text \<open>The CRC gate the three frame kinds with a CRC go through.\<close>

definition crc_gate ::
    "byte list \<Rightarrow> int \<Rightarrow> string \<Rightarrow> gin_context \<Rightarrow> (unit, bool \<times> gin_context) outcome" where
  "crc_gate raw crcOffset msg c =
     (case ValidateFrameCRC32 raw crcOffset of
        Ok _ \<Rightarrow> Ok (True, c)
      | Err e \<Rightarrow> Ok (True, AbortWithStatusJSON StatusBadRequest msg c)
      | Panic \<Rightarrow> Panic)"

fun handlePayloadBody ::
    "ed25519_lib \<Rightarrow> eth_lib \<Rightarrow> registry \<Rightarrow> (settlement_intent \<Rightarrow> 'q \<Rightarrow> 'q) \<Rightarrow> void_body \<Rightarrow> byte list \<Rightarrow> int \<Rightarrow> bool \<Rightarrow>
     'q option \<Rightarrow> gin_context \<Rightarrow> (unit, bool \<times> 'q option \<times> gin_context) outcome" where
  "handlePayloadBody ed eth db enq (HeartbeatBody b) raw packetSize isSnlp q c = Ok (True, q, c)"
| "handlePayloadBody ed eth db enq (PacketABody b) raw packetSize isSnlp q c = Ok (True, q, c)"
| "handlePayloadBody ed eth db enq (PacketBBody b) raw packetSize isSnlp q c =
     (if packetSize < int PacketBBodyLen
      then Ok (True, q, AbortWithStatusJSON StatusBadRequest ''Packet too short for signature verification'' c)
      else let bodyStart = packetSize - int PacketBBodyLen in
        bind_ok (go_slice raw 0 bodyStart) (\<lambda>headerBytes.
        bind_ok (go_slice raw bodyStart (bodyStart + int PacketBSigScopeBody)) (\<lambda>bodyPreSig.
        case VerifyPacketSignature ed db (pb_SatId b) (headerBytes @ bodyPreSig) (sig_Raw (pb_Signature b)) of
          Err e \<Rightarrow> Ok (True, q, AbortWithStatusJSON StatusBadRequest ''Invalid Cryptographic Signature'' c)
        | Panic \<Rightarrow> Panic
        | Ok _ \<Rightarrow>
            (case q of
               None \<Rightarrow> Ok (True, None, c)
             | Some buf \<Rightarrow> bind_ok (enqueueSettlementIntent eth db enq b buf) (\<lambda>buf'. Ok (True, Some buf', c))))))"
| "handlePayloadBody ed eth db enq (PacketCBody b) raw packetSize isSnlp q c =
     (if packetSize < 98
      then Ok (True, q, AbortWithStatusJSON StatusBadRequest ''Packet too short for signature verification'' c)
      else let payloadStart = packetSize - 98 in
        bind_ok (go_slice raw payloadStart (payloadStart + 26)) (\<lambda>messageBytes.
        case VerifyPacketSignature ed db 100 messageBytes (sig_Raw (pc_Signature b)) of
          Err e \<Rightarrow> Ok (True, q, AbortWithStatusJSON StatusUnauthorized ''Invalid Cryptographic Signature'' c)
        | Panic \<Rightarrow> Panic
        | Ok _ \<Rightarrow> Ok (True, q, c)))"
| "handlePayloadBody ed eth db enq (PacketHBody b) raw packetSize isSnlp q c = Ok (True, q, c)"
| "handlePayloadBody ed eth db enq (Dispatch122 b) raw packetSize isSnlp q c =
     (let (magic, ok) = bodyOffsetZero raw isSnlp in
      if \<not> ok then Ok (True, q, AbortWithStatusJSON StatusBadRequest ''Dispatch_122 frame too short for magic byte'' c)
      else case Content b of
          Some (PacketDBody inner) \<Rightarrow>
            if magic \<noteq> magicPacketD
            then Ok (True, q, AbortWithStatusJSON StatusBadRequest ''Packet D magic byte mismatch (F-03)'' c)
            else bind_ok (crc_gate raw (packetSize - PacketDCrcOffsetFromEnd) ''Packet D CRC mismatch (VOID-122)'' c)
              (\<lambda>(r, c'). Ok (r, q, c'))
        | Some (PacketAckBodySnlp inner) \<Rightarrow>
            if magic \<noteq> magicPacketAck
            then Ok (True, q, AbortWithStatusJSON StatusBadRequest ''Packet ACK magic byte mismatch (F-03)'' c)
            else bind_ok (crc_gate raw (packetSize - PacketAckCrcOffsetFromEnd) ''Packet ACK CRC mismatch (VOID-122)'' c)
              (\<lambda>(r, c'). Ok (r, q, c'))
        | None \<Rightarrow> Ok (False, q, c))"
| "handlePayloadBody ed eth db enq (PacketAckBodyCcsds b) raw packetSize isSnlp q c =
     (let (magic, ok) = bodyOffsetZero raw isSnlp in
      if \<not> ok then Ok (True, q, AbortWithStatusJSON StatusBadRequest ''Packet ACK frame too short for magic byte'' c)
      else if magic \<noteq> magicPacketAck
      then Ok (True, q, AbortWithStatusJSON StatusBadRequest ''Packet ACK magic byte mismatch (F-03)'' c)
      else bind_ok (crc_gate raw (packetSize - PacketAckCrcOffsetFromEnd) ''Packet ACK CRC mismatch (VOID-122)'' c)
        (\<lambda>(r, c'). Ok (r, q, c')))"
| "handlePayloadBody ed eth db enq NilBody raw packetSize isSnlp q c = Ok (False, q, c)"

text \<open>A getter whose error the handler discards: the zero value and the object as it was.\<close>

definition or_zero :: "(parse_error, 'v \<times> 'st) outcome \<Rightarrow> 'v \<Rightarrow> 'st \<Rightarrow> (unit, 'v \<times> 'st) outcome" where
  "or_zero r zero st = (case r of Ok x \<Rightarrow> Ok x | Err e \<Rightarrow> Ok (zero, st) | Panic \<Rightarrow> Panic)"

definition IngestPacket ::
    "'s kaitai_rt \<Rightarrow> ed25519_lib \<Rightarrow> eth_lib \<Rightarrow> registry \<Rightarrow> (settlement_intent \<Rightarrow> 'q \<Rightarrow> 'q) \<Rightarrow>
     string + byte list \<Rightarrow> 'q option \<Rightarrow> gin_context \<Rightarrow> (unit, 'q option \<times> gin_context) outcome" where
  "IngestPacket k ed eth db enq body q c =
     (case body of
        Inl e \<Rightarrow> Ok (q, AbortWithStatusJSON StatusBadRequest ''Missing binary payload'' c)
      | Inr rawData \<Rightarrow>
          if length rawData = 0 then Ok (q, AbortWithStatusJSON StatusBadRequest ''Missing binary payload'' c)
          else case parse_frame k rawData of
              Err e \<Rightarrow> Ok (q, AbortWithStatusJSON StatusBadRequest ''Invalid Void Protocol Frame'' c)
            | Panic \<Rightarrow> Panic
            | Ok (packet, st) \<Rightarrow>
                let packetSize = int (length rawData) in
                bind_ok (or_zero (GlobalApid k (packet, st)) 0 (packet, st)) (\<lambda>(apid, packet, st).
                bind_ok (or_zero (IsSnlp k (packet, st)) False (packet, st)) (\<lambda>(isSnlp, packet, st).
                bind_ok (or_zero (header_call isSnlp Version (packet, st)) 0 (packet, st)) (\<lambda>(ccsdsVersion, packet, st).
                if ccsdsVersion \<noteq> 0
                then Ok (q, AbortWithStatusJSON StatusBadRequest ''Unknown CCSDS version: only Version 1 accepted'' c)
                else let tier = (if isSnlp then ''Community (SNLP)'' else ''Enterprise (CCSDS)'') in
                  bind_ok (handlePayloadBody ed eth db enq (Body packet) rawData packetSize isSnlp q c) (\<lambda>(ok, q, c).
                  if \<not> ok then
                    Ok (q, if \<not> IsAborted c
                      then AbortWithStatusJSON StatusBadRequest ''Unsupported or truncated Void Protocol frame'' c else c)
                  else if \<not> IsAborted c then Ok (q, JSON StatusOK (AcceptedReply apid tier) c)
                  else Ok (q, c))))))"

section \<open>What the handler decides\<close>

text \<open>
  The decision on a frame, read off the abstract reading of its bytes: no bounds checks, no magic
  comparison, no context.
\<close>

datatype verdict =
    Unsupported
  | Rejected nat string
  | Accepted "packet_b_body option"

definition signature_ok :: "ed25519_lib \<Rightarrow> registry \<Rightarrow> u32 \<Rightarrow> byte list \<Rightarrow> byte list \<Rightarrow> bool" where
  "signature_ok ed db satID msg sig =
     (case registered_key db satID of None \<Rightarrow> False | Some pub \<Rightarrow> Verify ed pub msg sig)"

definition crc_ok :: "byte list \<Rightarrow> int \<Rightarrow> bool" where
  "crc_ok raw fromEnd \<longleftrightarrow> ValidateFrameCRC32 raw (int (length raw) - fromEnd) = Ok ()"

definition if_crc :: "bool \<Rightarrow> string \<Rightarrow> verdict" where
  "if_crc ok msg = (if ok then Accepted None else Rejected 400 msg)"

definition body_verdict :: "ed25519_lib \<Rightarrow> registry \<Rightarrow> byte list \<Rightarrow> void_body \<Rightarrow> verdict" where
  "body_verdict ed db raw body =
     (case body of
        PacketBBody b \<Rightarrow>
          if signature_ok ed db (pb_SatId b) (take (length raw - 72) raw) (sig_Raw (pb_Signature b))
          then Accepted (Some b) else Rejected 400 ''Invalid Cryptographic Signature''
      | PacketCBody b \<Rightarrow>
          if signature_ok ed db 100 (seg raw (length raw - 98) (length raw - 72)) (sig_Raw (pc_Signature b))
          then Accepted None else Rejected 401 ''Invalid Cryptographic Signature''
      | Dispatch122 d \<Rightarrow>
          (case Content d of
             Some (PacketDBody i) \<Rightarrow> if_crc (crc_ok raw 10) ''Packet D CRC mismatch (VOID-122)''
           | Some (PacketAckBodySnlp i) \<Rightarrow> if_crc (crc_ok raw 4) ''Packet ACK CRC mismatch (VOID-122)''
           | None \<Rightarrow> Unsupported)
      | PacketAckBodyCcsds b \<Rightarrow> if_crc (crc_ok raw 4) ''Packet ACK CRC mismatch (VOID-122)''
      | NilBody \<Rightarrow> Unsupported
      | _ \<Rightarrow> Accepted None)"

text \<open>The intent a verified PacketB asks for, when its satellite has a wallet.\<close>

definition intent_of :: "eth_lib \<Rightarrow> registry \<Rightarrow> packet_b_body \<Rightarrow> settlement_intent option" where
  "intent_of eth db b =
     (case db (pb_SatId b) of
        None \<Rightarrow> None
      | Some r \<Rightarrow> if rec_Wallet r = '''' then None
          else Some \<lparr>in_SatId = pb_SatId b, in_Amount = unat (le_word (seg (pb_EncPayload b) 48 56) :: u64),
            in_AssetId = le_word (seg (pb_EncPayload b) 56 58),
            in_TxNonce = DeriveTxNonce (pb_SatId b) (pb_EpochTs b), in_Wallet = HexToAddress eth (rec_Wallet r)\<rparr>)"

definition submit_intent ::
    "eth_lib \<Rightarrow> registry \<Rightarrow> (settlement_intent \<Rightarrow> 'q \<Rightarrow> 'q) \<Rightarrow> packet_b_body option \<Rightarrow> 'q option \<Rightarrow> 'q option" where
  "submit_intent eth db enq ob q =
     (case ob of None \<Rightarrow> q
      | Some b \<Rightarrow> (case intent_of eth db b of None \<Rightarrow> q | Some i \<Rightarrow> map_option (enq i) q))"

definition body_outcome ::
    "eth_lib \<Rightarrow> registry \<Rightarrow> (settlement_intent \<Rightarrow> 'q \<Rightarrow> 'q) \<Rightarrow> verdict \<Rightarrow> 'q option \<Rightarrow> gin_context \<Rightarrow>
     bool \<times> 'q option \<times> gin_context" where
  "body_outcome eth db enq v q c =
     (case v of
        Unsupported \<Rightarrow> (False, q, c)
      | Rejected code msg \<Rightarrow> (True, q, AbortWithStatusJSON code msg c)
      | Accepted ob \<Rightarrow> (True, submit_intent eth db enq ob q, c))"

lemma VerifyPacketSignature_cases:
  "VerifyPacketSignature ed db satID msg sig = Ok () \<and> signature_ok ed db satID msg sig \<or>
   (\<exists>e. VerifyPacketSignature ed db satID msg sig = Err e) \<and> \<not> signature_ok ed db satID msg sig"
  using VerifyPacketSignature_Ok_iff [of ed db satID msg sig] VerifyPacketSignature_not_Panic [of ed db satID msg sig]
  by (cases "VerifyPacketSignature ed db satID msg sig") (auto simp: signature_ok_def split: option.splits)

lemma enqueue_intent:
  "length (pb_EncPayload b) = 62 \<Longrightarrow>
     enqueueSettlementIntent eth db enq b q = Ok (case intent_of eth db b of None \<Rightarrow> q | Some i \<Rightarrow> enq i q)"
  by (auto simp: enqueueSettlementIntent_def GetSat_def intent_of_def go_slice_def Let_def split: option.splits)

lemma frame_magic:
  assumes "decode_frame raw = Some (snlp, c, bs, b)" and "bs \<noteq> []"
  shows "bodyOffsetZero raw snlp = (hd bs, True)"
proof -
  note parts = decode_frame_parts [OF assms(1)]
  have "0 < body_len c" using parts assms(2) by (metis length_greater_0_conv)
  then have lt: "header_len snlp < length raw" using parts by linarith
  have "hd bs = raw ! header_len snlp"
    using parts lt \<open>0 < body_len c\<close> by (simp add: seg_def hd_conv_nth)
  with lt show ?thesis by (simp add: bodyOffsetZero_def header_len_def)
qed

lemma ValidateFrameCRC32_not_Panic: "off + 4 < 2 ^ 63 \<Longrightarrow> ValidateFrameCRC32 frame off \<noteq> Panic"
  by (auto simp: ValidateFrameCRC32_def go_slice_def go_int_id Let_def not_less split: if_splits)

lemma crc_gate_simp:
  assumes "int (length raw) < 2 ^ 63" and "4 \<le> n"
  shows "crc_gate raw (int (length raw) - n) msg c =
    Ok (True, if crc_ok raw n then c else AbortWithStatusJSON StatusBadRequest msg c)"
  using assms ValidateFrameCRC32_not_Panic [of "int (length raw) - n" raw]
  by (auto simp: crc_gate_def crc_ok_def split: outcome.splits)

lemma decode_body_length:
  "decode_body n bs = Some (PacketBBody b) \<Longrightarrow> n = 178 \<and> b = decode_PacketBBody bs"
  "decode_body n bs = Some (PacketCBody d) \<Longrightarrow> n = 98 \<and> d = decode_PacketCBody bs"
  "decode_body n bs = Some (Dispatch122 e) \<Longrightarrow> n = 122 \<and> e = decode_dispatch bs"
  "decode_body n bs = Some (PacketAckBodyCcsds f) \<Longrightarrow> n = 114 \<and> take 1 bs = [172]"
  by (auto simp: decode_body_def split: if_splits)

lemma decode_frame_body:
  assumes "decode_frame raw = Some (snlp, c, bs, b)"
  shows "decode_body (body_len c) bs = Some b" and "length bs = body_len c"
    and "header_len snlp + body_len c \<le> length raw"
  using decode_frame_parts [OF assms] by blast+

lemma handle_packet_b:
  assumes "decode_frame raw = Some (snlp, c, bs, PacketBBody b)"
  shows "handlePayloadBody ed eth db enq (PacketBBody b) raw (int (length raw)) snlp q ctx =
    Ok (body_outcome eth db enq (body_verdict ed db raw (PacketBBody b)) q ctx)"
proof -
  note parts = decode_frame_body [OF assms]
  have b: "length bs = 178" "b = decode_PacketBBody bs"
    using decode_body_length(1) [OF parts(1)] parts(2) by simp_all
  have pl: "length (pb_EncPayload b) = 62" using b by (simp add: decode_PacketBBody_def)
  have len: "178 \<le> length raw" using parts b(1) by simp
  have s1: "go_slice raw 0 (int (length raw) - 178) = Ok (take (length raw - 178) raw)"
    using len by (simp add: go_slice_def seg_def nat_diff_distrib)
  have s2: "go_slice raw (int (length raw) - 178) (int (length raw) - 178 + 106)
      = Ok (seg raw (length raw - 178) (length raw - 72))"
    using len by (simp add: go_slice_def nat_diff_distrib)
  have msg: "take (length raw - 178) raw @ seg raw (length raw - 178) (length raw - 72) = take (length raw - 72) raw"
    using seg_join [of 0 "length raw - 178" "length raw - 72" raw] len by (simp add: seg_zero)
  show ?thesis
    using VerifyPacketSignature_cases [of ed db "pb_SatId b" "take (length raw - 72) raw" "sig_Raw (pb_Signature b)"] len
    by (auto simp: PacketBBodyLen_def PacketBSigScopeBody_def s1 s2 [simplified] msg body_verdict_def body_outcome_def
        submit_intent_def enqueue_intent [OF pl] StatusBadRequest_def split: option.splits)
qed

lemma handle_packet_c:
  assumes "decode_frame raw = Some (snlp, c, bs, PacketCBody b)"
  shows "handlePayloadBody ed eth db enq (PacketCBody b) raw (int (length raw)) snlp q ctx =
    Ok (body_outcome eth db enq (body_verdict ed db raw (PacketCBody b)) q ctx)"
proof -
  note parts = decode_frame_body [OF assms]
  have len: "98 \<le> length raw"
    using decode_body_length(2) [OF parts(1)] parts(3) by simp
  have s1: "go_slice raw (int (length raw) - 98) (int (length raw) - 98 + 26)
      = Ok (seg raw (length raw - 98) (length raw - 72))"
    using len by (simp add: go_slice_def nat_diff_distrib)
  show ?thesis
    using VerifyPacketSignature_cases
      [of ed db 100 "seg raw (length raw - 98) (length raw - 72)" "sig_Raw (pc_Signature b)"] len
    by (auto simp: s1 [simplified] body_verdict_def body_outcome_def submit_intent_def StatusUnauthorized_def)
qed

lemma handle_dispatch:
  assumes "decode_frame raw = Some (snlp, c, bs, Dispatch122 d)" and "int (length raw) < 2 ^ 63"
  shows "handlePayloadBody ed eth db enq (Dispatch122 d) raw (int (length raw)) snlp q ctx =
    Ok (body_outcome eth db enq (body_verdict ed db raw (Dispatch122 d)) q ctx)"
proof -
  note parts = decode_frame_body [OF assms(1)]
  have d: "length bs = 122" "d = decode_dispatch bs"
    using decode_body_length(3) [OF parts(1)] parts(2) by simp_all
  then have ne: "bs \<noteq> []" by auto
  have m: "le_word (take 1 bs) = hd bs"
    using ne by (cases bs) (simp_all add: le_word_byte)
  show ?thesis
    using frame_magic [OF assms(1) ne] crc_gate_simp [OF assms(2)]
    by (auto simp: d(2) decode_dispatch_def Let_def m [simplified] body_verdict_def body_outcome_def submit_intent_def
        magicPacketD_def magicPacketAck_def PacketDCrcOffsetFromEnd_def PacketAckCrcOffsetFromEnd_def if_crc_def
        StatusBadRequest_def)
qed

lemma handle_ack_ccsds:
  assumes "decode_frame raw = Some (snlp, c, bs, PacketAckBodyCcsds b)" and "int (length raw) < 2 ^ 63"
  shows "handlePayloadBody ed eth db enq (PacketAckBodyCcsds b) raw (int (length raw)) snlp q ctx =
    Ok (body_outcome eth db enq (body_verdict ed db raw (PacketAckBodyCcsds b)) q ctx)"
proof -
  have d: "take 1 bs = [172]"
    using decode_body_length(4) [OF decode_frame_body(1) [OF assms(1)]] by simp
  then have "bs \<noteq> []" "hd bs = 172" by (cases bs; simp)+
  then show ?thesis
    using frame_magic [OF assms(1)] crc_gate_simp [OF assms(2)]
    by (auto simp: Let_def body_verdict_def body_outcome_def submit_intent_def
        magicPacketAck_def PacketAckCrcOffsetFromEnd_def if_crc_def StatusBadRequest_def)
qed

lemma handle_body:
  assumes "decode_frame raw = Some (snlp, c, bs, b)" and "int (length raw) < 2 ^ 63"
  shows "handlePayloadBody ed eth db enq b raw (int (length raw)) snlp q ctx =
    Ok (body_outcome eth db enq (body_verdict ed db raw b) q ctx)"
  using assms
  by (cases b) (simp_all only: handle_packet_b handle_packet_c handle_dispatch handle_ack_ccsds,
      simp_all add: body_verdict_def body_outcome_def submit_intent_def)

text \<open>The decision on a request, and the context and queue it leaves.\<close>

definition frame_verdict :: "ed25519_lib \<Rightarrow> registry \<Rightarrow> byte list \<Rightarrow> verdict" where
  "frame_verdict ed db raw =
     (if raw = [] then Rejected 400 ''Missing binary payload''
      else case decode_frame raw of
          None \<Rightarrow> Rejected 400 ''Invalid Void Protocol Frame''
        | Some (snlp, c, bs, b) \<Rightarrow>
            if drop_bit 13 (VersionTypeFlagApid c) AND 7 \<noteq> 0
            then Rejected 400 ''Unknown CCSDS version: only Version 1 accepted''
            else body_verdict ed db raw b)"

definition accept_reply :: "byte list \<Rightarrow> nat \<times> reply" where
  "accept_reply raw =
     (case decode_frame raw of
        Some (snlp, c, bs, b) \<Rightarrow> (200, AcceptedReply (uint (VersionTypeFlagApid c AND 2047))
          (if snlp then ''Community (SNLP)'' else ''Enterprise (CCSDS)''))
      | None \<Rightarrow> (200, AcceptedReply 0 ''''))"

definition ingest_outcome ::
    "ed25519_lib \<Rightarrow> eth_lib \<Rightarrow> registry \<Rightarrow> (settlement_intent \<Rightarrow> 'q \<Rightarrow> 'q) \<Rightarrow> byte list \<Rightarrow> 'q option \<Rightarrow>
     'q option \<times> gin_context" where
  "ingest_outcome ed eth db enq raw q =
     (case frame_verdict ed db raw of
        Unsupported \<Rightarrow> (q, \<lparr>responses = [(400, ErrorReply ''Unsupported or truncated Void Protocol frame'')], aborted = True\<rparr>)
      | Rejected code msg \<Rightarrow> (q, \<lparr>responses = [(code, ErrorReply msg)], aborted = True\<rparr>)
      | Accepted ob \<Rightarrow> (submit_intent eth db enq ob q, \<lparr>responses = [accept_reply raw], aborted = False\<rparr>))"

lemma header_getters:
  fixes m :: u32 and bs :: "byte list" and b :: void_body
  assumes "memo_ok c"
  defines "obj \<equiv> parsed_object m c bs b" and "snlp \<equiv> (m = 486647205)"
  shows "\<exists>obj' obj''. GlobalApid k (obj, s) = Ok (uint (VersionTypeFlagApid c AND 2047), (obj', s)) \<and>
    IsSnlp k (obj', s) = Ok (snlp, (obj', s)) \<and>
    header_call snlp Version (obj', s) = Ok (uint (drop_bit 13 (VersionTypeFlagApid c) AND 7), (obj'', s)) \<and>
    Body obj'' = b"
proof -
  let ?ws = "wire_words c"
  obtain obj' where o: "GlobalApid k (obj, s) = Ok (words_apid ?ws, (obj', s))" "object_at ?ws obj'"
    "object_data obj' = object_data obj"
    using global_apid.acc_Ok [OF parsed_object_at [OF assms(1), of m bs b], of k s] unfolding obj_def by blast
  have d: "m_isSnlp obj' = snlp" "Body obj' = b"
    using o(3) by (simp_all add: object_data_def obj_def snlp_def)
  obtain c' where c': "RoutingHeader obj' = header_object snlp c'" "memo_ok c'" "wire_words c' = ?ws"
    using o(2) d(1) by (auto simp: object_at_def)
  obtain c'' where "header_call snlp Version (obj', s)
      = Ok (uint (drop_bit 13 (VersionTypeFlagApid c) AND 7), (obj'\<lparr>RoutingHeader := header_object snlp c''\<rparr>, s))"
    using header_call_memo [OF version_nr.memo_accessor_axioms c'(1,2), of s] c'(3) by (auto simp: wire_words_def)
  moreover have "IsSnlp k (obj', s) = Ok (snlp, (obj', s))"
    using IsSnlp_cached [of obj' k s] o(2) d(1) by (simp add: object_at_def)
  ultimately show ?thesis
    using o(1) d(2) by (auto simp: words_apid_def wire_words_def)
qed

lemma parsed_getters:
  assumes "kaitai_stream k view" and dec: "decode_frame raw = Some (snlp, c, bs, b)"
  obtains obj s obj' obj'' where "parse_frame k raw = Ok (obj, s)"
    "GlobalApid k (obj, s) = Ok (uint (VersionTypeFlagApid c AND 2047), (obj', s))" "IsSnlp k (obj', s) = Ok (snlp, (obj', s))"
    "header_call snlp Version (obj', s) = Ok (uint (drop_bit 13 (VersionTypeFlagApid c) AND 7), (obj'', s))" "Body obj'' = b"
proof -
  obtain s where p: "parse_frame k raw = Ok (parsed_object (be_word (take 4 raw)) c bs b, s)"
    and snlp: "snlp = (be_word (take 4 raw) = (486647205 :: u32))"
    using parse_frame_of_decode [OF assms(1) dec] by blast
  have mo: "memo_ok c" using frame_header_words decode_frame_parts [OF dec] by blast
  from header_getters [OF mo, where m = "be_word (take 4 raw)" and bs = bs and b = b and k = k and s = s, folded snlp]
  show thesis using p that by blast
qed

lemma IngestPacket_outcome:
  assumes "kaitai_stream k view" and "int (length raw) < 2 ^ 63"
  shows "IngestPacket k ed eth db enq (Inr raw) q NewContext = Ok (ingest_outcome ed eth db enq raw q)"
proof (cases "raw = []")
  case True
  then show ?thesis by (simp add: IngestPacket_def ingest_outcome_def frame_verdict_def gin_simps)
next
  case nonempty: False
  show ?thesis
  proof (cases "decode_frame raw")
    case None
    then obtain e where "parse_frame k raw = Err e"
      using kaitai_stream.parse_frame_spec [OF assms(1), of raw] by auto
    with None nonempty show ?thesis
      by (simp add: IngestPacket_def ingest_outcome_def frame_verdict_def gin_simps)
  next
    case (Some res)
    obtain snlp c bs b where dec: "decode_frame raw = Some (snlp, c, bs, b)"
      using Some by (cases res) auto
    obtain obj s obj' obj'' where p: "parse_frame k raw = Ok (obj, s)" and g:
      "GlobalApid k (obj, s) = Ok (uint (VersionTypeFlagApid c AND 2047), (obj', s))" "IsSnlp k (obj', s) = Ok (snlp, (obj', s))"
      "header_call snlp Version (obj', s) = Ok (uint (drop_bit 13 (VersionTypeFlagApid c) AND 7), (obj'', s))" "Body obj'' = b"
      using parsed_getters [OF assms(1) dec] .
    let ?ctx = "\<lparr>responses = [], aborted = False\<rparr>"
    note hb = handle_body [OF dec assms(2), of ed eth db enq q ?ctx]
    show ?thesis
    proof (cases "drop_bit 13 (VersionTypeFlagApid c) AND 7 = 0")
      case False
      then have "uint (drop_bit 13 (VersionTypeFlagApid c) AND 7) \<noteq> 0" by (simp add: uint_0_iff)
      with False nonempty p g dec show ?thesis
        by (simp add: IngestPacket_def ingest_outcome_def frame_verdict_def gin_simps or_zero_def)
    next
      case True
      with nonempty p g dec hb show ?thesis
        by (auto simp: IngestPacket_def ingest_outcome_def frame_verdict_def gin_simps or_zero_def body_outcome_def
            accept_reply_def split: verdict.splits)
    qed
  qed
qed

section \<open>Properties\<close>

lemma ingest_outcome_codes:
  "\<exists>code r. responses (snd (ingest_outcome ed eth db enq raw q)) = [(code, r)] \<and> code \<in> {200, 400, 401} \<and>
     (code = 200 \<longleftrightarrow> \<not> aborted (snd (ingest_outcome ed eth db enq raw q))) \<and>
     (code \<noteq> 200 \<longrightarrow> fst (ingest_outcome ed eth db enq raw q) = q)"
proof -
  have codes: "frame_verdict ed db raw = Rejected code msg \<Longrightarrow> code = 400 \<or> code = 401" for code msg
    by (auto simp: frame_verdict_def body_verdict_def if_crc_def split: if_splits option.splits void_body.splits
        dispatch_content.splits)
  have "fst (accept_reply raw) = 200"
    by (auto simp: accept_reply_def split: option.splits)
  then obtain r where "accept_reply raw = (200, r)" by (cases "accept_reply raw") auto
  then show ?thesis
    using codes by (auto simp: ingest_outcome_def split: verdict.splits)
qed

text \<open>
  C9.  The ingest handler decides as specified.  On every request body a Go slice can hold, for every
  registry, signature scheme and submitter, \<^verbatim>\<open>IngestPacket\<close> returns without a panic and writes exactly
  one response: the rejection that the abstract verdict on the frame names, with the abort flag set
  and the submitter untouched, or the acceptance with the application id and tier of the frame, after
  handing the intent of a verified PacketB, and nothing else, to the submitter.  In particular the
  branches for short frames and for a magic byte that contradicts the parsed body are never taken.
\<close>

theorem IngestPacket_implements_verdict:
  assumes "kaitai_stream k view" and "int (length raw) < 2 ^ 63"
  shows "IngestPacket k ed eth db enq (Inr raw) q NewContext = Ok (ingest_outcome ed eth db enq raw q) \<and>
    (\<exists>code r. responses (snd (ingest_outcome ed eth db enq raw q)) = [(code, r)] \<and> code \<in> {200, 400, 401} \<and>
       (code = 200 \<longleftrightarrow> \<not> aborted (snd (ingest_outcome ed eth db enq raw q))) \<and>
       (code \<noteq> 200 \<longrightarrow> fst (ingest_outcome ed eth db enq raw q) = q))"
  using IngestPacket_outcome [OF assms] ingest_outcome_codes by blast

lemma demo_heartbeat_verdict: "frame_verdict demo_ed Map.empty demo_heartbeat = Accepted None"
proof -
  have "demo_heartbeat \<noteq> []" by (simp add: demo_heartbeat_def)
  then show ?thesis by (simp add: frame_verdict_def demo_heartbeat_decodes body_verdict_def)
qed

theorem IngestPacket_implements_verdict_witness:
  "IngestPacket bytes_rt demo_ed demo_eth Map.empty (#) (Inr demo_heartbeat) (Some []) NewContext
     = Ok (Some [], \<lparr>responses = [(200, AcceptedReply 123 ''Enterprise (CCSDS)'')], aborted = False\<rparr>)"
proof -
  have "int (length demo_heartbeat) < 2 ^ 63" by (simp add: demo_heartbeat_def)
  from IngestPacket_implements_verdict [OF bytes_stream.kaitai_stream_axioms this, of demo_ed demo_eth Map.empty "(#)" "Some []"]
  show ?thesis
    by (simp add: ingest_outcome_def demo_heartbeat_verdict submit_intent_def accept_reply_def demo_heartbeat_decodes)
qed

text \<open>
  When a frame makes the gateway settle an intent: the registered key of the satellite it names
  verifies the signature in it, and the intent is read from the signed bytes and the registry.
\<close>

definition settles :: "ed25519_lib \<Rightarrow> eth_lib \<Rightarrow> registry \<Rightarrow> byte list \<Rightarrow> settlement_intent \<Rightarrow> bool" where
  "settles ed eth db raw i \<longleftrightarrow> (\<exists>h pub satRec. h \<in> {6, 14} \<and> h + 106 \<le> length raw - 72 \<and>
     registered_key db (in_SatId i) = Some pub \<and>
     Verify ed pub (take (length raw - 72) raw) (seg raw (h + 106) (h + 170)) \<and>
     db (in_SatId i) = Some satRec \<and> rec_Wallet satRec \<noteq> '''' \<and> in_Wallet i = HexToAddress eth (rec_Wallet satRec) \<and>
     in_SatId i = le_word (seg raw (h + 98) (h + 102)) \<and>
     in_Amount i = unat (le_word (seg raw (h + 82) (h + 90)) :: u64) \<and>
     in_AssetId i = le_word (seg raw (h + 90) (h + 92)) \<and>
     in_TxNonce i = DeriveTxNonce (in_SatId i) (le_word (seg raw (h + 2) (h + 10))))"

lemma payment_bytes:
  assumes "b = decode_PacketBBody (seg raw h (h + 178))"
  shows "sig_Raw (pb_Signature b) = seg raw (h + 106) (h + 170)"
    and "pb_SatId b = le_word (seg raw (h + 98) (h + 102))" and "pb_EpochTs b = le_word (seg raw (h + 2) (h + 10))"
    and "seg (pb_EncPayload b) 48 56 = seg raw (h + 82) (h + 90)"
    and "seg (pb_EncPayload b) 56 58 = seg raw (h + 90) (h + 92)"
  by (simp_all add: assms decode_PacketBBody_def seg_seg add.commute)

lemma ingest_enqueues:
  assumes "kaitai_stream k view" and "int (length raw) < 2 ^ 63"
    and "IngestPacket k ed eth db enq (Inr raw) (Some q) NewContext = Ok (oq, ctx)" and "oq \<noteq> Some q"
  shows "\<exists>i. oq = Some (enq i q) \<and> map fst (responses ctx) = [200] \<and> settles ed eth db raw i"
proof -
  have out: "(oq, ctx) = ingest_outcome ed eth db enq raw (Some q)"
    using IngestPacket_outcome [OF assms(1,2), of ed eth db enq "Some q"] assms(3) by simp
  then obtain b i where acc: "frame_verdict ed db raw = Accepted (Some b)" and i: "intent_of eth db b = Some i"
    and oq: "oq = Some (enq i q)" and ctx: "responses ctx = [accept_reply raw]"
    using assms(4) by (auto simp: ingest_outcome_def submit_intent_def split: verdict.splits option.splits)
  obtain snlp c bs where dec: "decode_frame raw = Some (snlp, c, bs, PacketBBody b)"
    and sg: "signature_ok ed db (pb_SatId b) (take (length raw - 72) raw) (sig_Raw (pb_Signature b))"
    using acc by (auto simp: frame_verdict_def body_verdict_def if_crc_def split: if_splits option.splits void_body.splits
        dispatch_content.splits)
  note parts = decode_frame_body [OF dec]
  let ?h = "header_len snlp"
  have n: "body_len c = 178" and b: "b = decode_PacketBBody bs"
    using decode_body_length(1) [OF parts(1)] by auto
  have "bs = seg raw ?h (?h + 178)" using decode_frame_parts [OF dec] n by metis
  note bytes = payment_bytes [OF b [unfolded this]]
  obtain pub where key: "registered_key db (pb_SatId b) = Some pub"
    "Verify ed pub (take (length raw - 72) raw) (sig_Raw (pb_Signature b))"
    using sg by (auto simp: signature_ok_def split: option.splits)
  obtain satRec where rec: "db (pb_SatId b) = Some satRec" "rec_Wallet satRec \<noteq> ''''"
    and fields: "in_SatId i = pb_SatId b" "in_Amount i = unat (le_word (seg (pb_EncPayload b) 48 56) :: u64)"
      "in_AssetId i = le_word (seg (pb_EncPayload b) 56 58)"
      "in_TxNonce i = DeriveTxNonce (pb_SatId b) (pb_EpochTs b)" "in_Wallet i = HexToAddress eth (rec_Wallet satRec)"
    using i by (auto simp: intent_of_def split: option.splits if_splits)
  have code: "map fst (responses ctx) = [200]"
    using ctx by (auto simp: accept_reply_def split: option.splits)
  have "settles ed eth db raw i"
    unfolding settles_def
  proof (intro exI conjI)
    show "?h \<in> {6, 14}" by (simp add: header_len_def)
    show "?h + 106 \<le> length raw - 72" using parts(3) n by simp
    show "registered_key db (in_SatId i) = Some pub" "db (in_SatId i) = Some satRec" using key rec fields by simp_all
    show "Verify ed pub (take (length raw - 72) raw) (seg raw (?h + 106) (?h + 170))"
      by (rule key(2) [unfolded bytes(1)])
    show "in_SatId i = le_word (seg raw (?h + 98) (?h + 102))" by (simp only: fields bytes(2))
    show "in_Amount i = unat (le_word (seg raw (?h + 82) (?h + 90)) :: u64)" by (simp only: fields bytes(4))
    show "in_AssetId i = le_word (seg raw (?h + 90) (?h + 92))" by (simp only: fields bytes(5))
    show "in_TxNonce i = DeriveTxNonce (in_SatId i) (le_word (seg raw (?h + 2) (?h + 10)))"
      by (simp only: fields bytes(3))
  qed (use rec fields in simp_all)
  with oq code show ?thesis by (intro exI [of _ i] conjI)
qed

text \<open>
  C3.  Nothing unsigned is settled.  If a request changes the submitter's queue, then the frame is a
  PacketB, the key registered for the satellite it names verifies the signature it carries over the
  frame up to 72 bytes before its end, the queue has received exactly one intent, the wallet is the
  registered one, and the satellite, amount, asset and nonce of the intent are read from bytes that
  lie inside the signed part.  The response is then 200.
\<close>

theorem only_signed_intents_are_enqueued:
  assumes "kaitai_stream k view" and "int (length raw) < 2 ^ 63"
    and "IngestPacket k ed eth db enq (Inr raw) (Some q) NewContext = Ok (oq, ctx)" and "oq \<noteq> Some q"
  shows "\<exists>i. oq = Some (enq i q) \<and> map fst (responses ctx) = [200] \<and>
    (\<exists>h pub satRec. h \<in> {6, 14} \<and> h + 106 \<le> length raw - 72 \<and>
     registered_key db (in_SatId i) = Some pub \<and>
     Verify ed pub (take (length raw - 72) raw) (seg raw (h + 106) (h + 170)) \<and>
     db (in_SatId i) = Some satRec \<and> rec_Wallet satRec \<noteq> '''' \<and> in_Wallet i = HexToAddress eth (rec_Wallet satRec) \<and>
     in_SatId i = le_word (seg raw (h + 98) (h + 102)) \<and>
     in_Amount i = unat (le_word (seg raw (h + 82) (h + 90)) :: u64) \<and>
     in_AssetId i = le_word (seg raw (h + 90) (h + 92)) \<and>
     in_TxNonce i = DeriveTxNonce (in_SatId i) (le_word (seg raw (h + 2) (h + 10))))"
  by (rule ingest_enqueues [OF assms, unfolded settles_def])

text \<open>Facts for concrete runs: a registry with one key, and a payment signed for it.\<close>

definition demo_pub :: "byte list" where
  "demo_pub = replicate 32 9"

definition demo_db :: registry where
  "demo_db = [FlatSatDemoSatID \<mapsto> \<lparr>rec_SatID = FlatSatDemoSatID, PubKeyHex = EncodeToString demo_pub,
     rec_Wallet = FlatSatDemoWallet, Role = ''Seller''\<rparr>]"

definition demo_payment :: "byte list \<Rightarrow> packet_b_body" where
  "demo_payment sig = \<lparr>pb_PadHead = [0, 0], pb_EpochTs = 77, pb_PosVec = decode_vector3d (replicate 24 0),
     pb_EncPayload = replicate 48 0 @ le_bytes 8 (500 :: u64) @ le_bytes 2 (1 :: u16) @ replicate 4 0,
     pb_PreSat = [0, 0], pb_SatId = FlatSatDemoSatID, pb_PreSig = [0, 0, 0, 0],
     pb_Signature = \<lparr>sig_Raw = sig\<rparr>, pb_GlobalCrc = 0, pb_TailPad = [0, 0, 0, 0]\<rparr>"

definition demo_payment_frame :: "byte list \<Rightarrow> byte list" where
  "demo_payment_frame sig = frame_bytes True 2171 49153 (encode_PacketBBody (demo_payment sig))"

definition demo_payment_sig :: "byte list" where
  "demo_payment_sig = demo_sign demo_pub (take 120 (demo_payment_frame (replicate 64 0)))"

lemma demo_payment_fits: "length sig = 64 \<Longrightarrow> fits_PacketBBody (demo_payment sig)"
  by (simp add: fits_PacketBBody_def demo_payment_def)

lemma demo_registered: "registered_key demo_db FlatSatDemoSatID = Some demo_pub"
  by (simp add: registered_key_def demo_db_def DecodeString_EncodeToString demo_pub_def PublicKeySize_def)

lemma length_encode_vector3d: "length (encode_vector3d v) = 24"
  by (simp add: encode_vector3d_def)

lemma demo_payment_scope:
  "length sig = 64 \<Longrightarrow> take 120 (demo_payment_frame sig) = take 120 (demo_payment_frame (replicate 64 0))"
  by (simp add: demo_payment_frame_def frame_bytes_def encode_PacketBBody_def demo_payment_def length_encode_vector3d)

lemma length_demo_payment_sig: "length demo_payment_sig = 64"
  by (simp add: demo_payment_sig_def demo_sign_def demo_pub_def)

lemma demo_payment_facts:
  "tier_ok True 2171 49153" "fits_PacketBBody (demo_payment demo_payment_sig)" "drop_bit 13 (2171 :: u16) AND 7 = 0"
  "registered_key demo_db (pb_SatId (demo_payment demo_payment_sig)) = Some demo_pub"
  "Verify demo_ed demo_pub (take (header_len True + PacketBSigScopeBody)
     (frame_bytes True 2171 49153 (encode_PacketBBody (demo_payment demo_payment_sig))))
     (sig_Raw (pb_Signature (demo_payment demo_payment_sig)))"
proof -
  show "tier_ok True 2171 49153" by (simp add: tier_ok_def)
  show "fits_PacketBBody (demo_payment demo_payment_sig)"
    by (rule demo_payment_fits [OF length_demo_payment_sig])
  show "drop_bit 13 (2171 :: u16) AND 7 = 0" by code_simp
  show "registered_key demo_db (pb_SatId (demo_payment demo_payment_sig)) = Some demo_pub"
    using demo_registered by (simp add: demo_payment_def)
  have "take 120 (demo_payment_frame demo_payment_sig) = take 120 (demo_payment_frame (replicate 64 0))"
    by (rule demo_payment_scope [OF length_demo_payment_sig])
  then show "Verify demo_ed demo_pub (take (header_len True + PacketBSigScopeBody)
     (frame_bytes True 2171 49153 (encode_PacketBBody (demo_payment demo_payment_sig))))
     (sig_Raw (pb_Signature (demo_payment demo_payment_sig)))"
    by (simp add: demo_ed_def header_len_def PacketBSigScopeBody_def demo_payment_frame_def)
      (simp add: demo_payment_def demo_payment_sig_def demo_payment_frame_def)
qed

lemma signed_payment_run:
  fixes b :: packet_b_body and snlp :: bool and v w :: u16
  defines "raw \<equiv> frame_bytes snlp v w (encode_PacketBBody b)"
  assumes "kaitai_stream k view" and "tier_ok snlp v w" and "fits_PacketBBody b" and "drop_bit 13 v AND 7 = 0"
    and "registered_key db (pb_SatId b) = Some pub"
    and "Verify ed pub (take (header_len snlp + PacketBSigScopeBody) raw) (sig_Raw (pb_Signature b))"
    and "db (pb_SatId b) = Some satRec" and "rec_Wallet satRec \<noteq> ''''"
  shows "IngestPacket k ed eth db enq (Inr raw) (Some q) NewContext =
    Ok (Some (enq \<lparr>in_SatId = pb_SatId b, in_Amount = unat (le_word (seg (pb_EncPayload b) 48 56) :: u64),
          in_AssetId = le_word (seg (pb_EncPayload b) 56 58),
          in_TxNonce = DeriveTxNonce (pb_SatId b) (pb_EpochTs b),
          in_Wallet = HexToAddress eth (rec_Wallet satRec)\<rparr> q),
        \<lparr>responses = [(200, AcceptedReply (uint (v AND 2047))
          (if snlp then ''Community (SNLP)'' else ''Enterprise (CCSDS)''))], aborted = False\<rparr>)"
proof -
  have len: "length (encode_PacketBBody b) = 178"
    using packet_b_body_layout.length_enc [OF assms(4)] .
  have dec: "decode_frame raw = Some (snlp, frame_words v w (encode_PacketBBody b), encode_PacketBBody b, PacketBBody b)"
    using decode_frame_frame_bytes [OF assms(3), of "encode_PacketBBody b"] len
      packet_b_body_layout.dec_enc [OF assms(4)]
    by (simp add: raw_def decode_body_def)
  have lr: "length raw = header_len snlp + 178" by (simp add: raw_def len)
  then have "raw \<noteq> []" and sz: "int (length raw) < 2 ^ 63" by (auto simp: header_len_def)
  have "take (length raw - 72) raw = take (header_len snlp + PacketBSigScopeBody) raw"
    by (simp add: lr PacketBSigScopeBody_def add.commute)
  then have "frame_verdict ed db raw = Accepted (Some b)"
    using assms(5-7) \<open>raw \<noteq> []\<close>
    by (simp add: frame_verdict_def dec frame_words_def body_verdict_def signature_ok_def)
  then show ?thesis
    using IngestPacket_outcome [OF assms(2) sz, of ed eth db enq "Some q"] assms(8,9)
    by (simp add: ingest_outcome_def submit_intent_def intent_of_def accept_reply_def dec frame_words_def)
qed

lemma demo_payment_record:
  "demo_db (pb_SatId (demo_payment demo_payment_sig)) = Some \<lparr>rec_SatID = FlatSatDemoSatID,
      PubKeyHex = EncodeToString demo_pub, rec_Wallet = FlatSatDemoWallet, Role = ''Seller''\<rparr>"
  "rec_Wallet \<lparr>rec_SatID = FlatSatDemoSatID, PubKeyHex = EncodeToString demo_pub,
      rec_Wallet = FlatSatDemoWallet, Role = ''Seller''\<rparr> \<noteq> ''''"
  by (simp_all add: demo_db_def demo_payment_def FlatSatDemoWallet_def)

lemma demo_payment_run:
  "\<exists>i. IngestPacket bytes_rt demo_ed demo_eth demo_db (#) (Inr (demo_payment_frame demo_payment_sig)) (Some []) NewContext =
     Ok (Some [i], \<lparr>responses = [(200, AcceptedReply 123 ''Community (SNLP)'')], aborted = False\<rparr>) \<and> in_SatId i = FlatSatDemoSatID"
proof -
  show ?thesis
    using signed_payment_run [OF bytes_stream.kaitai_stream_axioms demo_payment_facts demo_payment_record, of demo_eth "(#)" "[]"]
    by (simp add: demo_payment_frame_def) (simp add: demo_payment_def)
qed

text \<open>
  A correctly signed payment is settled.  A PacketB frame of either tier with CCSDS version 0,
  whose signature verifies under the registered key over the header and the first 106 body bytes,
  for a satellite with a wallet, is answered with 200 and its application id and tier, and exactly
  one intent reaches the submitter: with the satellite, amount, asset and timestamp of the payment and
  the registered wallet.
\<close>

lemma signed_payment_is_enqueued:
  assumes "raw = frame_bytes snlp v w (encode_PacketBBody b)"
    and "kaitai_stream k view" and "tier_ok snlp v w" and "fits_PacketBBody b" and "drop_bit 13 v AND 7 = 0"
    and "registered_key db (pb_SatId b) = Some pub"
    and "Verify ed pub (take (header_len snlp + PacketBSigScopeBody) raw) (sig_Raw (pb_Signature b))"
    and "db (pb_SatId b) = Some satRec" and "rec_Wallet satRec \<noteq> ''''"
  shows "IngestPacket k ed eth db enq (Inr raw) (Some q) NewContext =
    Ok (Some (enq \<lparr>in_SatId = pb_SatId b, in_Amount = unat (le_word (seg (pb_EncPayload b) 48 56) :: u64),
          in_AssetId = le_word (seg (pb_EncPayload b) 56 58),
          in_TxNonce = DeriveTxNonce (pb_SatId b) (pb_EpochTs b),
          in_Wallet = HexToAddress eth (rec_Wallet satRec)\<rparr> q),
        \<lparr>responses = [(200, AcceptedReply (uint (v AND 2047))
          (if snlp then ''Community (SNLP)'' else ''Enterprise (CCSDS)''))], aborted = False\<rparr>)"
  using signed_payment_run [OF assms(2-6) assms(7) [unfolded assms(1)] assms(8,9)] unfolding assms(1) .

theorem only_signed_intents_are_enqueued_witness:
  "\<exists>i pub. IngestPacket bytes_rt demo_ed demo_eth demo_db (#) (Inr (demo_payment_frame demo_payment_sig)) (Some []) NewContext
      = Ok (Some [i], \<lparr>responses = [(200, AcceptedReply 123 ''Community (SNLP)'')], aborted = False\<rparr>) \<and>
     registered_key demo_db (in_SatId i) = Some pub"
proof -
  obtain i where run: "IngestPacket bytes_rt demo_ed demo_eth demo_db (#) (Inr (demo_payment_frame demo_payment_sig))
      (Some []) NewContext = Ok (Some [i], \<lparr>responses = [(200, AcceptedReply 123 ''Community (SNLP)'')], aborted = False\<rparr>)"
    using demo_payment_run by blast
  have "length (demo_payment_frame demo_payment_sig) = 192"
    using packet_b_body_layout.length_enc [OF demo_payment_facts(2)]
    by (simp add: demo_payment_frame_def header_len_def)
  then have sz: "int (length (demo_payment_frame demo_payment_sig)) < 2 ^ 63" by simp
  have "Some [i] \<noteq> Some []" by simp
  from only_signed_intents_are_enqueued [OF bytes_stream.kaitai_stream_axioms sz run this]
  obtain j pub where "Some [i] = Some [j]" "registered_key demo_db (in_SatId j) = Some pub" by blast
  with run show ?thesis by auto
qed

text \<open>The kinds of body whose frame carries a CRC the handler checks, with the field's distance from the end.\<close>

definition crc_kind :: "void_body \<Rightarrow> (nat \<times> string) option" where
  "crc_kind b =
     (case b of
        Dispatch122 d \<Rightarrow> (case Content d of
            Some (PacketDBody i) \<Rightarrow> Some (10, ''Packet D CRC mismatch (VOID-122)'')
          | Some (PacketAckBodySnlp i) \<Rightarrow> Some (4, ''Packet ACK CRC mismatch (VOID-122)'')
          | None \<Rightarrow> None)
      | PacketAckBodyCcsds i \<Rightarrow> Some (4, ''Packet ACK CRC mismatch (VOID-122)'')
      | _ \<Rightarrow> None)"

lemma crc_kind_verdict:
  "crc_kind b = Some (n, msg) \<Longrightarrow> 4 \<le> n \<and> body_verdict ed db raw b = if_crc (crc_ok raw (int n)) msg"
  by (auto simp: crc_kind_def body_verdict_def split: void_body.splits option.splits dispatch_content.splits)

lemma frame_header_prefix:
  assumes "frame_header raw = Some (snlp, c)" and "take (header_len snlp) raw' = take (header_len snlp) raw"
    and "length raw' = length raw"
  shows "frame_header raw' = Some (snlp, c)"
proof -
  have eq: "seg raw' lo hi = seg raw lo hi" "take hi raw' = take hi raw" if "hi \<le> header_len snlp" for lo hi
    using assms(2) that by (metis seg_take, metis take_take min_absorb1)
  have "header_len snlp \<ge> 6" by (simp add: header_len_def)
  then show ?thesis
    using assms(1,3) eq(2) [of 4] eq(1) [of 14 10] eq(1) [of 10 4] eq(1) [of 6 0]
    by (auto simp: frame_header_def header_len_def split: if_splits)
qed

lemma crc_kind_decode:
  assumes "decode_body n bs = Some b" and "crc_kind b = Some k" and "take 1 bs' = take 1 bs"
  shows "\<exists>b'. decode_body n bs' = Some b' \<and> crc_kind b' = Some k"
  using assms unfolding decode_body_def decode_dispatch_def crc_kind_def Let_def
  by (auto split: if_splits)

lemma crc_kind_frame:
  assumes "decode_frame raw = Some (snlp, c, bs, b)" and "crc_kind b = Some k"
    and "take (header_len snlp + 1) raw' = take (header_len snlp + 1) raw" and "length raw' = length raw"
  shows "\<exists>bs' b'. decode_frame raw' = Some (snlp, c, bs', b') \<and> crc_kind b' = Some k"
proof -
  let ?h = "header_len snlp" and ?n = "body_len c"
  let ?bs' = "seg raw' ?h (?h + ?n)"
  note parts = decode_frame_body [OF assms(1)]
  have bs: "bs = seg raw ?h (?h + ?n)" using decode_frame_parts [OF assms(1)] by metis
  have "take ?h raw' = take ?h raw"
    using assms(3) by (metis add_leD1 le_add1 min_absorb1 order_refl take_take)
  then have hdr: "frame_header raw' = Some (snlp, c)"
    using frame_header_prefix decode_frame_parts [OF assms(1)] assms(4) by metis
  have "0 < ?n"
    using parts(1) assms(2) by (auto simp: decode_body_def crc_kind_def split: if_splits)
  then have "take 1 ?bs' = seg raw' ?h (?h + 1)" "take 1 bs = seg raw ?h (?h + 1)"
    by (simp_all add: bs seg_def min_def)
  then have "take 1 ?bs' = take 1 bs"
    using assms(3) by (metis seg_take order_refl)
  then obtain b' where "decode_body ?n ?bs' = Some b'" "crc_kind b' = Some k"
    using crc_kind_decode [OF parts(1) assms(2)] by blast
  then show ?thesis
    using hdr parts(3) assms(4) by (simp add: decode_frame_def Let_def)
qed

text \<open>
  C35.  Corrupted deliveries and acknowledgements are bounced.  Take a delivery or acknowledgement frame
  that the handler accepts, and garble up to four consecutive bytes anywhere behind the magic byte and
  up to the end of the CRC field.  The handler answers the garbled frame with 400 and the CRC error
  of its kind and leaves the submitter alone.  The bytes behind the CRC field, the six of a
  delivery's tail, are not covered by the checksum and not by this property.
\<close>

theorem corrupted_frame_is_rejected:
  assumes "kaitai_stream k view" and "int (length (pre @ good @ post)) < 2 ^ 63"
    and "decode_frame (pre @ good @ post) = Some (snlp, c, bs, b)" and "crc_kind b = Some (fromEnd, msg)"
    and "IngestPacket k ed eth db enq (Inr (pre @ good @ post)) q NewContext = Ok (q1, ctx)"
    and "map fst (responses ctx) = [200]"
    and "header_len snlp < length pre" and "length pre + length good + fromEnd \<le> length (pre @ good @ post) + 4"
    and "length bad = length good" and "length good \<le> 4" and "bad \<noteq> good"
  shows "IngestPacket k ed eth db enq (Inr (pre @ bad @ post)) q NewContext =
    Ok (q, \<lparr>responses = [(400, ErrorReply msg)], aborted = True\<rparr>)"
proof -
  let ?raw = "pre @ good @ post" and ?raw' = "pre @ bad @ post"
  have ne: "?raw \<noteq> []" "?raw' \<noteq> []" using assms(7) by auto
  obtain bs' b' where dec': "decode_frame ?raw' = Some (snlp, c, bs', b')" "crc_kind b' = Some (fromEnd, msg)"
    using crc_kind_frame [OF assms(3,4), of ?raw'] assms(7,9) by auto
  have acc: "\<exists>ob. frame_verdict ed db ?raw = Accepted ob"
    using IngestPacket_outcome [OF assms(1,2), of ed eth db enq q] assms(5,6)
    by (auto simp: ingest_outcome_def frame_verdict_def body_verdict_def if_crc_def split: verdict.splits if_splits option.splits
        void_body.splits dispatch_content.splits)
  then have ver: "drop_bit 13 (VersionTypeFlagApid c) AND 7 = 0" and ok: "crc_ok ?raw (int fromEnd)"
    using ne(1) crc_kind_verdict [OF assms(4), of ed db ?raw]
    by (auto simp: frame_verdict_def assms(3) if_crc_def split: if_splits)
  have "ValidateFrameCRC32 ?raw' (int (length ?raw') - int fromEnd) \<noteq> Ok ()"
    using ValidateFrameCRC32_burst [OF ok [unfolded crc_ok_def], of bad] assms(8-11) by auto
  then have "frame_verdict ed db ?raw' = Rejected 400 msg"
    using ne(2) crc_kind_verdict [OF dec'(2), of ed db ?raw'] ver
    by (auto simp: frame_verdict_def dec'(1) if_crc_def crc_ok_def)
  moreover have "int (length ?raw') < 2 ^ 63" using assms(2,9) by simp
  ultimately show ?thesis
    using IngestPacket_outcome [OF assms(1), of ?raw' ed eth db enq q] by (simp add: ingest_outcome_def)
qed

text \<open>A delivery frame for the witness: its bytes up to the CRC, the CRC, the tail.\<close>

definition demo_delivery_data :: "byte list" where
  "demo_delivery_data = be_bytes 2 (2171 :: u16) @ be_bytes 2 (49153 :: u16) @ be_bytes 2 (121 :: u16) @ 208 # replicate 111 0"

definition demo_delivery :: "byte list" where
  "demo_delivery = demo_delivery_data @ le_bytes 4 (ChecksumIEEE demo_delivery_data) @ replicate 6 0"

lemma demo_delivery_facts:
  "length demo_delivery = 128"
  "\<exists>c bs d i. decode_frame demo_delivery = Some (False, c, bs, Dispatch122 d) \<and> Content d = Some (PacketDBody i) \<and>
     drop_bit 13 (VersionTypeFlagApid c) AND 7 = 0"
  "crc_ok demo_delivery 10"
proof -
  have ld: "length demo_delivery_data = 118" by (simp add: demo_delivery_data_def)
  then show len: "length demo_delivery = 128" by (simp add: demo_delivery_def)
  let ?body = "208 # replicate 111 0 @ le_bytes 4 (ChecksumIEEE demo_delivery_data) @ replicate 6 0"
  have fr: "demo_delivery = frame_bytes False 2171 49153 ?body"
    by (simp add: demo_delivery_def frame_bytes_def length_word_def) (simp add: demo_delivery_data_def)
  have "be_bytes 2 (2171 :: u16) @ be_bytes 2 (49153 :: u16) = [8, 123, 192, 1]" by code_simp
  then have "tier_ok False 2171 49153" by (simp add: tier_ok_def)
  then have "decode_frame demo_delivery = Some (False, frame_words 2171 49153 ?body, ?body, Dispatch122 (decode_dispatch ?body))"
    unfolding fr by (subst decode_frame_frame_bytes) (simp_all add: decode_body_def)
  moreover have "Content (decode_dispatch ?body) = Some (PacketDBody (decode_PacketDBody ?body))"
    by (simp add: decode_dispatch_def le_word_byte)
  moreover have "drop_bit 13 (2171 :: u16) AND 7 = 0" by code_simp
  ultimately show "\<exists>c bs d i. decode_frame demo_delivery = Some (False, c, bs, Dispatch122 d) \<and> Content d = Some (PacketDBody i) \<and>
     drop_bit 13 (VersionTypeFlagApid c) AND 7 = 0"
    by (simp add: frame_words_def)
  show "crc_ok demo_delivery 10"
    using ValidateFrameCRC32_self [of demo_delivery_data "replicate 6 0"] ld
    by (simp add: crc_ok_def demo_delivery_def)
qed

theorem corrupted_frame_is_rejected_witness:
  "IngestPacket bytes_rt demo_ed demo_eth demo_db (#) (Inr (take 20 demo_delivery @ [1, 2] @ drop 22 demo_delivery)) (Some []) NewContext
     = Ok (Some [], \<lparr>responses = [(400, ErrorReply ''Packet D CRC mismatch (VOID-122)'')], aborted = True\<rparr>)"
proof -
  obtain c bs d i where dec: "decode_frame demo_delivery = Some (False, c, bs, Dispatch122 d)"
    and d: "Content d = Some (PacketDBody i)" and ver: "drop_bit 13 (VersionTypeFlagApid c) AND 7 = 0"
    using demo_delivery_facts(2) by blast
  have kind: "crc_kind (Dispatch122 d) = Some (10, ''Packet D CRC mismatch (VOID-122)'')"
    by (simp add: crc_kind_def d)
  have split: "take 20 demo_delivery @ seg demo_delivery 20 22 @ drop 22 demo_delivery = demo_delivery"
    using seg_join [of 0 20 22 demo_delivery] by (simp add: seg_zero flip: append_assoc)
  have good: "seg demo_delivery 20 22 = [0, 0]"
    by (simp add: demo_delivery_def demo_delivery_data_def seg_def numeral_2_eq_2)
  have "frame_verdict demo_ed demo_db demo_delivery = Accepted None"
    using demo_delivery_facts(1,3) by (auto simp: frame_verdict_def dec ver body_verdict_def d if_crc_def)
  then have run: "IngestPacket bytes_rt demo_ed demo_eth demo_db (#) (Inr demo_delivery) (Some []) NewContext
      = Ok (Some [], \<lparr>responses = [accept_reply demo_delivery], aborted = False\<rparr>)"
    using IngestPacket_outcome [OF bytes_stream.kaitai_stream_axioms, of demo_delivery demo_ed demo_eth demo_db "(#)" "Some []"]
      demo_delivery_facts(1) by (simp add: ingest_outcome_def submit_intent_def)
  have "fst (accept_reply demo_delivery) = 200" by (simp add: accept_reply_def dec)
  then show ?thesis
    using corrupted_frame_is_rejected [OF bytes_stream.kaitai_stream_axioms, of "take 20 demo_delivery" "seg demo_delivery 20 22"
        "drop 22 demo_delivery", unfolded split, OF _ dec kind run _ _ _ _ _ , of "[1, 2]"]
      demo_delivery_facts(1) good by (simp add: header_len_def)
qed

section \<open>Trailing bytes\<close>

text \<open>The parser ignores bytes behind the body; the handler counts its offsets from the end of the request.\<close>

lemma frame_header_append: "frame_header raw = Some x \<Longrightarrow> frame_header (raw @ tail) = Some x"
  by (auto simp: frame_header_def seg_append_left split: if_splits)

lemma header_fits: "frame_header raw = Some (snlp, c) \<Longrightarrow> header_len snlp \<le> length raw"
  by (auto simp: frame_header_def header_len_def split: if_splits)

lemma decode_frame_append:
  assumes "decode_frame raw = Some (snlp, c, bs, b)"
  shows "decode_frame (raw @ tail) = Some (snlp, c, bs, b)"
proof -
  have hdr: "frame_header raw = Some (snlp, c)" and bs: "seg raw (header_len snlp) (header_len snlp + body_len c) = bs"
    using decode_frame_parts [OF assms] by metis+
  note parts = decode_frame_body [OF assms]
  show ?thesis
    using frame_header_append [OF hdr, of tail] parts(1,3) bs
    by (simp add: decode_frame_def Let_def seg_append_left)
qed

text \<open>
  C38.  The signature of a receipt does not bind the receipt.  Given any message of 26 bytes with a
  signature that the key registered for satellite 100 verifies, a frame whose receipt has any other
  26 bytes (execution time, transaction id, status) in front of that signature is accepted with 200
  when the signed message and 72 more bytes follow the frame: the handler checks the signature over
  bytes counted from the end of the request, while the receipt is the body at the front.
\<close>

theorem receipt_signature_misses_body:
  assumes "kaitai_stream k view" and "tier_ok snlp v w" and "drop_bit 13 v AND 7 = 0"
    and "registered_key db 100 = Some pub" and "length m = 26" and "length sig = 64" and "Verify ed pub m sig"
    and "length forged = 26" and "length rest = 8" and "length junk = 72"
  shows "let raw = frame_bytes snlp v w (forged @ sig @ rest) @ m @ junk in
    decode_frame raw = Some (snlp, frame_words v w (forged @ sig @ rest), forged @ sig @ rest,
      PacketCBody (decode_PacketCBody (forged @ sig @ rest))) \<and>
    IngestPacket k ed eth db enq (Inr raw) q NewContext = Ok (q, \<lparr>responses = [(200, AcceptedReply (uint (v AND 2047))
      (if snlp then ''Community (SNLP)'' else ''Enterprise (CCSDS)''))], aborted = False\<rparr>)"
proof -
  let ?body = "forged @ sig @ rest"
  let ?f = "frame_bytes snlp v w ?body"
  let ?raw = "?f @ m @ junk"
  have dec: "decode_frame ?raw = Some (snlp, frame_words v w ?body, ?body, PacketCBody (decode_PacketCBody ?body))"
    using decode_frame_frame_bytes [OF assms(2), of ?body] assms(6,8,9)
    by (intro decode_frame_append) (simp add: decode_body_def)
  have lf: "length ?f = header_len snlp + 98" using assms by simp
  have lr: "length ?raw = header_len snlp + 196" using lf assms by simp
  have "seg ?raw (length ?f) (length ?f + 26) = m"
    using assms(5) by (simp add: seg_def)
  then have msg: "seg ?raw (length ?raw - 98) (length ?raw - 72) = m"
    unfolding lr lf by (simp add: add.commute)
  have sg: "sig_Raw (pc_Signature (decode_PacketCBody ?body)) = sig"
    using assms(6,8) by (simp add: decode_PacketCBody_def seg_def)
  have "?raw \<noteq> []" using assms(5) by auto
  then have "frame_verdict ed db ?raw = Accepted None"
    using assms(3,4,7) msg
    by (simp add: frame_verdict_def dec frame_words_def body_verdict_def signature_ok_def sg)
  moreover have "int (length ?raw) < 2 ^ 63" unfolding lr by (simp add: header_len_def)
  ultimately have "IngestPacket k ed eth db enq (Inr ?raw) q NewContext
      = Ok (q, \<lparr>responses = [accept_reply ?raw], aborted = False\<rparr>)"
    using IngestPacket_outcome [OF assms(1), of ?raw ed eth db enq q] by (simp add: ingest_outcome_def submit_intent_def)
  moreover have "accept_reply ?raw = (200, AcceptedReply (uint (v AND 2047))
      (if snlp then ''Community (SNLP)'' else ''Enterprise (CCSDS)''))"
    unfolding accept_reply_def dec by (simp add: frame_words_def)
  ultimately show ?thesis unfolding Let_def dec by simp
qed

theorem receipt_signature_misses_body_witness:
  "let db = [100 \<mapsto> \<lparr>rec_SatID = 100, PubKeyHex = EncodeToString demo_pub, rec_Wallet = '''', Role = ''Seller''\<rparr>];
       m = replicate 26 1; forged = replicate 26 2; sig = demo_sign demo_pub m;
       raw = frame_bytes True 2171 49153 (forged @ sig @ replicate 8 0) @ m @ replicate 72 0
   in IngestPacket bytes_rt demo_ed demo_eth db (#) (Inr raw) (Some []) NewContext =
     Ok (Some [], \<lparr>responses = [(200, AcceptedReply 123 ''Community (SNLP)'')], aborted = False\<rparr>)"
proof -
  let ?db = "[100 \<mapsto> \<lparr>rec_SatID = 100, PubKeyHex = EncodeToString demo_pub, rec_Wallet = '''', Role = ''Seller''\<rparr>]"
  have reg: "registered_key ?db 100 = Some demo_pub"
    by (simp add: registered_key_def DecodeString_EncodeToString demo_pub_def PublicKeySize_def)
  have "length (demo_sign demo_pub (replicate 26 1)) = 64" by (simp add: demo_sign_def demo_pub_def)
  moreover have "Verify demo_ed demo_pub (replicate 26 1) (demo_sign demo_pub (replicate 26 1))" by (simp add: demo_ed_def)
  ultimately show ?thesis
    using receipt_signature_misses_body [OF bytes_stream.kaitai_stream_axioms demo_payment_facts(1,3) reg, of "replicate 26 1"
        "demo_sign demo_pub (replicate 26 1)" demo_ed "replicate 26 2" "replicate 8 0" "replicate 72 0" demo_eth "(#)" "Some []"]
    by (simp add: Let_def)
qed

end
