(* ===== verification/Submitter.thy ===== *)
theory Submitter
  imports Chain_Client "HOL-Library.Multiset"
begin

text \<open>
  \<^verbatim>\<open>core/chain/submitter.go\<close>: the buffered submitter.  Each critical section under the mutex is one
  function on the submitter record; \<^verbatim>\<open>submit\<close>, which runs outside the lock, is the retry loop against
  an arbitrary client.  On top, a step relation interleaves enqueues, flushes, timer expiries,
  timer callbacks (also stale ones), submissions and the shutdown of any number of goroutines.
\<close>

section \<open>Data\<close>

definition DefaultMaxBatch :: int where "DefaultMaxBatch = 10"
definition DefaultInterval :: int where "DefaultInterval = 5000000000"
definition submitRetries :: nat where "submitRetries = 2"

text \<open>The field \<^verbatim>\<open>timer\<close> is the pointer: set or nil.  Whether the timer has fired is the world's.\<close>

record buffered_submitter =
  maxBatch :: int
  interval :: int
  buf :: "settlement_intent list"
  timer :: bool
  closed :: bool

definition NewBufferedSubmitter :: "int \<Rightarrow> int \<Rightarrow> buffered_submitter" where
  "NewBufferedSubmitter mx iv = \<lparr>
     maxBatch = (if mx \<le> 0 then DefaultMaxBatch else mx),
     interval = (if iv \<le> 0 then DefaultInterval else iv),
     buf = [], timer = False, closed = False\<rparr>"

section \<open>Critical sections\<close>

definition stealLocked :: "buffered_submitter \<Rightarrow> settlement_intent list \<times> buffered_submitter" where
  "stealLocked s = (buf s, s\<lparr>buf := [], timer := False\<rparr>)"

text \<open>\<^verbatim>\<open>Enqueue\<close> up to the unlock: the batch to submit afterwards, if this entry filled it.\<close>

definition enqueue_locked ::
    "settlement_intent \<Rightarrow> buffered_submitter \<Rightarrow> settlement_intent list option \<times> buffered_submitter" where
  "enqueue_locked intent s =
     (if closed s then (None, s)
      else let s1 = s\<lparr>buf := buf s @ [intent]\<rparr>;
               s2 = (if length (buf s1) = 1 then s1\<lparr>timer := True\<rparr> else s1)
        in if int (length (buf s2)) < maxBatch s2 then (None, s2)
           else let (batch, s3) = stealLocked s2 in (Some batch, s3))"

definition flush_locked :: "buffered_submitter \<Rightarrow> settlement_intent list \<times> buffered_submitter" where
  "flush_locked s = (if closed s then ([], s) else stealLocked s)"

definition stop_locked :: "buffered_submitter \<Rightarrow> settlement_intent list \<times> buffered_submitter" where
  "stop_locked s = stealLocked (s\<lparr>closed := True\<rparr>)"

definition onTimer_locked :: "buffered_submitter \<Rightarrow> settlement_intent list \<times> buffered_submitter" where
  "onTimer_locked s = (if closed s \<or> buf s = [] then ([], s) else stealLocked s)"

section \<open>The retry loop\<close>

datatype 'e submit_event =
    SettleOk nat txhash nat
  | SettleFail nat nat 'e
  | SettleDrop nat

type_synonym ('e, 'w) intent_submitter = "settlement_intent list \<Rightarrow> 'w \<Rightarrow> ('e + txhash) \<times> 'w"

fun submit_from ::
    "('e, 'w) intent_submitter \<Rightarrow> settlement_intent list \<Rightarrow> nat \<Rightarrow> nat \<Rightarrow> 'w \<Rightarrow> 'e submit_event list \<times> 'w" where
  "submit_from client batch attempt 0 w = ([SettleDrop (length batch)], w)"
| "submit_from client batch attempt (Suc left) w =
     (case client batch w of
        (Inr h, w') \<Rightarrow> ([SettleOk (length batch) h attempt], w')
      | (Inl e, w') \<Rightarrow>
          (let (evs, w'') = submit_from client batch (Suc attempt) left w'
           in (SettleFail (length batch) attempt e # evs, w'')))"

definition submit ::
    "('e, 'w) intent_submitter \<Rightarrow> settlement_intent list \<Rightarrow> 'w \<Rightarrow> 'e submit_event list \<times> 'w" where
  "submit client batch w = (if batch = [] then ([], w) else submit_from client batch 1 submitRetries w)"

section \<open>The operations as one goroutine runs them\<close>

text \<open>The submitter with its client's world, the batches handed to \<^verbatim>\<open>submit\<close> and the log.\<close>

record ('e, 'w) submitter_world =
  sw_sub :: buffered_submitter
  sw_chain :: 'w
  sw_batches :: "settlement_intent list list"
  sw_log :: "'e submit_event list"

definition run_submit ::
    "('e, 'w) intent_submitter \<Rightarrow> settlement_intent list \<Rightarrow> ('e, 'w) submitter_world \<Rightarrow> ('e, 'w) submitter_world" where
  "run_submit client batch x =
     (if batch = [] then x
      else let (evs, w') = submit client batch (sw_chain x)
        in x\<lparr>sw_chain := w', sw_batches := sw_batches x @ [batch], sw_log := sw_log x @ evs\<rparr>)"

definition Enqueue ::
    "('e, 'w) intent_submitter \<Rightarrow> settlement_intent \<Rightarrow> ('e, 'w) submitter_world \<Rightarrow> ('e, 'w) submitter_world" where
  "Enqueue client intent x =
     (let (b, s) = enqueue_locked intent (sw_sub x); x' = x\<lparr>sw_sub := s\<rparr>
      in case b of None \<Rightarrow> x' | Some batch \<Rightarrow> run_submit client batch x')"

definition Flush ::
    "('e, 'w) intent_submitter \<Rightarrow> ('e, 'w) submitter_world \<Rightarrow> nat \<times> ('e, 'w) submitter_world" where
  "Flush client x =
     (let (batch, s) = flush_locked (sw_sub x); x' = x\<lparr>sw_sub := s\<rparr>
      in if batch = [] then (0, x') else (length batch, run_submit client batch x'))"

definition Stop :: "('e, 'w) intent_submitter \<Rightarrow> ('e, 'w) submitter_world \<Rightarrow> ('e, 'w) submitter_world" where
  "Stop client x = (let (batch, s) = stop_locked (sw_sub x) in run_submit client batch (x\<lparr>sw_sub := s\<rparr>))"

definition onTimer :: "('e, 'w) intent_submitter \<Rightarrow> ('e, 'w) submitter_world \<Rightarrow> ('e, 'w) submitter_world" where
  "onTimer client x = (let (batch, s) = onTimer_locked (sw_sub x) in run_submit client batch (x\<lparr>sw_sub := s\<rparr>))"

section \<open>The submitter's invariant\<close>

definition submitter_inv :: "buffered_submitter \<Rightarrow> bool" where
  "submitter_inv s \<longleftrightarrow> 0 < maxBatch s \<and> 0 < interval s \<and> int (length (buf s)) < maxBatch s \<and>
     (timer s \<longleftrightarrow> buf s \<noteq> []) \<and> (closed s \<longrightarrow> buf s = [])"

lemmas locked_defs = enqueue_locked_def flush_locked_def stop_locked_def onTimer_locked_def stealLocked_def

lemma submitter_inv_New: "submitter_inv (NewBufferedSubmitter mx iv)"
  by (simp add: submitter_inv_def NewBufferedSubmitter_def DefaultMaxBatch_def DefaultInterval_def)

lemma submitter_inv_locked:
  assumes "submitter_inv s"
  shows "submitter_inv (snd (enqueue_locked i s))" and "submitter_inv (snd (flush_locked s))"
    and "submitter_inv (snd (stop_locked s))" and "submitter_inv (snd (onTimer_locked s))"
  using assms by (auto simp: submitter_inv_def locked_defs Let_def)

text \<open>What leaves a critical section: never more than a batch, in arrival order, nothing lost.\<close>

lemma enqueue_locked_batch:
  assumes "submitter_inv s" and "enqueue_locked i s = (Some b, s')"
  shows "b = buf s @ [i] \<and> int (length b) = maxBatch s \<and> buf s' = [] \<and> \<not> closed s"
  using assms by (auto simp: submitter_inv_def locked_defs Let_def split: if_splits)

lemma enqueue_locked_keeps:
  assumes "enqueue_locked i s = (None, s')"
  shows "buf s' = buf s @ (if closed s then [] else [i])"
  using assms by (auto simp: locked_defs Let_def split: if_splits)

lemma locked_frame:
  "maxBatch (snd (enqueue_locked i s)) = maxBatch s" "closed (snd (enqueue_locked i s)) = closed s"
  by (auto simp: locked_defs Let_def)

section \<open>The enqueuer interface\<close>

text \<open>
  \<^verbatim>\<open>chain.Enqueuer\<close>, the one operation the ingest handler sees: while the queue is open an intent
  is accepted exactly once, behind everything accepted before it; afterwards it is ignored.
\<close>

locale enqueuer =
  fixes enq :: "'i \<Rightarrow> 's \<Rightarrow> 's" and accepted :: "'s \<Rightarrow> 'i list" and is_open :: "'s \<Rightarrow> bool"
    and ok :: "'s \<Rightarrow> bool"
  assumes accepted_enq: "ok s \<Longrightarrow> accepted (enq i s) = accepted s @ (if is_open s then [i] else [])"
    and open_enq: "ok s \<Longrightarrow> is_open (enq i s) = is_open s"
    and ok_enq: "ok s \<Longrightarrow> ok (enq i s)"
begin

lemma accepted_fold:
  "ok s \<Longrightarrow> accepted (fold enq xs s) = accepted s @ (if is_open s then xs else []) \<and> ok (fold enq xs s)"
  by (induction xs arbitrary: s) (simp_all add: accepted_enq open_enq ok_enq)

end

definition accepted_intents :: "('e, 'w) submitter_world \<Rightarrow> settlement_intent list" where
  "accepted_intents x = concat (sw_batches x) @ buf (sw_sub x)"

lemma run_submit_simps [simp]:
  "sw_sub (run_submit client b x) = sw_sub x"
  "sw_batches (run_submit client b x) = sw_batches x @ (if b = [] then [] else [b])"
  by (simp_all add: run_submit_def split_beta Let_def)

interpretation submitter_queue: enqueuer "Enqueue client" accepted_intents
    "\<lambda>x. \<not> closed (sw_sub x)" "\<lambda>x. submitter_inv (sw_sub x)"
  for client :: "('e, 'w) intent_submitter"
proof unfold_locales
  fix x :: "('e, 'w) submitter_world" and i
  assume inv: "submitter_inv (sw_sub x)"
  obtain b s where lk: "enqueue_locked i (sw_sub x) = (b, s)"
    by (cases "enqueue_locked i (sw_sub x)")
  have sub: "sw_sub (Enqueue client i x) = s"
    by (simp add: Enqueue_def lk Let_def split: option.split)
  show "submitter_inv (sw_sub (Enqueue client i x))"
    using submitter_inv_locked(1) [OF inv, of i] lk sub by simp
  show "(\<not> closed (sw_sub (Enqueue client i x))) = (\<not> closed (sw_sub x))"
    using locked_frame(2) [of i "sw_sub x"] lk sub by simp
  show "accepted_intents (Enqueue client i x)
      = accepted_intents x @ (if \<not> closed (sw_sub x) then [i] else [])"
  proof (cases b)
    case None
    with lk enqueue_locked_keeps [of i "sw_sub x" s] show ?thesis
      by (simp add: accepted_intents_def Enqueue_def)
  next
    case (Some batch)
    with lk enqueue_locked_batch [OF inv, of i batch s] show ?thesis
      by (simp add: accepted_intents_def Enqueue_def)
  qed
qed

section \<open>Goroutines\<close>

text \<open>
  The submitter among goroutines.  \<^verbatim>\<open>sy_armed\<close>: the timer behind the pointer is running;
  \<^verbatim>\<open>sy_fired\<close>: callbacks that have started and wait for the mutex, where a later \<^verbatim>\<open>Stop\<close> of the
  timer no longer reaches them; \<^verbatim>\<open>sy_inflight\<close>: batches stolen under the lock whose submission is
  running; \<^verbatim>\<open>sy_finished\<close>: batches with the log lines their submission left.  The last two fields
  are history: what was accepted, and what was stolen, in lock order.
\<close>

record 'e submitter_sys =
  sy_sub :: buffered_submitter
  sy_armed :: bool
  sy_fired :: nat
  sy_inflight :: "settlement_intent list multiset"
  sy_finished :: "(settlement_intent list \<times> 'e submit_event list) list"
  sy_accepted :: "settlement_intent list"
  sy_taken :: "settlement_intent list list"

definition take_batch :: "settlement_intent list \<Rightarrow> 'e submitter_sys \<Rightarrow> 'e submitter_sys" where
  "take_batch b x = (if b = [] then x
     else x\<lparr>sy_inflight := add_mset b (sy_inflight x), sy_taken := sy_taken x @ [b], sy_armed := False\<rparr>)"

definition start_sys :: "int \<Rightarrow> int \<Rightarrow> 'e submitter_sys" where
  "start_sys mx iv = \<lparr>sy_sub = NewBufferedSubmitter mx iv, sy_armed = False, sy_fired = 0,
     sy_inflight = {#}, sy_finished = [], sy_accepted = [], sy_taken = []\<rparr>"

inductive sys_step :: "('e, 'w) intent_submitter \<Rightarrow> 'e submitter_sys \<Rightarrow> 'e submitter_sys \<Rightarrow> bool"
  for client :: "('e, 'w) intent_submitter" where
  enqueue_ignored: "closed (sy_sub x) \<Longrightarrow> sys_step client x x"
| enqueue_kept: "\<not> closed (sy_sub x) \<Longrightarrow> enqueue_locked i (sy_sub x) = (None, s') \<Longrightarrow>
    sys_step client x (x\<lparr>sy_sub := s', sy_accepted := sy_accepted x @ [i],
      sy_armed := (if buf (sy_sub x) = [] then True else sy_armed x)\<rparr>)"
| enqueue_full: "\<not> closed (sy_sub x) \<Longrightarrow> enqueue_locked i (sy_sub x) = (Some b, s') \<Longrightarrow>
    sys_step client x (take_batch b (x\<lparr>sy_sub := s', sy_accepted := sy_accepted x @ [i]\<rparr>))"
| flush: "flush_locked (sy_sub x) = (b, s') \<Longrightarrow> sys_step client x (take_batch b (x\<lparr>sy_sub := s'\<rparr>))"
| stop: "stop_locked (sy_sub x) = (b, s') \<Longrightarrow>
    sys_step client x (take_batch b (x\<lparr>sy_sub := s', sy_armed := False\<rparr>))"
| timer_fires: "sy_armed x \<Longrightarrow> sys_step client x (x\<lparr>sy_armed := False, sy_fired := Suc (sy_fired x)\<rparr>)"
| on_timer: "sy_fired x = Suc n \<Longrightarrow> onTimer_locked (sy_sub x) = (b, s') \<Longrightarrow>
    sys_step client x (take_batch b (x\<lparr>sy_sub := s', sy_fired := n\<rparr>))"
| finish: "b \<in># sy_inflight x \<Longrightarrow> submit client b w = (evs, w') \<Longrightarrow>
    sys_step client x (x\<lparr>sy_inflight := sy_inflight x - {#b#}, sy_finished := sy_finished x @ [(b, evs)]\<rparr>)"

inductive sys_reachable :: "('e, 'w) intent_submitter \<Rightarrow> int \<Rightarrow> int \<Rightarrow> 'e submitter_sys \<Rightarrow> bool"
  for client :: "('e, 'w) intent_submitter" and mx iv :: int where
  start: "sys_reachable client mx iv (start_sys mx iv)"
| step: "sys_reachable client mx iv x \<Longrightarrow> sys_step client x y \<Longrightarrow> sys_reachable client mx iv y"

text \<open>Nothing is lost, reordered, duplicated or left without a flush to come.\<close>

definition batch_cap :: "int \<Rightarrow> int" where
  "batch_cap mx = (if mx \<le> 0 then DefaultMaxBatch else mx)"

definition sys_inv :: "int \<Rightarrow> 'e submitter_sys \<Rightarrow> bool" where
  "sys_inv mx x \<longleftrightarrow> submitter_inv (sy_sub x) \<and> maxBatch (sy_sub x) = batch_cap mx \<and>
     sy_accepted x = concat (sy_taken x) @ buf (sy_sub x) \<and>
     mset (sy_taken x) = sy_inflight x + mset (map fst (sy_finished x)) \<and>
     (\<forall>b \<in> set (sy_taken x). b \<noteq> [] \<and> int (length b) \<le> batch_cap mx) \<and>
     (buf (sy_sub x) \<noteq> [] \<longrightarrow> sy_armed x \<or> 0 < sy_fired x)"

lemma sys_inv_start: "sys_inv mx (start_sys mx iv)"
  using submitter_inv_New [of mx iv]
  by (simp add: sys_inv_def start_sys_def) (simp add: NewBufferedSubmitter_def batch_cap_def)

lemma take_batch_simps [simp]:
  "sy_sub (take_batch b x) = sy_sub x" "sy_accepted (take_batch b x) = sy_accepted x"
  "sy_finished (take_batch b x) = sy_finished x" "sy_fired (take_batch b x) = sy_fired x"
  "sy_taken (take_batch b x) = sy_taken x @ (if b = [] then [] else [b])"
  "sy_inflight (take_batch b x) = sy_inflight x + (if b = [] then {#} else {#b#})"
  by (simp_all add: take_batch_def)

text \<open>A critical section that takes the whole buffer keeps the invariant.\<close>

lemma sys_inv_take:
  assumes inv: "sys_inv mx x" and s': "submitter_inv s'" "maxBatch s' = maxBatch (sy_sub x)" "buf s' = []"
    and b: "b = buf (sy_sub x) @ new" "int (length b) \<le> maxBatch (sy_sub x)"
  shows "sys_inv mx (take_batch b (x\<lparr>sy_sub := s', sy_accepted := sy_accepted x @ new, sy_armed := a, sy_fired := f\<rparr>))"
proof (cases "b = []")
  case True
  with b have "buf (sy_sub x) = []" "new = []" by simp_all
  with True inv s' show ?thesis
    by (simp add: sys_inv_def take_batch_def)
next
  case False
  have acc: "sy_accepted x @ new = concat (sy_taken x) @ b"
    using inv b(1) by (simp add: sys_inv_def)
  from False inv s' b(2) show ?thesis
    by (simp add: sys_inv_def acc b(1) [symmetric])
qed

lemma locked_takes_all:
  assumes "submitter_inv s"
  shows "flush_locked s = (b, s') \<Longrightarrow> b = buf s \<and> buf s' = []"
    and "stop_locked s = (b, s') \<Longrightarrow> b = buf s \<and> buf s' = []"
    and "onTimer_locked s = (b, s') \<Longrightarrow> b = buf s \<and> buf s' = []"
  using assms by (auto simp: submitter_inv_def locked_defs split: if_splits)

lemma locked_maxBatch:
  "maxBatch (snd (flush_locked s)) = maxBatch s" "maxBatch (snd (stop_locked s)) = maxBatch s"
  "maxBatch (snd (onTimer_locked s)) = maxBatch s"
  by (simp_all add: locked_defs)

lemma sys_inv_take_all:
  assumes "sys_inv mx x" and "submitter_inv s'" and "maxBatch s' = maxBatch (sy_sub x)"
    and "b = buf (sy_sub x) \<and> buf s' = []"
  shows "sys_inv mx (take_batch b (x\<lparr>sy_sub := s', sy_armed := a, sy_fired := f\<rparr>))"
proof -
  have "int (length b) \<le> maxBatch (sy_sub x)"
    using assms(1,4) by (simp add: sys_inv_def submitter_inv_def)
  from sys_inv_take [OF assms(1-3) conjunct2 [OF assms(4)] _ this, of "[]", where a = a and f = f] show ?thesis
    using assms(4) by simp
qed

lemma sys_step_inv: "sys_step client x y \<Longrightarrow> sys_inv mx x \<Longrightarrow> sys_inv mx y"
proof (induction rule: sys_step.induct)
  case (enqueue_ignored x)
  then show ?case by simp
next
  case (enqueue_kept x i s')
  then have sub: "submitter_inv (sy_sub x)" by (simp add: sys_inv_def)
  have "submitter_inv s'" "maxBatch s' = maxBatch (sy_sub x)" "buf s' = buf (sy_sub x) @ [i]"
    using submitter_inv_locked(1) [OF sub, of i] locked_frame(1) [of i "sy_sub x"]
      enqueue_locked_keeps [OF enqueue_kept.hyps(2)] enqueue_kept.hyps by simp_all
  with enqueue_kept.prems show ?case
    by (auto simp: sys_inv_def)
next
  case (enqueue_full x i b s')
  then have sub: "submitter_inv (sy_sub x)" by (simp add: sys_inv_def)
  have s': "submitter_inv s'" "maxBatch s' = maxBatch (sy_sub x)"
    using submitter_inv_locked(1) [OF sub, of i] locked_frame(1) [of i "sy_sub x"] enqueue_full.hyps
    by simp_all
  have b: "b = buf (sy_sub x) @ [i]" "int (length b) \<le> maxBatch (sy_sub x)" "buf s' = []"
    using enqueue_locked_batch [OF sub enqueue_full.hyps(2)] by auto
  from sys_inv_take [OF enqueue_full.prems s' b(3) b(1,2), where a = "sy_armed x" and f = "sy_fired x"] show ?case
    by simp
next
  case (flush x b s')
  then have sub: "submitter_inv (sy_sub x)" by (simp add: sys_inv_def)
  from sys_inv_take_all [OF flush.prems _ _ locked_takes_all(1) [OF sub flush.hyps], where a = "sy_armed x" and f = "sy_fired x"]
  show ?case using submitter_inv_locked(2) [OF sub] locked_maxBatch(1) [of "sy_sub x"] flush.hyps by simp
next
  case (stop x b s')
  then have sub: "submitter_inv (sy_sub x)" by (simp add: sys_inv_def)
  from sys_inv_take_all [OF stop.prems _ _ locked_takes_all(2) [OF sub stop.hyps], where a = False and f = "sy_fired x"]
  show ?case using submitter_inv_locked(3) [OF sub] locked_maxBatch(2) [of "sy_sub x"] stop.hyps by simp
next
  case (on_timer x n b s')
  then have sub: "submitter_inv (sy_sub x)" by (simp add: sys_inv_def)
  from sys_inv_take_all [OF on_timer.prems _ _ locked_takes_all(3) [OF sub on_timer.hyps(2)], where a = "sy_armed x" and f = n]
  show ?case using submitter_inv_locked(4) [OF sub] locked_maxBatch(3) [of "sy_sub x"] on_timer.hyps by simp
qed (simp_all add: sys_inv_def)

lemma sys_reachable_inv: "sys_reachable client mx iv x \<Longrightarrow> sys_inv mx x"
  by (induction rule: sys_reachable.induct) (auto intro: sys_inv_start sys_step_inv)

section \<open>Properties\<close>

text \<open>
  C13.  The buffered submitter loses nothing under any interleaving: in every reachable state of
  any number of goroutines, the intents accepted so far are exactly the stolen batches followed by
  the buffer, in order; the stolen batches are, as a multiset, those in flight and those whose
  submission has ended; every batch is non-empty and within the configured size; and a non-empty
  buffer always has a running timer or a started callback that will flush it.
\<close>

theorem submitter_accounts_for_every_intent:
  assumes "sys_reachable client mx iv x"
  shows "sy_accepted x = concat (sy_taken x) @ buf (sy_sub x) \<and>
    mset (sy_taken x) = sy_inflight x + mset (map fst (sy_finished x)) \<and>
    (\<forall>b \<in> set (sy_taken x). b \<noteq> [] \<and> int (length b) \<le> batch_cap mx) \<and>
    (buf (sy_sub x) \<noteq> [] \<longrightarrow> sy_armed x \<or> 0 < sy_fired x) \<and>
    (closed (sy_sub x) \<longrightarrow> sy_accepted x = concat (sy_taken x))"
proof -
  from sys_reachable_inv [OF assms] have inv: "sys_inv mx x" .
  then have "submitter_inv (sy_sub x)" by (simp add: sys_inv_def)
  with inv show ?thesis
    by (simp add: sys_inv_def submitter_inv_def)
qed

lemma sys_reachable_one:
  fixes client :: "('e, 'w) intent_submitter"
  shows "sys_reachable client 2 0 (take_batch [i, j] ((start_sys 2 0)\<lparr>sy_sub :=
     \<lparr>maxBatch = 2, interval = DefaultInterval, buf = [], timer = False, closed = False\<rparr>,
     sy_accepted := [i, j], sy_armed := True\<rparr>))"
proof -
  let ?s1 = "\<lparr>maxBatch = 2, interval = DefaultInterval, buf = [i], timer = True, closed = False\<rparr>"
  let ?s2 = "\<lparr>maxBatch = 2, interval = DefaultInterval, buf = [], timer = False, closed = False\<rparr>"
  define x1 :: "'e submitter_sys" where
    "x1 = (start_sys 2 0)\<lparr>sy_sub := ?s1, sy_accepted := [i], sy_armed := True\<rparr>"
  have e1: "enqueue_locked i (sy_sub (start_sys 2 0)) = (None, ?s1)"
    by (simp add: start_sys_def NewBufferedSubmitter_def enqueue_locked_def)
  have "sys_step client (start_sys 2 0) x1"
    using enqueue_kept [OF _ e1, of client] by (simp add: x1_def start_sys_def NewBufferedSubmitter_def)
  then have r1: "sys_reachable client 2 0 x1"
    by (rule sys_reachable.step [OF sys_reachable.start])
  have e2: "enqueue_locked j (sy_sub x1) = (Some [i, j], ?s2)"
    by (simp add: x1_def enqueue_locked_def stealLocked_def)
  have "sys_step client x1 (take_batch [i, j] (x1\<lparr>sy_sub := ?s2, sy_accepted := sy_accepted x1 @ [j]\<rparr>))"
    by (rule enqueue_full [OF _ e2]) (simp add: x1_def)
  from sys_reachable.step [OF r1 this] show ?thesis
    by (simp add: x1_def start_sys_def)
qed

text \<open>Two intents fill a batch of two: it is in flight, and the account balances.\<close>

definition demo_intent :: "nat \<Rightarrow> settlement_intent" where
  "demo_intent n = \<lparr>in_SatId = 100, in_Amount = n, in_AssetId = 1, in_TxNonce = n, in_Wallet = []\<rparr>"

theorem submitter_accounts_for_every_intent_witness:
  "\<exists>x :: nat submitter_sys. sys_reachable (\<lambda>b (w :: unit). (Inl 0, w)) 2 0 x \<and>
     sy_accepted x = [demo_intent 1, demo_intent 2] \<and> sy_inflight x = {# [demo_intent 1, demo_intent 2] #} \<and>
     concat (sy_taken x) @ buf (sy_sub x) = [demo_intent 1, demo_intent 2]"
  using sys_reachable_one [of "\<lambda>b (w :: unit). (Inl (0 :: nat), w)" "demo_intent 1" "demo_intent 2"]
    submitter_accounts_for_every_intent
      [OF sys_reachable_one [of "\<lambda>b (w :: unit). (Inl (0 :: nat), w)" "demo_intent 1" "demo_intent 2"]]
  by (auto simp: start_sys_def)

text \<open>
  The retry policy: a batch is attempted at most twice, the second time only after the first
  failed; the log ends with the success of the last attempt or, after two failures, with the drop;
  the client is never called with an empty batch, and an empty batch leaves no trace.
\<close>

lemma submit_retries_once:
  "submit client b w =
     (if b = [] then ([], w)
      else case client b w of
        (Inr h, w1) \<Rightarrow> ([SettleOk (length b) h 1], w1)
      | (Inl e, w1) \<Rightarrow>
          (case client b w1 of
             (Inr h, w2) \<Rightarrow> ([SettleFail (length b) 1 e, SettleOk (length b) h 2], w2)
           | (Inl e', w2) \<Rightarrow>
               ([SettleFail (length b) 1 e, SettleFail (length b) 2 e', SettleDrop (length b)], w2)))"
  by (simp add: submit_def submitRetries_def numeral_2_eq_2 split: prod.split sum.split)

lemma Enqueue_room:
  assumes "\<not> closed (sw_sub x)" and "int (length (buf (sw_sub x))) + 1 < maxBatch (sw_sub x)"
  shows "sw_chain (Enqueue client i x) = sw_chain x" and "sw_batches (Enqueue client i x) = sw_batches x"
    and "buf (sw_sub (Enqueue client i x)) = buf (sw_sub x) @ [i]" and "\<not> closed (sw_sub (Enqueue client i x))"
    and "maxBatch (sw_sub (Enqueue client i x)) = maxBatch (sw_sub x)"
  using assms by (simp_all add: Enqueue_def enqueue_locked_def Let_def)

lemma onTimer_submits:
  assumes "\<not> closed (sw_sub x)" and "buf (sw_sub x) \<noteq> []"
  shows "sw_batches (onTimer client x) = sw_batches x @ [buf (sw_sub x)]"
    and "sw_chain (onTimer client x) = snd (submit client (buf (sw_sub x)) (sw_chain x))"
    and "sw_log (onTimer client x) = sw_log x @ fst (submit client (buf (sw_sub x)) (sw_chain x))"
  using assms by (simp_all add: onTimer_def onTimer_locked_def stealLocked_def run_submit_def split_beta)

text \<open>
  No intent waits for ever.  In every state of the submitter, if intents are buffered then the
  timer is set; when it fires, everything accepted so far has been handed to \<^verbatim>\<open>submit\<close>, in order,
  and the buffer is empty.  The same holds after \<^verbatim>\<open>Flush\<close>, which reports how many it submitted.
\<close>

lemma buffered_intents_are_flushed:
  assumes "submitter_inv (sw_sub x)"
  shows "(buf (sw_sub x) \<noteq> [] \<longrightarrow> timer (sw_sub x)) \<and>
    concat (sw_batches (onTimer client x)) = accepted_intents x \<and> buf (sw_sub (onTimer client x)) = [] \<and>
    fst (Flush client x) = length (buf (sw_sub x)) \<and>
    concat (sw_batches (snd (Flush client x))) = accepted_intents x \<and> buf (sw_sub (snd (Flush client x))) = []"
  using assms
  by (auto simp: submitter_inv_def accepted_intents_def onTimer_def Flush_def Let_def locked_defs split: prod.splits)

end
