(* ===== verification/Server.thy ===== *)
theory Server
  imports Ingest Egress Submitter Receipt_Pipeline
begin

text \<open>
  \<^verbatim>\<open>cmd/server/main.go\<close>: the configuration, the start of the on-chain part and of the receipt part, and
  the routes.  The environment is a function that gives the empty string for an unset variable; the
  Ethereum client library, the file system and the embedded ABI are parameters.
\<close>

unbundle bit_operations_syntax

section \<open>Configuration\<close>

type_synonym environment = "string \<Rightarrow> string"

definition defaultEthRPCURL :: string where "defaultEthRPCURL = ''http://127.0.0.1:8545''"
definition anvilAcct0Priv :: string where
  "anvilAcct0Priv = ''ac0974bec39a17e36ba4a6b4d238ff944bacb478cbed5efcae784d7bf4f2ff80''"
definition demoSellerSeedHex :: string where
  "demoSellerSeedHex = ''bc1df4fa6e3d7048992f14e655060cbb2190bded9002524c06e7cbb163df15fb''"
definition defaultReceiptsPath :: string where "defaultReceiptsPath = ''gateway/data/receipts.json''"

definition Getenv_or :: "environment \<Rightarrow> string \<Rightarrow> string \<Rightarrow> string" where
  "Getenv_or env name def = (if env name = '''' then def else env name)"

section \<open>The on-chain part\<close>

record ('cl, 'key, 'auth) rpc_lib =
  DialContext :: "string \<Rightarrow> string + 'cl"
  ChainID :: "'cl \<Rightarrow> string + nat"
  HexToECDSA :: "string \<Rightarrow> (string, 'key) outcome"
  NewKeyedTransactor :: "'key \<Rightarrow> nat \<Rightarrow> (string, 'auth) outcome"

text \<open>The submitter's client is kept beside the submitter.\<close>

record ('cl, 'auth) chainDeps =
  rpcURL :: string
  cd_client :: 'cl
  chainID :: nat
  cd_addr :: address
  privKey :: string
  cd_escrow :: "'auth escrow_client"
  cd_submitter :: buffered_submitter

datatype init_error = DialFailed string | ChainIDFailed string | EscrowFailed client_error

text \<open>The second result is the list of the connections that are open when the function returns.\<close>

definition maybeInitChain ::
    "('cl, 'key, 'auth) rpc_lib \<Rightarrow> eth_lib \<Rightarrow> environment \<Rightarrow>
     (init_error, ('cl, 'auth) chainDeps option) outcome \<times> 'cl list" where
  "maybeInitChain rpc eth env =
     (let addrHex = env ''VOID_ESCROW_ADDRESS'' in
      if addrHex = '''' then (Ok None, [])
      else
        let url = Getenv_or env ''VOID_ETH_RPC_URL'' defaultEthRPCURL;
            pk = Getenv_or env ''VOID_GATEWAY_PRIVATE_KEY'' anvilAcct0Priv
        in case DialContext rpc url of
             Inl e \<Rightarrow> (Err (DialFailed e), [])
           | Inr cl \<Rightarrow>
               (case ChainID rpc cl of
                  Inl e \<Rightarrow> (Err (ChainIDFailed e), [])
                | Inr cid \<Rightarrow>
                    let a = HexToAddress eth addrHex in
                    (case NewEscrowClient (HexToECDSA rpc) (NewKeyedTransactor rpc) a pk cid of
                       Err e \<Rightarrow> (Err (EscrowFailed e), [])
                     | Panic \<Rightarrow> (Panic, [cl])
                     | Ok escrow \<Rightarrow>
                         (Ok (Some \<lparr>rpcURL = url, cd_client = cl, chainID = cid, cd_addr = a, privKey = pk,
                            cd_escrow = escrow, cd_submitter = NewBufferedSubmitter DefaultMaxBatch DefaultInterval\<rparr>),
                          [cl]))))"

text \<open>The cleanup that \<^verbatim>\<open>maybeInitChain\<close> hands back: stop the submitter, close the connection.\<close>

definition cleanup ::
    "('e, 'w) intent_submitter \<Rightarrow> 'cl \<Rightarrow> ('e, 'w) submitter_world \<Rightarrow> 'cl list \<Rightarrow> ('e, 'w) submitter_world \<times> 'cl list" where
  "cleanup client cl x conns = (Stop client x, remove1 cl conns)"

section \<open>The receipt part\<close>

datatype start_error =
    MkdirFailed string
  | StoreFailed store_error
  | SeedHexFailed hex_error
  | ProcessorFailed processor_error
  | WatcherFailed watcher_error

text \<open>
  The file system: what \<^verbatim>\<open>MkdirAll\<close> says of the directory of a path, what happens while the file is opened and
  read, and the bytes of the file (none if it is new).
\<close>

record file_system =
  mkdir_parent :: "string \<Rightarrow> string option"
  open_fate :: load_fate
  contents :: "string \<Rightarrow> string"

text \<open>The second result is what \<^verbatim>\<open>handlers.EgressStore\<close> holds afterwards.\<close>

definition startReceiptWatcher ::
    "json_codec \<Rightarrow> (string \<rightharpoonup> byte list) \<Rightarrow> environment \<Rightarrow> file_system \<Rightarrow> address \<Rightarrow>
     (start_error, processor \<times> store \<times> watcher) outcome \<times> store option" where
  "startReceiptWatcher js abiEvents env fs contract =
     (let path = Getenv_or env ''VOID_RECEIPTS_PATH'' defaultReceiptsPath in
      case mkdir_parent fs path of
        Some e \<Rightarrow> (Err (MkdirFailed e), None)
      | None \<Rightarrow>
          (case NewStore js (open_fate fs) path (contents fs path) of
             Err e \<Rightarrow> (Err (StoreFailed e), None)
           | Panic \<Rightarrow> (Panic, None)
           | Ok s \<Rightarrow>
               (let seedHex = Getenv_or env ''VOID_RECEIPTS_SELLER_SEED'' demoSellerSeedHex in
                case DecodeString seedHex of
                  Err e \<Rightarrow> (Err (SeedHexFailed e), Some s)
                | Panic \<Rightarrow> (Panic, Some s)
                | Ok seed \<Rightarrow>
                    (case NewProcessor (Some s) SellerAPID100 seed of
                       Err e \<Rightarrow> (Err (ProcessorFailed e), Some s)
                     | Panic \<Rightarrow> (Panic, Some s)
                     | Ok (p, s') \<Rightarrow>
                         (case NewWatcher abiEvents contract 0 DefaultWatchInterval of
                            Err e \<Rightarrow> (Err (WatcherFailed e), Some s)
                          | Panic \<Rightarrow> (Panic, Some s)
                          | Ok w \<Rightarrow> (Ok (p, s', w), Some s))))))"

section \<open>The server\<close>

text \<open>
  The process after start-up: the registry, \<^verbatim>\<open>handlers.Submitter\<close>, and \<^verbatim>\<open>handlers.EgressStore\<close>, which is
  the store the processor writes to; the processor and watcher of the receipt goroutine, the events
  it has polled and not handled yet, whether it is still running, and the world of the node it polls.
\<close>

record ('e, 'w, 'c) server =
  sv_registry :: registry
  sv_submitter :: "('e, 'w) submitter_world option"
  sv_store :: "store option"
  sv_receipts :: "(processor \<times> watcher) option"
  sv_events :: "settlement_event list"
  sv_watching :: bool
  sv_node :: 'c

datatype fatal = DemoKeyFailed registry_error | ChainInitFailed init_error | WatcherInitFailed start_error

definition start_server ::
    "ed25519_lib \<Rightarrow> eth_lib \<Rightarrow> json_codec \<Rightarrow> ('cl, 'key, 'auth) rpc_lib \<Rightarrow> (string \<rightharpoonup> byte list) \<Rightarrow> environment \<Rightarrow>
     file_system \<Rightarrow> 'w \<Rightarrow> 'c \<Rightarrow> (fatal, ('e, 'w, 'c) server) outcome" where
  "start_server ed eth js rpc abiEvents env fs w0 c0 =
     (case LoadFlatSatDemoKey ed demoSellerSeedHex (Initialize Map.empty) of
        Err e \<Rightarrow> Err (DemoKeyFailed e)
      | Panic \<Rightarrow> Panic
      | Ok db \<Rightarrow>
          (case fst (maybeInitChain rpc eth env) of
             Err e \<Rightarrow> Err (ChainInitFailed e)
           | Panic \<Rightarrow> Panic
           | Ok None \<Rightarrow> Ok \<lparr>sv_registry = db, sv_submitter = None, sv_store = None, sv_receipts = None, sv_events = [],
               sv_watching = False, sv_node = c0\<rparr>
           | Ok (Some deps) \<Rightarrow>
               (case fst (startReceiptWatcher js abiEvents env fs (cd_addr deps)) of
                  Err e \<Rightarrow> Err (WatcherInitFailed e)
                | Panic \<Rightarrow> Panic
                | Ok (p, s, w) \<Rightarrow>
                    Ok \<lparr>sv_registry = db,
                      sv_submitter = Some \<lparr>sw_sub = cd_submitter deps, sw_chain = w0, sw_batches = [], sw_log = []\<rparr>,
                      sv_store = Some s, sv_receipts = Some (p, w), sv_events = [], sv_watching = True, sv_node = c0\<rparr>)))"

text \<open>
  The routes.  A request carries its method and path, what reading its body gave, and what binding the
  body as JSON gives; any other method or path is answered by gin itself.
\<close>

record http_request =
  rq_method :: string
  rq_path :: string
  rq_body :: "string + byte list"
  rq_json :: "string + ackRequest"

definition serve ::
    "'s kaitai_rt \<Rightarrow> ed25519_lib \<Rightarrow> eth_lib \<Rightarrow> json_codec \<Rightarrow> ('e, 'w) intent_submitter \<Rightarrow> io_fate \<Rightarrow> http_request \<Rightarrow>
     ('e, 'w, 'c) server \<Rightarrow> (unit, ('e, 'w, 'c) server \<times> gin_context) outcome" where
  "serve k ed eth js client fate rq sv =
     (if rq_method rq = ''POST'' \<and> rq_path rq = ''/api/v1/ingest'' then
        bind_ok (IngestPacket k ed eth (sv_registry sv) (Enqueue client) (rq_body rq) (sv_submitter sv) NewContext)
          (\<lambda>(q, c). Ok (sv\<lparr>sv_submitter := q\<rparr>, c))
      else if rq_method rq = ''GET'' \<and> rq_path rq = ''/api/v1/egress/pending'' then
        Ok (sv, HandleEgressPending (sv_store sv) NewContext)
      else if rq_method rq = ''POST'' \<and> rq_path rq = ''/api/v1/egress/ack'' then
        (let (es, c) = HandleEgressAck js fate (rq_json rq) (sv_store sv) NewContext in Ok (sv\<lparr>sv_store := es\<rparr>, c))
      else Ok (sv, AbortWithStatusJSON StatusNotFound ''404 page not found'' NewContext))"

section \<open>Start-up\<close>

lemma demo_seed_decodes: "\<exists>seed. DecodeString demoSellerSeedHex = Ok seed \<and> length seed = SeedSize"
proof -
  have "case DecodeString demoSellerSeedHex of Ok seed \<Rightarrow> length seed = SeedSize | _ \<Rightarrow> False" by code_simp
  then show ?thesis by (cases "DecodeString demoSellerSeedHex") auto
qed

definition demo_seed :: "byte list" where
  "demo_seed = (case DecodeString demoSellerSeedHex of Ok seed \<Rightarrow> seed | _ \<Rightarrow> [])"

lemma demo_seed: "DecodeString demoSellerSeedHex = Ok demo_seed" "length demo_seed = SeedSize"
  using demo_seed_decodes by (auto simp: demo_seed_def)

text \<open>The registry the server runs with: the satellites of \<^verbatim>\<open>Initialize\<close>, with the demo key injected.\<close>

definition start_registry :: "ed25519_lib \<Rightarrow> registry" where
  "start_registry ed = (Initialize Map.empty)(FlatSatDemoSatID \<mapsto> (the (Initialize Map.empty FlatSatDemoSatID))
      \<lparr>PubKeyHex := EncodeToString (Public ed (NewKeyFromSeed ed demo_seed))\<rparr>)"

lemma start_key: "LoadFlatSatDemoKey ed demoSellerSeedHex (Initialize Map.empty) = Ok (start_registry ed)"
  unfolding start_registry_def by (rule LoadFlatSatDemoKey_Initialize [OF demo_seed])

lemma start_registered:
  assumes "ed25519_ok ed"
  shows "registered_key (start_registry ed) FlatSatDemoSatID = Some (Public ed (NewKeyFromSeed ed demo_seed))"
    and "\<exists>r. start_registry ed FlatSatDemoSatID = Some r \<and> rec_Wallet r = FlatSatDemoWallet"
proof -
  have "length (Public ed (NewKeyFromSeed ed demo_seed)) = PublicKeySize"
    using assms demo_seed(2) unfolding ed25519_ok_def by blast
  then show "registered_key (start_registry ed) FlatSatDemoSatID = Some (Public ed (NewKeyFromSeed ed demo_seed))"
    by (simp add: registered_key_def start_registry_def DecodeString_EncodeToString)
  show "\<exists>r. start_registry ed FlatSatDemoSatID = Some r \<and> rec_Wallet r = FlatSatDemoWallet"
    by (simp add: start_registry_def Initialize_def)
qed

text \<open>What a started receipt part consists of.\<close>

lemma startReceiptWatcher_Ok:
  assumes "startReceiptWatcher js abi env fs contract = (Ok (p, s, w), es)"
  shows "es = Some s" and "nextBlock w = 0" and "w_contract w = contract"
    and "abi ''SettlementCreated'' = Some (eventTopic w)" and "seqCount p = 0" and "sellerAPID p = SellerAPID100"
    and "DecodeString (Getenv_or env ''VOID_RECEIPTS_SELLER_SEED'' demoSellerSeedHex) = Ok (p_seed p)"
    and "NewStore js (open_fate fs) (Getenv_or env ''VOID_RECEIPTS_PATH'' defaultReceiptsPath)
      (contents fs (Getenv_or env ''VOID_RECEIPTS_PATH'' defaultReceiptsPath)) = Ok s"
  using assms
  by (auto simp: startReceiptWatcher_def Let_def NewProcessor_def NewWatcher_def
      split: option.splits outcome.splits prod.splits if_splits)

lemma start_server_Ok:
  assumes "start_server ed eth js rpc abi env fs w0 c0 = Ok sv"
  shows "sv_registry sv = start_registry ed" and "sv_events sv = []" and "sv_node sv = c0"
    and "(sv_submitter sv = None \<and> sv_store sv = None \<and> sv_receipts sv = None \<and> \<not> sv_watching sv \<and> env ''VOID_ESCROW_ADDRESS'' = '''') \<or>
      (\<exists>deps p s w es. fst (maybeInitChain rpc eth env) = Ok (Some deps) \<and>
         startReceiptWatcher js abi env fs (cd_addr deps) = (Ok (p, s, w), es) \<and> sv_watching sv \<and>
         sv_submitter sv = Some \<lparr>sw_sub = NewBufferedSubmitter DefaultMaxBatch DefaultInterval, sw_chain = w0, sw_batches = [], sw_log = []\<rparr> \<and>
         sv_store sv = Some s \<and> sv_receipts sv = Some (p, w))"
proof -
  have sub: "fst (maybeInitChain rpc eth env) = Ok (Some deps) \<Longrightarrow>
      cd_submitter deps = NewBufferedSubmitter DefaultMaxBatch DefaultInterval" for deps
    by (auto simp: maybeInitChain_def Let_def split: if_splits sum.splits outcome.splits)
  have none: "fst (maybeInitChain rpc eth env) = Ok None \<Longrightarrow> env ''VOID_ESCROW_ADDRESS'' = ''''"
    by (auto simp: maybeInitChain_def Let_def split: if_splits sum.splits outcome.splits)
  show "sv_registry sv = start_registry ed" "sv_events sv = []" "sv_node sv = c0"
    using assms by (auto simp: start_server_def start_key split: outcome.splits option.splits prod.splits)
  show "(sv_submitter sv = None \<and> sv_store sv = None \<and> sv_receipts sv = None \<and> \<not> sv_watching sv \<and> env ''VOID_ESCROW_ADDRESS'' = '''') \<or>
      (\<exists>deps p s w es. fst (maybeInitChain rpc eth env) = Ok (Some deps) \<and>
         startReceiptWatcher js abi env fs (cd_addr deps) = (Ok (p, s, w), es) \<and> sv_watching sv \<and>
         sv_submitter sv = Some \<lparr>sw_sub = NewBufferedSubmitter DefaultMaxBatch DefaultInterval, sw_chain = w0, sw_batches = [], sw_log = []\<rparr> \<and>
         sv_store sv = Some s \<and> sv_receipts sv = Some (p, w))"
  proof (cases "fst (maybeInitChain rpc eth env)")
    case (Ok od)
    show ?thesis
    proof (cases od)
      case None
      with Ok assms none show ?thesis by (auto simp: start_server_def start_key)
    next
      case (Some deps)
      obtain r es where start: "startReceiptWatcher js abi env fs (cd_addr deps) = (r, es)"
        by (cases "startReceiptWatcher js abi env fs (cd_addr deps)")
      with Ok Some assms sub [of deps] show ?thesis
        by (cases r) (auto simp: start_server_def start_key)
    qed
  qed (use assms in \<open>auto simp: start_server_def start_key\<close>)
qed

section \<open>Properties\<close>

text \<open>
  Start-up and the connection.  With no escrow address the on-chain part stays off and nothing is
  dialled.  With one, the endpoint and the key default to the local node and its first account, the
  address is the configured one, and the submitter starts empty with the default batch size and
  interval; the function leaves exactly one connection open, the one it returns.  On every error
  no connection is left open.
\<close>

lemma maybeInitChain_connections:
  assumes "\<And>s. HexToECDSA rpc s \<noteq> Panic" and "\<And>k n. NewKeyedTransactor rpc k n \<noteq> Panic"
  shows "case maybeInitChain rpc eth env of
      (Ok None, conns) \<Rightarrow> conns = [] \<and> env ''VOID_ESCROW_ADDRESS'' = ''''
    | (Ok (Some deps), conns) \<Rightarrow> conns = [cd_client deps] \<and> env ''VOID_ESCROW_ADDRESS'' \<noteq> '''' \<and>
        rpcURL deps = (if env ''VOID_ETH_RPC_URL'' = '''' then ''http://127.0.0.1:8545'' else env ''VOID_ETH_RPC_URL'') \<and>
        privKey deps = (if env ''VOID_GATEWAY_PRIVATE_KEY'' = '''' then anvilAcct0Priv else env ''VOID_GATEWAY_PRIVATE_KEY'') \<and>
        DialContext rpc (rpcURL deps) = Inr (cd_client deps) \<and> ChainID rpc (cd_client deps) = Inr (chainID deps) \<and>
        cd_addr deps = HexToAddress eth (env ''VOID_ESCROW_ADDRESS'') \<and> ec_address (cd_escrow deps) = cd_addr deps \<and>
        maxBatch (cd_submitter deps) = 10 \<and> interval (cd_submitter deps) = 5000000000 \<and> submitter_inv (cd_submitter deps) \<and>
        buf (cd_submitter deps) = []
    | (Err e, conns) \<Rightarrow> conns = [] \<and> env ''VOID_ESCROW_ADDRESS'' \<noteq> ''''
    | (Panic, conns) \<Rightarrow> False"
proof (cases "env ''VOID_ESCROW_ADDRESS'' = ''''")
  case True
  then show ?thesis by (simp add: maybeInitChain_def)
next
  case False
  note defs = maybeInitChain_def Let_def Getenv_or_def NewEscrowClient_def defaultEthRPCURL_def submitter_inv_New
  let ?url = "Getenv_or env ''VOID_ETH_RPC_URL'' defaultEthRPCURL"
  let ?pk = "TrimPrefix ''0x'' (Getenv_or env ''VOID_GATEWAY_PRIVATE_KEY'' anvilAcct0Priv)"
  have sub: "maxBatch (NewBufferedSubmitter DefaultMaxBatch DefaultInterval) = 10"
    "interval (NewBufferedSubmitter DefaultMaxBatch DefaultInterval) = 5000000000"
    "buf (NewBufferedSubmitter DefaultMaxBatch DefaultInterval) = []"
    by (simp_all add: NewBufferedSubmitter_def DefaultMaxBatch_def DefaultInterval_def)
  show ?thesis
  proof (cases "DialContext rpc ?url")
    case (Inl e)
    with False show ?thesis by (simp add: defs)
  next
    case dial: (Inr cl)
    show ?thesis
    proof (cases "ChainID rpc cl")
      case (Inl e)
      with False dial show ?thesis by (simp add: defs)
    next
      case cid: (Inr cid)
      show ?thesis
      proof (cases "HexToECDSA rpc ?pk")
        case (Ok key)
        then show ?thesis
          using False dial cid sub assms(2) [of key cid]
          by (cases "NewKeyedTransactor rpc key cid") (simp_all add: defs split del: if_split)
      qed (use False dial cid assms(1) in \<open>simp_all add: defs split del: if_split\<close>)
    qed
  qed
qed

definition demo_rpc :: "(string, string, string) rpc_lib" where
  "demo_rpc = \<lparr>DialContext = Inr, ChainID = (\<lambda>cl. Inr 31337), HexToECDSA = Ok, NewKeyedTransactor = (\<lambda>key n. Ok key)\<rparr>"

definition demo_env :: environment where
  "demo_env = (\<lambda>v. '''')(''VOID_ESCROW_ADDRESS'' := ''0x0102'')"

text \<open>
  A seed of the wrong size.  \<^verbatim>\<open>startReceiptWatcher\<close> takes any hexadecimal seed that is not empty: with
  one that is not 32 bytes the receipt part starts all the same, and from then on every settlement
  that has no receipt yet fails in \<^verbatim>\<open>Handle\<close> with the builder's error, uses up a sequence number and
  leaves the store as it was.
\<close>

lemma wrong_seed_starts_and_never_issues:
  assumes "startReceiptWatcher js abi env fs contract = (Ok (p, s, w), es)"
    and "length (p_seed p) \<noteq> SeedSize" and "sellerAPID q = sellerAPID p" and "p_seed q = p_seed p"
    and "store_inv t" and "event_key eth ev \<notin> record_key ` set (settlements t)"
  shows "es = Some s \<and> Handle ed eth js fate ev (q, t)
    = (Err (BuildPacketC (SeedSizeMismatch (length (p_seed p)))), q\<lparr>seqCount := (seqCount q + 1) AND 0x3FFF\<rparr>, t)"
proof -
  have "\<not> Has (payment_id ev) (tx_hash_hex eth ev) t"
    using receipt_store.has_iff [OF assms(5)] assms(6) by (simp add: event_key_def)
  then show ?thesis
    using startReceiptWatcher_Ok(1) [OF assms(1)] assms(2,4)
    by (simp add: Handle_def take_seq_def Build_def receipt_inputs_def)
qed

definition demo_fs :: file_system where
  "demo_fs = \<lparr>mkdir_parent = (\<lambda>p. None), open_fate = Loads, contents = (\<lambda>p. '''')\<rparr>"

definition demo_abi :: "string \<rightharpoonup> byte list" where
  "demo_abi = [''SettlementCreated'' \<mapsto> replicate 32 7]"

text \<open>
  A clean shutdown.  The cleanup that start-up returns hands every accepted intent that is still
  buffered to the submission, closes the submitter, so that later intents are ignored, and closes
  the connection.
\<close>

lemma cleanup_submits_everything:
  "cleanup client cl x conns = (x', conns') \<longrightarrow>
     concat (sw_batches x') = accepted_intents x \<and> buf (sw_sub x') = [] \<and> closed (sw_sub x') \<and> \<not> timer (sw_sub x') \<and>
     conns' = remove1 cl conns \<and> Enqueue client i x' = x'"
  by (auto simp: cleanup_def Stop_def accepted_intents_def Enqueue_def Let_def locked_defs split: prod.splits)

end
