(* ===== verification/Gateway_Run.thy ===== *)
theory Gateway_Run
  imports Server
begin

text \<open>
  The running gateway: requests, the submitter's timer and the receipt goroutine as interleaved steps
  on the shared state that \<^verbatim>\<open>main\<close> sets up.  A poll puts its events in the goroutine's list and they are
  handled one at a time, so requests run between them; the finer interleavings inside the submitter and
  inside concurrent calls of \<^verbatim>\<open>Handle\<close> are the subject of their own theories.  What the operating system does with a write
  and what the network delivers is free in every step.
\<close>

section \<open>Steps\<close>

datatype label =
    Served http_request gin_context
  | TimerFired
  | Polled
  | WatcherStopped
  | Handled settlement_event "(processor_error, unit) outcome"

inductive server_step ::
    "'s kaitai_rt \<Rightarrow> ed25519_lib \<Rightarrow> eth_lib \<Rightarrow> json_codec \<Rightarrow> ('e, 'w) intent_submitter \<Rightarrow> 'c event_filterer \<Rightarrow>
     ('e, 'w, 'c) server \<Rightarrow> label \<Rightarrow> ('e, 'w, 'c) server \<Rightarrow> bool"
  for k ed eth js client cl where
  request: "serve k ed eth js client fate rq sv = Ok (sv', ctx) \<Longrightarrow>
    server_step k ed eth js client cl sv (Served rq ctx) sv'"
| timer: "sv_submitter sv = Some x \<Longrightarrow>
    server_step k ed eth js client cl sv TimerFired (sv\<lparr>sv_submitter := Some (onTimer client x)\<rparr>)"
| poll: "sv_watching sv \<Longrightarrow> sv_receipts sv = Some (p, w) \<Longrightarrow> sv_events sv = [] \<Longrightarrow>
    Poll eth cl w (sv_node sv) = ((events, None), w', c') \<Longrightarrow>
    server_step k ed eth js client cl sv Polled (sv\<lparr>sv_receipts := Some (p, w'), sv_events := events, sv_node := c'\<rparr>)"
| poll_fails: "sv_watching sv \<Longrightarrow> sv_receipts sv = Some (p, w) \<Longrightarrow> sv_events sv = [] \<Longrightarrow>
    Poll eth cl w (sv_node sv) = ((events, Some e), w', c') \<Longrightarrow>
    server_step k ed eth js client cl sv WatcherStopped (sv\<lparr>sv_watching := False, sv_node := c'\<rparr>)"
| handle: "sv_receipts sv = Some (p, w) \<Longrightarrow> sv_store sv = Some s \<Longrightarrow> sv_events sv = ev # events \<Longrightarrow>
    Handle ed eth js fate ev (p, s) = (res, p', s') \<Longrightarrow>
    server_step k ed eth js client cl sv (Handled ev res)
      (sv\<lparr>sv_receipts := Some (p', w), sv_store := Some s', sv_events := events\<rparr>)"

inductive server_run ::
    "'s kaitai_rt \<Rightarrow> ed25519_lib \<Rightarrow> eth_lib \<Rightarrow> json_codec \<Rightarrow> ('e, 'w) intent_submitter \<Rightarrow> 'c event_filterer \<Rightarrow>
     ('e, 'w, 'c) server \<Rightarrow> label list \<Rightarrow> ('e, 'w, 'c) server \<Rightarrow> bool"
  for k ed eth js client cl sv0 where
  start: "server_run k ed eth js client cl sv0 [] sv0"
| step: "server_run k ed eth js client cl sv0 labs sv \<Longrightarrow> server_step k ed eth js client cl sv lab sv' \<Longrightarrow>
    server_run k ed eth js client cl sv0 (labs @ [lab]) sv'"

inductive_cases server_stepE: "server_step k ed eth js client cl sv lab sv'"

text \<open>The frames that were sent to the ingest endpoint.\<close>

definition ingested :: "label list \<Rightarrow> byte list set" where
  "ingested labs = {raw. \<exists>rq ctx. Served rq ctx \<in> set labs \<and> rq_method rq = ''POST'' \<and>
     rq_path rq = ''/api/v1/ingest'' \<and> rq_body rq = Inr raw}"

lemma ingested_snoc: "ingested labs \<subseteq> ingested (labs @ [lab])"
  by (auto simp: ingested_def)

section \<open>Invariants\<close>

text \<open>The submitter: good, and everything it ever accepted was signed in a frame that was ingested.\<close>

definition intents_ok ::
    "ed25519_lib \<Rightarrow> eth_lib \<Rightarrow> registry \<Rightarrow> byte list set \<Rightarrow> ('e, 'w) submitter_world option \<Rightarrow> bool" where
  "intents_ok ed eth db raws q \<longleftrightarrow> (\<forall>x. q = Some x \<longrightarrow> submitter_inv (sw_sub x) \<and> \<not> closed (sw_sub x) \<and>
     (\<forall>i \<in> set (accepted_intents x). \<exists>raw \<in> raws. settles ed eth db raw i))"

text \<open>
  The receipts: a good store whose receipts are those it started with and, behind them, receipts of
  settlements on the chain; the polled events are settlements on the chain.
\<close>

definition on_chain :: "eth_lib \<Rightarrow> eth_log list \<Rightarrow> settlement_event \<Rightarrow> bool" where
  "on_chain eth hist ev \<longleftrightarrow> (\<exists>l \<in> set hist. untimed ev = event_of eth l)"

definition receipts_ok ::
    "eth_lib \<Rightarrow> eth_log list \<Rightarrow> string list \<Rightarrow> ('e, 'w, 'c) server \<Rightarrow> bool" where
  "receipts_ok eth hist old sv \<longleftrightarrow>
     (\<forall>s. sv_store sv = Some s \<longrightarrow> store_inv s \<and>
        (\<exists>new. map record_key (settlements s) = old @ new \<and> set new \<subseteq> log_key eth ` set hist)) \<and>
     (\<forall>p w. sv_receipts sv = Some (p, w) \<longrightarrow> seed_ok p) \<and> list_all (on_chain eth hist) (sv_events sv)"

lemma on_chain_key: "on_chain eth hist ev \<Longrightarrow> event_key eth ev \<in> log_key eth ` set hist"
proof -
  assume "on_chain eth hist ev"
  then obtain l where l: "l \<in> set hist" "untimed ev = event_of eth l" by (auto simp: on_chain_def)
  have "event_key eth ev = log_key eth l"
    using event_key_untimed [of eth ev] by (simp add: log_key_def l(2))
  with l(1) show ?thesis by simp
qed

lemma intents_ok_mono: "intents_ok ed eth db raws q \<Longrightarrow> raws \<subseteq> raws' \<Longrightarrow> intents_ok ed eth db raws' q"
  unfolding intents_ok_def by blast

text \<open>A request to the ingest route leaves the queue alone or adds one intent the frame settles.\<close>

lemma IngestPacket_queue:
  assumes "kaitai_stream k view" and "\<And>raw. body = Inr raw \<Longrightarrow> int (length raw) < 2 ^ 63"
    and "IngestPacket k ed eth db enq body q NewContext = Ok (q', ctx)"
  shows "q' = q \<or> (\<exists>raw x i. body = Inr raw \<and> q = Some x \<and> q' = Some (enq i x) \<and> settles ed eth db raw i)"
proof (cases "q' = q")
  case False
  then obtain raw where raw: "body = Inr raw" "int (length raw) < 2 ^ 63"
    using assms(2,3) by (cases body) (auto simp: IngestPacket_def)
  obtain x where x: "q = Some x"
    using False assms(3) IngestPacket_outcome [OF assms(1) raw(2), of ed eth db enq q] raw(1)
    by (cases q) (auto simp: ingest_outcome_def submit_intent_def split: verdict.splits option.splits)
  with ingest_enqueues [OF assms(1) raw(2), of ed eth db enq x q' ctx] assms(3) raw(1) False show ?thesis by blast
qed simp

lemma intents_ok_ingest:
  assumes "intents_ok ed eth db raws q" and "kaitai_stream k view"
    and "\<And>raw. body = Inr raw \<Longrightarrow> raw \<in> raws \<and> int (length raw) < 2 ^ 63"
    and "IngestPacket k ed eth db (Enqueue client) body q NewContext = Ok (q', ctx)"
  shows "intents_ok ed eth db raws q'"
proof (cases "q' = q")
  case True
  with assms(1) show ?thesis by simp
next
  case False
  then obtain raw x i where i: "body = Inr raw" "q = Some x" "q' = Some (Enqueue client i x)" "settles ed eth db raw i"
    using IngestPacket_queue [OF assms(2) _ assms(4)] assms(3) by blast
  have inv: "submitter_inv (sw_sub x)" "\<not> closed (sw_sub x)"
    using assms(1) i(2) by (simp_all add: intents_ok_def)
  have "accepted_intents (Enqueue client i x) = accepted_intents x @ [i]"
    using submitter_queue.accepted_enq [OF inv(1), of client i] inv(2) by simp
  moreover have "submitter_inv (sw_sub (Enqueue client i x))" "\<not> closed (sw_sub (Enqueue client i x))"
    using submitter_queue.ok_enq [OF inv(1), of client i] submitter_queue.open_enq [OF inv(1), of client i] inv(2) by auto
  ultimately show ?thesis
    using assms(1,3) i by (auto simp: intents_ok_def)
qed

lemma onTimer_accepted:
  assumes "submitter_inv (sw_sub x)"
  shows "accepted_intents (onTimer client x) = accepted_intents x" and "submitter_inv (sw_sub (onTimer client x))"
    and "closed (sw_sub (onTimer client x)) = closed (sw_sub x)"
  using submitter_inv_locked(4) [OF assms]
  by (auto simp: accepted_intents_def onTimer_def onTimer_locked_def stealLocked_def)

lemma intents_ok_timer:
  "intents_ok ed eth db raws (Some x) \<Longrightarrow> intents_ok ed eth db raws (Some (onTimer client x))"
  using onTimer_accepted [of x client] by (simp add: intents_ok_def)

lemma Ack_keys:
  assumes "store_inv s" and "HandleEgressAck js fate bound (Some s) c = (es, ctx)"
  shows "\<exists>s'. es = Some s' \<and> store_inv s' \<and> map record_key (settlements s') = map record_key (settlements s)"
proof -
  have "\<exists>s'. es = Some s' \<and> (s' = s \<or> (\<exists>p t. s' = snd (MarkDispatched js fate p t s)))"
    using assms(2) by (auto simp: HandleEgressAck_def split: sum.splits if_splits prod.splits option.splits)
      (metis snd_conv)+
  then show ?thesis
    using assms(1) receipt_store.mark_inv [OF assms(1), of js fate] receipt_store.mark_keys [OF assms(1), of js fate]
    by auto
qed

lemma Handle_keys:
  assumes "store_inv s" and "ed25519_ok ed" and "seed_ok p" and "Handle ed eth js fate ev (p, s) = (res, p', s')"
  shows "\<exists>new. map record_key (settlements s') = map record_key (settlements s) @ new \<and> set new \<subseteq> {event_key eth ev}"
proof -
  have "\<exists>rs. settlements s' = settlements s @ rs \<and> record_key ` set rs \<subseteq> {event_key eth ev}"
    using Handle_queue [OF assms] by (auto split: if_splits)
  then obtain rs where "settlements s' = settlements s @ rs" "record_key ` set rs \<subseteq> {event_key eth ev}" by blast
  then show ?thesis by (intro exI [of _ "map record_key rs"]) simp
qed

text \<open>The request bodies a Go process can hold.\<close>

definition bodies_fit :: "label list \<Rightarrow> bool" where
  "bodies_fit labs \<longleftrightarrow> (\<forall>rq ctx raw. Served rq ctx \<in> set labs \<longrightarrow> rq_body rq = Inr raw \<longrightarrow> int (length raw) < 2 ^ 63)"

definition watcher_ok :: "'c event_filterer \<Rightarrow> eth_log list \<Rightarrow> ('e, 'w, 'c) server \<Rightarrow> bool" where
  "watcher_ok cl hist sv \<longleftrightarrow> (\<forall>p w. sv_receipts sv = Some (p, w) \<longrightarrow> honest_node cl (w_contract w) (eventTopic w) hist)"

definition server_inv ::
    "ed25519_lib \<Rightarrow> eth_lib \<Rightarrow> 'c event_filterer \<Rightarrow> eth_log list \<Rightarrow> registry \<Rightarrow> string list \<Rightarrow> label list \<Rightarrow>
     ('e, 'w, 'c) server \<Rightarrow> bool" where
  "server_inv ed eth cl hist db old labs sv \<longleftrightarrow> sv_registry sv = db \<and>
     intents_ok ed eth db (ingested labs) (sv_submitter sv) \<and> receipts_ok eth hist old sv \<and> watcher_ok cl hist sv"

lemma serve_cases:
  assumes "serve k ed eth js client fate rq sv = Ok (sv', ctx)"
  obtains (ingest) q where "rq_method rq = ''POST'' \<and> rq_path rq = ''/api/v1/ingest''"
      "IngestPacket k ed eth (sv_registry sv) (Enqueue client) (rq_body rq) (sv_submitter sv) NewContext = Ok (q, ctx)"
      "sv' = sv\<lparr>sv_submitter := q\<rparr>"
    | (pending) "ctx = HandleEgressPending (sv_store sv) NewContext" "sv' = sv"
    | (ack) es where "HandleEgressAck js fate (rq_json rq) (sv_store sv) NewContext = (es, ctx)" "sv' = sv\<lparr>sv_store := es\<rparr>"
    | (not_found) "ctx = AbortWithStatusJSON StatusNotFound ''404 page not found'' NewContext" "sv' = sv"
proof -
  define a b c where "a \<longleftrightarrow> rq_method rq = ''POST'' \<and> rq_path rq = ''/api/v1/ingest''"
    and "b \<longleftrightarrow> rq_method rq = ''GET'' \<and> rq_path rq = ''/api/v1/egress/pending''"
    and "c \<longleftrightarrow> rq_method rq = ''POST'' \<and> rq_path rq = ''/api/v1/egress/ack''"
  note run = assms [unfolded serve_def, folded a_def b_def c_def]
  show thesis
  proof (cases a)
    case True
    with run obtain q where "IngestPacket k ed eth (sv_registry sv) (Enqueue client) (rq_body rq) (sv_submitter sv) NewContext = Ok (q, ctx)"
      "sv' = sv\<lparr>sv_submitter := q\<rparr>"
      by (auto simp: outcome_simps split: outcome.splits prod.splits)
    with True show thesis unfolding a_def by (rule ingest)
  next
    case na: False
    show thesis
    proof (cases b)
      case True
      with na run have "ctx = HandleEgressPending (sv_store sv) NewContext" "sv' = sv" by auto
      then show thesis by (rule pending)
    next
      case nb: False
      show thesis
      proof (cases c)
        case True
        obtain es c' where h: "HandleEgressAck js fate (rq_json rq) (sv_store sv) NewContext = (es, c')"
          by (cases "HandleEgressAck js fate (rq_json rq) (sv_store sv) NewContext")
        with True na nb run have "c' = ctx" "sv' = sv\<lparr>sv_store := es\<rparr>" by simp_all
        with h show thesis by (intro ack) simp_all
      next
        case False
        with na nb run have "ctx = AbortWithStatusJSON StatusNotFound ''404 page not found'' NewContext" "sv' = sv"
          by auto
        then show thesis by (rule not_found)
      qed
    qed
  qed
qed

lemma server_inv_request:
  assumes "kaitai_stream k view" and "server_inv ed eth cl hist db old labs sv"
    and "bodies_fit (labs @ [Served rq ctx])" and "serve k ed eth js client fate rq sv = Ok (sv', ctx)"
  shows "server_inv ed eth cl hist db old (labs @ [Served rq ctx]) sv'"
proof -
  let ?labs = "labs @ [Served rq ctx]"
  have base: "sv_registry sv = db" "intents_ok ed eth db (ingested ?labs) (sv_submitter sv)"
    "receipts_ok eth hist old sv" "watcher_ok cl hist sv"
    using assms(2) intents_ok_mono [OF _ ingested_snoc] by (auto simp: server_inv_def)
  show ?thesis
    using assms(4)
  proof (cases rule: serve_cases)
    case ingest
    have "raw \<in> ingested ?labs \<and> int (length raw) < 2 ^ 63" if "rq_body rq = Inr raw" for raw
      using that ingest(1) assms(3) by (auto simp: ingested_def bodies_fit_def)
    from intents_ok_ingest [OF base(2) assms(1) this ingest(2) [unfolded base(1)]] base ingest(3) show ?thesis
      by (simp add: server_inv_def receipts_ok_def watcher_ok_def)
  next
    case ack
    show ?thesis
    proof (cases "sv_store sv")
      case None
      with ack base show ?thesis
        by (simp add: server_inv_def receipts_ok_def watcher_ok_def HandleEgressAck_def)
    next
      case (Some s)
      have "store_inv s" using base(3) Some by (simp add: receipts_ok_def)
      from Ack_keys [OF this ack(1) [unfolded Some]] base ack(2) Some show ?thesis
        by (auto simp: server_inv_def receipts_ok_def watcher_ok_def)
    qed
  qed (use base in \<open>simp_all add: server_inv_def\<close>)
qed

lemma polled_on_chain:
  assumes "honest_node cl (w_contract w) (eventTopic w) hist" and "Poll eth cl w c = ((events, None), w', c')"
  shows "list_all (on_chain eth hist) events"
proof -
  have "untimed ev \<in> set (map (event_of eth) (logs_between hist (nextBlock w) (nextBlock w')))" if "ev \<in> set events" for ev
    using that Poll_exact [OF assms] by (metis image_eqI set_map)
  then show ?thesis by (auto simp: list_all_iff on_chain_def logs_between_def)
qed

lemma server_inv_step:
  assumes "kaitai_stream k view" and "ed25519_ok ed" and "server_inv ed eth cl hist db old labs sv"
    and "bodies_fit (labs @ [lab])" and "server_step k ed eth js client cl sv lab sv'"
  shows "server_inv ed eth cl hist db old (labs @ [lab]) sv'"
  using assms(5)
proof cases
  case (request fate rq ctx)
  with server_inv_request [OF assms(1,3)] assms(4) show ?thesis by simp
next
  case (timer x)
  with assms(3) intents_ok_timer [of ed eth db "ingested (labs @ [lab])" x client]
    intents_ok_mono [OF _ ingested_snoc, of ed eth db labs "Some x" lab]
  show ?thesis by (auto simp: server_inv_def receipts_ok_def watcher_ok_def)
next
  case (poll p w events w' c')
  have hon: "honest_node cl (w_contract w) (eventTopic w) hist"
    using assms(3) poll(4) by (simp add: server_inv_def watcher_ok_def)
  with poll polled_on_chain [OF hon poll(6)] Poll_exact [OF hon poll(6)] assms(3)
    intents_ok_mono [OF _ ingested_snoc, of ed eth db labs "sv_submitter sv" lab]
  show ?thesis by (simp add: server_inv_def receipts_ok_def watcher_ok_def)
next
  case (poll_fails p w events e w' c')
  with assms(3) intents_ok_mono [OF _ ingested_snoc, of ed eth db labs "sv_submitter sv" lab]
  show ?thesis by (simp add: server_inv_def receipts_ok_def watcher_ok_def)
next
  case (handle p w s ev events fate res p' s')
  have pre: "store_inv s" "seed_ok p" "on_chain eth hist ev" "list_all (on_chain eth hist) events"
    using assms(3) handle by (simp_all add: server_inv_def receipts_ok_def)
  obtain new where new: "map record_key (settlements s) = old @ new" "set new \<subseteq> log_key eth ` set hist"
    using assms(3) handle(4) by (auto simp: server_inv_def receipts_ok_def)
  obtain more where more: "map record_key (settlements s') = map record_key (settlements s) @ more" "set more \<subseteq> {event_key eth ev}"
    using Handle_keys [OF pre(1) assms(2) pre(2) handle(6)] by blast
  have "set (new @ more) \<subseteq> log_key eth ` set hist" using new(2) more(2) on_chain_key [OF pre(3)] by auto
  moreover have "map record_key (settlements s') = old @ (new @ more)" using new(1) more(1) by simp
  moreover have "store_inv s'" "seed_ok p'" using Handle_queue [OF pre(1) assms(2) pre(2) handle(6)] by auto
  ultimately have "receipts_ok eth hist old sv'"
    unfolding receipts_ok_def using handle(2) pre(4) by auto
  then show ?thesis
    using assms(3) handle(2,3) intents_ok_mono [OF _ ingested_snoc, of ed eth db labs "sv_submitter sv" lab]
    by (simp add: server_inv_def watcher_ok_def)
qed

lemma server_inv_run:
  assumes "server_run k ed eth js client cl sv0 labs sv" and "kaitai_stream k view" and "ed25519_ok ed"
    and "server_inv ed eth cl hist db old [] sv0" and "bodies_fit labs"
  shows "server_inv ed eth cl hist db old labs sv"
  using assms(1,5)
proof (induction rule: server_run.induct)
  case start
  show ?case by (rule assms(4))
next
  case (step labs sv lab sv')
  then have "bodies_fit labs" by (auto simp: bodies_fit_def)
  with step show ?case using server_inv_step [OF assms(2,3)] by blast
qed

section \<open>Answers\<close>

text \<open>Every request gets one answer, and no handler panics.\<close>

definition label_ok :: "label \<Rightarrow> bool" where
  "label_ok lab \<longleftrightarrow> (case lab of
     Served rq ctx \<Rightarrow> (\<exists>code r. responses ctx = [(code, r)] \<and> code \<in> {200, 400, 401, 404, 500, 503})
   | Handled ev res \<Rightarrow> res \<noteq> Panic
   | _ \<Rightarrow> True)"

lemma ingest_answer:
  assumes "kaitai_stream k view" and "\<And>raw. body = Inr raw \<Longrightarrow> int (length raw) < 2 ^ 63"
  shows "\<exists>q' ctx code r. IngestPacket k ed eth db enq body q NewContext = Ok (q', ctx) \<and> responses ctx = [(code, r)] \<and>
    code \<in> {200, 400, 401}"
proof (cases body)
  case (Inl e)
  then show ?thesis by (simp add: IngestPacket_def gin_simps)
next
  case (Inr raw)
  have "\<exists>code r. responses (snd (ingest_outcome ed eth db enq raw q)) = [(code, r)] \<and> code \<in> {200, 400, 401}"
    using ingest_outcome_codes by blast
  with IngestPacket_outcome [OF assms(1) assms(2) [OF Inr], of ed eth db enq q] Inr show ?thesis
    by (metis prod.collapse)
qed

lemma egress_answer:
  "\<exists>code r. responses (HandleEgressPending es NewContext) = [(code, r)] \<and> code \<in> {200, 503}"
  "\<exists>code r. responses (snd (HandleEgressAck js fate bound es NewContext)) = [(code, r)] \<and> code \<in> {200, 400, 404, 500, 503}"
  by (auto simp: HandleEgressPending_def HandleEgressAck_def gin_simps split: option.splits sum.splits prod.splits)

lemma label_ok_step:
  assumes "kaitai_stream k view" and "ed25519_ok ed" and "server_inv ed eth cl hist db old labs sv"
    and "bodies_fit [lab]" and "server_step k ed eth js client cl sv lab sv'"
  shows "label_ok lab"
  using assms(5)
proof cases
  case (request fate rq ctx)
  have fit: "\<And>raw. rq_body rq = Inr raw \<Longrightarrow> int (length raw) < 2 ^ 63"
    using assms(4) request(1) by (auto simp: bodies_fit_def)
  from request(2) show ?thesis
  proof (cases rule: serve_cases)
    case (ingest q)
    with ingest_answer [where body = "rq_body rq" and ed = ed and eth = eth and db = "sv_registry sv"
        and enq = "Enqueue client" and q = "sv_submitter sv", OF assms(1) fit] request(1)
    show ?thesis by (auto simp: label_ok_def)
  next
    case pending
    with egress_answer(1) [of "sv_store sv"] request(1) show ?thesis by (auto simp: label_ok_def)
  next
    case (ack es)
    with egress_answer(2) [of js fate "rq_json rq" "sv_store sv"] request(1) show ?thesis by (auto simp: label_ok_def)
  next
    case not_found
    with request(1) show ?thesis by (simp add: label_ok_def gin_simps)
  qed
next
  case (handle p w s ev events fate res p' s')
  have "store_inv s" "seed_ok p" using assms(3) handle by (simp_all add: server_inv_def receipts_ok_def)
  from Handle_queue [OF this(1) assms(2) this(2) handle(6)] handle(1) show ?thesis by (simp add: label_ok_def)
qed (simp_all add: label_ok_def)

lemma labels_ok_run:
  assumes "server_run k ed eth js client cl sv0 labs sv" and "kaitai_stream k view" and "ed25519_ok ed"
    and "server_inv ed eth cl hist db old [] sv0" and "bodies_fit labs"
  shows "list_all label_ok labs"
  using assms(1,5)
proof (induction rule: server_run.induct)
  case start
  show ?case by simp
next
  case (step labs sv lab sv')
  then have fit: "bodies_fit labs" "bodies_fit [lab]" by (auto simp: bodies_fit_def)
  from label_ok_step [OF assms(2,3) server_inv_run [OF step(1) assms(2-4) fit(1)] fit(2) step(2)] step(3) fit(1)
  show ?case by simp
qed

section \<open>The start\<close>

definition stored_keys :: "store option \<Rightarrow> string list" where
  "stored_keys es = (case es of None \<Rightarrow> [] | Some s \<Rightarrow> map record_key (settlements s))"

lemma start_server_inv:
  assumes "start_server ed eth js rpc abi env fs w0 c0 = Ok sv0"
    and "\<And>p w. sv_receipts sv0 = Some (p, w) \<Longrightarrow> seed_ok p \<and> honest_node cl (w_contract w) (eventTopic w) hist"
  shows "server_inv ed eth cl hist (start_registry ed) (stored_keys (sv_store sv0)) [] sv0"
proof -
  note start = start_server_Ok [OF assms(1)]
  have "intents_ok ed eth db raws (sv_submitter sv0)" for db raws
    using start(4) by (auto simp: intents_ok_def submitter_inv_New accepted_intents_def) (auto simp: NewBufferedSubmitter_def)
  moreover have "store_inv s" if "sv_store sv0 = Some s" for s
    using start(4)
  proof (elim disjE exE conjE)
    fix deps p t w es
    assume "startReceiptWatcher js abi env fs (cd_addr deps) = (Ok (p, t, w), es)" "sv_store sv0 = Some t"
    with that NewStore_inv [OF startReceiptWatcher_Ok(8)] show ?thesis by simp
  qed (use that in simp)
  ultimately show ?thesis
    using start(1,2) assms(2) by (auto simp: server_inv_def receipts_ok_def watcher_ok_def stored_keys_def)
qed

section \<open>Properties\<close>

text \<open>
  C1.  The gateway under any traffic.  Start the server with any environment and file system for which it
  starts, a 32-byte receipt seed and an honest node behind the watcher, and let requests, timer
  callbacks, polls and event handling run in any order, with any outcome of every write and every
  network call.  Then the registry is the one of the start; every intent the submitter ever
  accepted was signed, under the key registered for its satellite, in a frame that was sent to the
  ingest endpoint; the receipts are those the file held at the start, in their order, followed by
  receipts of settlements on the chain, and no settlement has two; every request was answered once, with a
  status the API documents; and no handler panics, now or on the next request.
\<close>

theorem gateway_runs_safely:
  assumes "kaitai_stream k view" and "ed25519_ok ed" and "start_server ed eth js rpc abi env fs w0 c0 = Ok sv0"
    and "\<And>p w. sv_receipts sv0 = Some (p, w) \<Longrightarrow> seed_ok p \<and> honest_node cl (w_contract w) (eventTopic w) hist"
    and "server_run k ed eth js client cl sv0 labs sv" and "bodies_fit labs"
  shows "sv_registry sv = start_registry ed \<and>
    (\<forall>x. sv_submitter sv = Some x \<longrightarrow>
       (\<forall>i \<in> set (accepted_intents x). \<exists>raw \<in> ingested labs. settles ed eth (start_registry ed) raw i)) \<and>
    (\<forall>s. sv_store sv = Some s \<longrightarrow> distinct (map record_key (settlements s)) \<and>
       (\<exists>new. map record_key (settlements s) = stored_keys (sv_store sv0) @ new \<and> set new \<subseteq> log_key eth ` set hist)) \<and>
    (\<forall>rq ctx. Served rq ctx \<in> set labs \<longrightarrow>
       (\<exists>code r. responses ctx = [(code, r)] \<and> code \<in> {200, 400, 401, 404, 500, 503})) \<and>
    (\<forall>ev. Handled ev Panic \<notin> set labs) \<and>
    (\<forall>rq fate. bodies_fit [Served rq NewContext] \<longrightarrow> serve k ed eth js client fate rq sv \<noteq> Panic)"
proof (intro conjI allI impI)
  have inv: "server_inv ed eth cl hist (start_registry ed) (stored_keys (sv_store sv0)) labs sv"
    by (rule server_inv_run [OF assms(5,1,2) start_server_inv [OF assms(3,4)] assms(6)])
  have labels: "list_all label_ok labs"
    by (rule labels_ok_run [OF assms(5,1,2) start_server_inv [OF assms(3,4)] assms(6)])
  show "sv_registry sv = start_registry ed" using inv by (simp add: server_inv_def)
  show "\<forall>i \<in> set (accepted_intents x). \<exists>raw \<in> ingested labs. settles ed eth (start_registry ed) raw i"
    if "sv_submitter sv = Some x" for x
    using inv that by (simp add: server_inv_def intents_ok_def)
  fix s assume "sv_store sv = Some s"
  with inv have s: "store_inv s"
    "\<exists>new. map record_key (settlements s) = stored_keys (sv_store sv0) @ new \<and> set new \<subseteq> log_key eth ` set hist"
    by (simp_all add: server_inv_def receipts_ok_def)
  show "distinct (map record_key (settlements s))" by (rule receipt_store.keys_distinct [OF s(1)])
  show "\<exists>new. map record_key (settlements s) = stored_keys (sv_store sv0) @ new \<and> set new \<subseteq> log_key eth ` set hist"
    by (rule s(2))
next
  have labels: "list_all label_ok labs"
    by (rule labels_ok_run [OF assms(5,1,2) start_server_inv [OF assms(3,4)] assms(6)])
  show "\<exists>code r. responses ctx = [(code, r)] \<and> code \<in> {200, 400, 401, 404, 500, 503}" if "Served rq ctx \<in> set labs" for rq ctx
    using labels that by (auto simp: list_all_iff label_ok_def)
  show "Handled ev Panic \<notin> set labs" for ev
    using labels by (auto simp: list_all_iff label_ok_def)
  fix rq fate assume "bodies_fit [Served rq NewContext]"
  then have fit: "rq_body rq = Inr raw \<Longrightarrow> int (length raw) < 2 ^ 63" for raw
    by (auto simp: bodies_fit_def)
  obtain q' ctx where "IngestPacket k ed eth (sv_registry sv) (Enqueue client) (rq_body rq) (sv_submitter sv) NewContext = Ok (q', ctx)"
    using ingest_answer [OF assms(1) fit] by blast
  then show "serve k ed eth js client fate rq sv \<noteq> Panic"
    by (simp add: serve_def outcome_simps split_beta Let_def split: outcome.split)
qed

text \<open>A start with the default configuration, for the witnesses.\<close>

definition demo_seller :: processor where
  "demo_seller = \<lparr>sellerAPID = SellerAPID100, p_seed = demo_seed, seqCount = 0\<rparr>"

definition demo_cursor :: watcher where
  "demo_cursor = \<lparr>w_contract = HexToAddress demo_eth ''0x0102'', w_interval = DefaultWatchInterval,
     eventTopic = replicate 32 7, nextBlock = 0\<rparr>"

definition demo_server_on :: "'w \<Rightarrow> ('e, 'w, u64) server" where
  "demo_server_on w0 = \<lparr>sv_registry = start_registry demo_ed,
     sv_submitter = Some \<lparr>sw_sub = NewBufferedSubmitter DefaultMaxBatch DefaultInterval, sw_chain = w0, sw_batches = [], sw_log = []\<rparr>,
     sv_store = Some (empty_store defaultReceiptsPath), sv_receipts = Some (demo_seller, demo_cursor), sv_events = [],
     sv_watching = True, sv_node = 3\<rparr>"

definition demo_server :: "(string, unit, u64) server" where
  "demo_server = demo_server_on ()"

lemma demo_receipts_start:
  "startReceiptWatcher demo_js demo_abi demo_env demo_fs (HexToAddress demo_eth ''0x0102'')
    = (Ok (demo_seller, empty_store defaultReceiptsPath, demo_cursor), Some (empty_store defaultReceiptsPath))"
proof -
  have env: "Getenv_or demo_env ''VOID_RECEIPTS_SELLER_SEED'' d = d" "Getenv_or demo_env ''VOID_RECEIPTS_PATH'' d = d" for d
    by (simp_all add: Getenv_or_def demo_env_def)
  have "demo_seed \<noteq> []" using demo_seed(2) by (auto simp: SeedSize_def)
  then show ?thesis
    by (simp add: startReceiptWatcher_def env Let_def demo_fs_def NewStore_empty demo_seed(1) NewProcessor_def
        NewWatcher_def demo_abi_def demo_seller_def demo_cursor_def DefaultWatchInterval_def)
qed

lemma demo_start: "start_server demo_ed demo_eth demo_js demo_rpc demo_abi demo_env demo_fs w0 3 = Ok (demo_server_on w0)"
proof -
  have "demo_env ''VOID_ESCROW_ADDRESS'' = ''0x0102''" by (simp add: demo_env_def)
  then obtain deps where deps: "fst (maybeInitChain demo_rpc demo_eth demo_env) = Ok (Some deps)"
    "cd_addr deps = HexToAddress demo_eth ''0x0102''"
    "cd_submitter deps = NewBufferedSubmitter DefaultMaxBatch DefaultInterval"
    by (simp add: maybeInitChain_def Let_def demo_rpc_def NewEscrowClient_def)
  then show ?thesis
    by (simp add: start_server_def start_key demo_receipts_start demo_server_on_def)
qed

lemma demo_start_unit: "start_server demo_ed demo_eth demo_js demo_rpc demo_abi demo_env demo_fs () 3 = Ok demo_server"
  by (simp add: demo_start demo_server_def)

lemma demo_receipts_laws:
  "sv_receipts (demo_server_on w0) = Some (p, w) \<Longrightarrow> p = demo_seller \<and> seed_ok p \<and> w = demo_cursor"
  using demo_seed(2) by (auto simp: demo_server_on_def demo_seller_def seed_ok_def)

lemma demo_server_laws:
  "sv_receipts demo_server = Some (p, w) \<Longrightarrow> seed_ok p \<and> honest_node demo_node (w_contract w) (eventTopic w) demo_hist"
  unfolding demo_server_def by (drule demo_receipts_laws) (auto simp: demo_node_honest)

lemma demo_poll: "\<exists>events w' c'. Poll demo_eth demo_node demo_cursor 3 = ((events, None), w', c') \<and> length events = 2"
  by (simp add: Poll_def demo_cursor_def demo_node_def log_node_def demo_hist_def demo_log_simps word_le_nat_alt word_less_nat_alt)

definition demo_request :: http_request where
  "demo_request = \<lparr>rq_method = ''GET'', rq_path = ''/api/v1/egress/pending'', rq_body = Inr [], rq_json = Inl ''EOF''\<rparr>"

theorem gateway_runs_safely_witness:
  "\<exists>events s sv ctx. server_run bytes_rt demo_ed demo_eth demo_js (\<lambda>b w. (Inl ''no node'', w)) demo_node demo_server
      [Polled, Handled (hd events) (Ok ()), Served demo_request ctx] sv \<and> length events = 2 \<and>
     sv_store sv = Some s \<and> set (map record_key (settlements s)) \<subseteq> log_key demo_eth ` set demo_hist \<and>
     (\<exists>code r. responses ctx = [(code, r)])"
proof -
  let ?client = "\<lambda>b w :: unit. (Inl ''no node'', w)"
  let ?step = "server_step bytes_rt demo_ed demo_eth demo_js ?client demo_node"
  let ?run = "server_run bytes_rt demo_ed demo_eth demo_js ?client demo_node demo_server"
  obtain ev events w' c' where poll: "Poll demo_eth demo_node demo_cursor 3 = (([ev, events], None), w', c')"
    using demo_poll by (auto simp: length_Suc_conv numeral_2_eq_2)
  define sv1 where "sv1 = demo_server\<lparr>sv_receipts := Some (demo_seller, w'), sv_events := [ev, events], sv_node := c'\<rparr>"
  have s1: "?step demo_server Polled sv1"
    unfolding sv1_def by (rule server_step.poll) (use poll in \<open>simp_all add: demo_server_def demo_server_on_def\<close>)
  obtain res p' s' where h: "Handle demo_ed demo_eth demo_js Stored ev (demo_seller, empty_store defaultReceiptsPath) = (res, p', s')"
    by (metis surj_pair)
  have seed: "seed_ok demo_seller" using demo_server_laws by (simp add: demo_server_def demo_server_on_def)
  have "res = Ok ()"
    using h Handle_new [OF store_inv_empty _ demo_ed_ok seed, of demo_eth ev defaultReceiptsPath demo_js Stored]
      demo_append by (auto simp: Let_def split_beta)
  define sv2 where "sv2 = sv1\<lparr>sv_receipts := Some (p', w'), sv_store := Some s', sv_events := [events]\<rparr>"
  have s2: "?step sv1 (Handled ev (Ok ())) sv2"
    unfolding sv2_def by (rule server_step.handle) (use h \<open>res = Ok ()\<close> in \<open>simp_all add: sv1_def demo_server_def demo_server_on_def\<close>)
  define ctx where "ctx = HandleEgressPending (sv_store sv2) NewContext"
  have s3: "?step sv2 (Served demo_request ctx) sv2"
    by (rule server_step.request [of _ _ _ _ _ Stored]) (simp add: serve_def demo_request_def ctx_def)
  have run: "?run [Polled, Handled ev (Ok ()), Served demo_request ctx] sv2"
    using server_run.step [OF server_run.step [OF server_run.step [OF server_run.start s1] s2] s3] by simp
  have fit: "bodies_fit [Polled, Handled ev (Ok ()), Served demo_request ctx]"
    by (auto simp: bodies_fit_def demo_request_def)
  note safe = gateway_runs_safely [OF bytes_stream.kaitai_stream_axioms demo_ed_ok demo_start_unit
      demo_server_laws run fit]
  have keys: "stored_keys (sv_store demo_server) = []" by (simp add: stored_keys_def demo_server_def demo_server_on_def)
  have "set (map record_key (settlements s')) \<subseteq> log_key demo_eth ` set demo_hist"
    using safe unfolding keys by (auto simp: sv2_def)
  moreover have "\<exists>code r. responses ctx = [(code, r)]"
    using safe by auto
  ultimately show ?thesis
    using run by (intro exI [of _ "[ev, events]"] exI [of _ s'] exI [of _ sv2] exI [of _ ctx]) (simp add: sv2_def)
qed

end
