(* ===== verification/Escrow.thy ===== *)
theory Escrow
  imports Submitter Watcher "HOL-Library.Sublist"
begin

text \<open>
  \<^verbatim>\<open>contracts/src/Escrow.sol\<close>: the settlement contract the gateway submits its batches to, and the two
  edges at which the Go program meets it.  A Solidity mapping is a total function whose default is the
  all-zero slot; a \<^verbatim>\<open>revert\<close> is the left value of a sum and undoes the whole call; the events of a call
  are returned in the order of emission.
\<close>

section \<open>Data\<close>

type_synonym u256 = "256 word"

datatype escrow_status = NONE | PENDING

record escrow_intent =
  ei_satId :: u32
  ei_amount :: u256
  ei_assetId :: u16
  ei_txNonce :: u256
  ei_wallet :: address

record escrow_settlement =
  es_satId :: u32
  es_amount :: u256
  es_assetId :: u16
  es_txNonce :: u256
  es_wallet :: address
  es_status :: escrow_status

record settlement_created =
  sc_satId :: u32
  sc_amount :: u256
  sc_txNonce :: u256
  sc_wallet :: address

datatype escrow_error =
    BatchEmpty
  | BatchTooLarge nat
  | InvalidAsset u16
  | DuplicateNonce u256
  | EmptyWallet

type_synonym escrow_slots = "u256 \<Rightarrow> escrow_settlement"

definition USDC_ASSET_ID :: u16 where "USDC_ASSET_ID = 1"
definition MAX_BATCH :: nat where "MAX_BATCH = 10"

text \<open>\<^verbatim>\<open>address(0)\<close>, and the slot of a nonce that was never written.\<close>

definition zero_address :: address where "zero_address = replicate 20 0"

definition zero_slot :: escrow_settlement where
  "zero_slot = \<lparr>es_satId = 0, es_amount = 0, es_assetId = 0, es_txNonce = 0, es_wallet = zero_address, es_status = NONE\<rparr>"

definition no_settlements :: escrow_slots where
  "no_settlements = (\<lambda>nonce. zero_slot)"

section \<open>The entry point\<close>

definition stored_slot :: "escrow_intent \<Rightarrow> escrow_settlement" where
  "stored_slot item = \<lparr>es_satId = ei_satId item, es_amount = ei_amount item, es_assetId = ei_assetId item,
     es_txNonce = ei_txNonce item, es_wallet = ei_wallet item, es_status = PENDING\<rparr>"

definition write_slot :: "escrow_intent \<Rightarrow> escrow_slots \<Rightarrow> escrow_slots" where
  "write_slot item s = s(ei_txNonce item := stored_slot item)"

definition created :: "escrow_intent \<Rightarrow> settlement_created" where
  "created item = \<lparr>sc_satId = ei_satId item, sc_amount = ei_amount item, sc_txNonce = ei_txNonce item,
     sc_wallet = ei_wallet item\<rparr>"

fun settle_loop ::
    "escrow_intent list \<Rightarrow> escrow_slots \<Rightarrow> settlement_created list \<Rightarrow>
     escrow_error + escrow_slots \<times> settlement_created list" where
  "settle_loop [] s evs = Inr (s, evs)"
| "settle_loop (item # rest) s evs =
     (if ei_assetId item \<noteq> USDC_ASSET_ID then Inl (InvalidAsset (ei_assetId item))
      else if ei_wallet item = zero_address then Inl EmptyWallet
      else if es_status (s (ei_txNonce item)) \<noteq> NONE then Inl (DuplicateNonce (ei_txNonce item))
      else settle_loop rest (write_slot item s) (evs @ [created item]))"

definition settleBatch ::
    "escrow_intent list \<Rightarrow> escrow_slots \<Rightarrow> escrow_error + escrow_slots \<times> settlement_created list" where
  "settleBatch intents s =
     (let n = length intents in
      if n = 0 then Inl BatchEmpty
      else if n > MAX_BATCH then Inl (BatchTooLarge n)
      else settle_loop intents s [])"

section \<open>What a call does\<close>

text \<open>The specification: when a batch is recorded, what it makes of the slots, what one entry lacks.\<close>

definition entry_error :: "escrow_slots \<Rightarrow> escrow_intent \<Rightarrow> escrow_error option" where
  "entry_error s item =
     (if ei_assetId item \<noteq> 1 then Some (InvalidAsset (ei_assetId item))
      else if ei_wallet item = zero_address then Some EmptyWallet
      else if es_status (s (ei_txNonce item)) = PENDING then Some (DuplicateNonce (ei_txNonce item))
      else None)"

definition settled :: "escrow_intent list \<Rightarrow> escrow_slots \<Rightarrow> escrow_slots" where
  "settled items s = fold write_slot items s"

definition settleable :: "escrow_slots \<Rightarrow> escrow_intent list \<Rightarrow> bool" where
  "settleable s items \<longleftrightarrow> list_all (\<lambda>item. entry_error s item = None) items \<and> distinct (map ei_txNonce items)"

lemma status_cases: "st \<noteq> NONE \<longleftrightarrow> st = PENDING"
  by (cases st) simp_all

lemma entry_error_None:
  "entry_error s item = None \<longleftrightarrow>
     ei_assetId item = 1 \<and> ei_wallet item \<noteq> zero_address \<and> es_status (s (ei_txNonce item)) = NONE"
  by (cases "es_status (s (ei_txNonce item))") (auto simp: entry_error_def)

lemma settled_simps [simp]:
  "settled [] s = s" "settled (item # items) s = settled items (write_slot item s)"
  "settled (xs @ ys) s = settled ys (settled xs s)"
  by (simp_all add: settled_def)

lemma settled_other: "n \<notin> ei_txNonce ` set items \<Longrightarrow> settled items s n = s n"
  by (induction items arbitrary: s) (auto simp: write_slot_def)

lemma settled_status:
  "es_status (settled items s n) = (if n \<in> ei_txNonce ` set items then PENDING else es_status (s n))"
  by (induction items arbitrary: s) (auto simp: write_slot_def stored_slot_def)

lemma settled_entry:
  assumes "distinct (map ei_txNonce items)" and "item \<in> set items"
  shows "settled items s (ei_txNonce item) = stored_slot item"
  using assms
proof (induction items arbitrary: s)
  case (Cons x items)
  then show ?case by (cases "item = x") (auto simp: settled_other write_slot_def)
qed simp

lemma entry_error_settled:
  "entry_error (settled items s) item = None \<longleftrightarrow> entry_error s item = None \<and> ei_txNonce item \<notin> ei_txNonce ` set items"
  by (auto simp: entry_error_def settled_status)

lemma settleable_Cons:
  "settleable s (item # items) \<longleftrightarrow>
     entry_error s item = None \<and> settleable (write_slot item s) items"
  using entry_error_settled [of "[item]" s] by (auto simp: settleable_def list_all_iff) (metis imageI)+

lemma settle_loop_step:
  "settle_loop (item # rest) s evs = (case entry_error s item of Some e \<Rightarrow> Inl e
     | None \<Rightarrow> settle_loop rest (write_slot item s) (evs @ [created item]))"
  by (simp add: entry_error_def USDC_ASSET_ID_def status_cases)

lemma settle_loop_Inr:
  "settle_loop items s evs = Inr (s', evs') \<longleftrightarrow>
     settleable s items \<and> s' = settled items s \<and> evs' = evs @ map created items"
proof (induction items arbitrary: s evs)
  case Nil
  then show ?case by (auto simp: settleable_def)
next
  case (Cons item rest)
  then show ?case
    by (cases "entry_error s item") (simp_all add: settle_loop_step settleable_Cons del: settle_loop.simps)
qed

text \<open>A revert reports the first entry that fails against the slots as the earlier entries leave them.\<close>

lemma ex_split_Cons:
  "(\<exists>pre y post. x # xs = pre @ y # post \<and> P pre y) \<longleftrightarrow>
     P [] x \<or> (\<exists>pre y post. xs = pre @ y # post \<and> P (x # pre) y)"
  by (auto simp: Cons_eq_append_conv)

lemma settle_loop_Inl:
  "settle_loop items s evs = Inl e \<longleftrightarrow>
     (\<exists>pre item post. items = pre @ item # post \<and> settleable s pre \<and> entry_error (settled pre s) item = Some e)"
proof (induction items arbitrary: s evs)
  case Nil
  then show ?case by simp
next
  case (Cons x rest)
  have "settleable s []" by (simp add: settleable_def)
  with Cons show ?case
    unfolding ex_split_Cons [where P = "\<lambda>pre item. settleable s pre \<and> entry_error (settled pre s) item = Some e"]
    by (cases "entry_error s x") (simp_all add: settle_loop_step settleable_Cons del: settle_loop.simps)
qed

section \<open>Reachable states\<close>

text \<open>
  The contract with the events it has emitted.  A transaction that reverts leaves both as they were.
  There is no access control: any batch may come from anyone.
\<close>

record escrow =
  slots :: escrow_slots
  emitted :: "settlement_created list"

definition deployed :: escrow where
  "deployed = \<lparr>slots = no_settlements, emitted = []\<rparr>"

definition escrow_tx :: "escrow_intent list \<Rightarrow> escrow \<Rightarrow> escrow" where
  "escrow_tx items x = (case settleBatch items (slots x) of
     Inl e \<Rightarrow> x
   | Inr (s, evs) \<Rightarrow> \<lparr>slots = s, emitted = emitted x @ evs\<rparr>)"

lemma settleBatch_Inr:
  "settleBatch items s = Inr (s', evs) \<longleftrightarrow>
     items \<noteq> [] \<and> length items \<le> 10 \<and> settleable s items \<and> s' = settled items s \<and> evs = map created items"
  by (auto simp: settleBatch_def MAX_BATCH_def settle_loop_Inr Let_def)

lemma escrow_tx_cases:
  obtains (reverts) e where "settleBatch items (slots x) = Inl e" "escrow_tx items x = x"
    | (settles) "settleable (slots x) items"
        "escrow_tx items x = \<lparr>slots = settled items (slots x), emitted = emitted x @ map created items\<rparr>"
proof (cases "settleBatch items (slots x)")
  case (Inl e)
  then show thesis by (intro reverts) (simp_all add: escrow_tx_def)
next
  case (Inr r)
  moreover obtain s evs where "r = (s, evs)" by (cases r)
  ultimately show thesis
    using settleBatch_Inr [of items "slots x" s evs] by (intro settles) (simp_all add: escrow_tx_def)
qed

text \<open>
  Slots and events tell the same story: a slot is taken exactly when its nonce was announced, by one
  event, and then holds what the event says.
\<close>

definition escrow_inv :: "escrow \<Rightarrow> bool" where
  "escrow_inv x \<longleftrightarrow> distinct (map sc_txNonce (emitted x)) \<and>
     (\<forall>n. es_status (slots x n) = PENDING \<longleftrightarrow> n \<in> sc_txNonce ` set (emitted x)) \<and>
     (\<forall>ev \<in> set (emitted x). slots x (sc_txNonce ev) = \<lparr>es_satId = sc_satId ev, es_amount = sc_amount ev,
        es_assetId = 1, es_txNonce = sc_txNonce ev, es_wallet = sc_wallet ev, es_status = PENDING\<rparr> \<and>
        sc_wallet ev \<noteq> zero_address)"

lemma escrow_inv_deployed: "escrow_inv deployed"
  by (simp add: escrow_inv_def deployed_def no_settlements_def zero_slot_def)

lemma created_nonces: "sc_txNonce ` set (map created items) = ei_txNonce ` set items"
  by (simp add: image_image created_def)

lemma escrow_inv_tx:
  assumes "escrow_inv x"
  shows "escrow_inv (escrow_tx items x)"
proof (cases rule: escrow_tx_cases [of items x])
  case reverts
  with assms show ?thesis by simp
next
  case settles
  have fresh: "n \<notin> sc_txNonce ` set (emitted x)" if "n \<in> ei_txNonce ` set items" for n
    using that settles(1) assms by (auto simp: settleable_def list_all_iff entry_error_def escrow_inv_def split: if_splits)
  have old: "settled items (slots x) (sc_txNonce ev) = slots x (sc_txNonce ev)" if "ev \<in> set (emitted x)" for ev
    using fresh that by (intro settled_other) blast
  have new: "settled items (slots x) (ei_txNonce item) = stored_slot item" if "item \<in> set items" for item
    using settles(1) that by (intro settled_entry) (simp_all add: settleable_def)
  have good: "ei_assetId item = 1 \<and> ei_wallet item \<noteq> zero_address" if "item \<in> set items" for item
    using settles(1) that by (auto simp: settleable_def list_all_iff entry_error_def split: if_splits)
  have "distinct (map sc_txNonce (emitted x @ map created items))"
    using assms settles(1) fresh by (auto simp: escrow_inv_def settleable_def created_def comp_def)
  moreover have "es_status (settled items (slots x) n) = PENDING \<longleftrightarrow> n \<in> sc_txNonce ` set (emitted x @ map created items)" for n
    using assms created_nonces [of items] by (auto simp: escrow_inv_def settled_status image_Un)
  moreover have "settled items (slots x) (sc_txNonce ev) = \<lparr>es_satId = sc_satId ev, es_amount = sc_amount ev,
        es_assetId = 1, es_txNonce = sc_txNonce ev, es_wallet = sc_wallet ev, es_status = PENDING\<rparr> \<and> sc_wallet ev \<noteq> zero_address"
    if "ev \<in> set (emitted x @ map created items)" for ev
    using that assms old new good by (auto simp: escrow_inv_def created_def stored_slot_def)
  ultimately show ?thesis by (simp add: escrow_inv_def settles(2))
qed

section \<open>The log of a settlement\<close>

text \<open>
  \<^verbatim>\<open>emit SettlementCreated(...)\<close>: the topics are the event id and the three indexed arguments, the data is
  the amount, each padded to 32 bytes.
\<close>

definition created_log :: "byte list \<Rightarrow> txhash \<Rightarrow> u64 \<Rightarrow> nat \<times> settlement_created \<Rightarrow> eth_log" where
  "created_log topic h n = (\<lambda>(k, ev).
     \<lparr>log_Topics = [topic, be_bytes 32 (sc_satId ev), be_bytes 32 (sc_txNonce ev), replicate 12 0 @ sc_wallet ev],
      log_Data = be_bytes 32 (sc_amount ev), log_TxHash = h, log_BlockNumber = n, log_Index = k\<rparr>)"

definition created_logs :: "byte list \<Rightarrow> txhash \<Rightarrow> u64 \<Rightarrow> nat \<Rightarrow> settlement_created list \<Rightarrow> eth_log list" where
  "created_logs topic h n k evs = map (created_log topic h n) (enumerate k evs)"

text \<open>\<^verbatim>\<open>common.BytesToAddress\<close> keeps the last 20 bytes; \<^verbatim>\<open>common.HexToAddress\<close> gives an address.\<close>

definition address_ok :: "eth_lib \<Rightarrow> bool" where
  "address_ok eth \<longleftrightarrow> (\<forall>bs. length bs = 32 \<longrightarrow> BytesToAddress eth bs = drop 12 bs) \<and>
     (\<forall>s. length (HexToAddress eth s) = 20)"

lemma be_bytes_Suc: "be_bytes (Suc n) w = be_bytes n (drop_bit 8 w) @ [ucast w]"
proof -
  have "le_bytes (Suc n) w = ucast w # le_bytes n (drop_bit 8 w)"
    by (rule nth_equalityI) (auto simp: nth_le_bytes nth_Cons drop_bit_drop_bit add.commute split: nat.split)
  then show ?thesis by (simp add: be_bytes_def)
qed

lemma SetBytes_be_bytes: "unat w < 256 ^ n \<Longrightarrow> SetBytes (be_bytes n w) = unat (w :: u256)"
proof (induction n arbitrary: w)
  case 0
  then show ?case by (simp add: SetBytes_def be_bytes_def le_bytes_def)
next
  case (Suc n)
  have shift: "unat (drop_bit 8 w) = unat w div 256"
    by (simp add: drop_bit_eq_div unat_div)
  moreover have "unat (ucast w :: byte) = unat w mod 256"
    by (simp add: unsigned_ucast_eq take_bit_eq_mod)
  moreover have "unat w div 256 < 256 ^ n"
    using Suc.prems by (simp add: div_less_iff_less_mult mult.commute)
  ultimately show ?case
    using Suc.IH [of "drop_bit 8 w"] by (simp add: be_bytes_Suc SetBytes_snoc)
qed

lemma SetBytes_u256: "SetBytes (be_bytes 32 w) = unat (w :: u256)"
  using unsigned_less [where 'a = nat, of w] by (intro SetBytes_be_bytes) (simp add: power_mult [of 2 8 32, simplified])

lemma be_word_satId: "be_word (seg (be_bytes 32 w) 28 32) = (w :: u32)"
proof -
  have "seg (be_bytes 32 w) 28 32 = be_bytes 4 w"
    by (rule nth_equalityI) (auto simp: nth_seg be_bytes_def rev_nth nth_le_bytes)
  then show ?thesis by (simp add: be_word_be_bytes)
qed

definition event_for :: "settlement_intent \<Rightarrow> txhash \<Rightarrow> u64 \<Rightarrow> settlement_event" where
  "event_for i h n = \<lparr>ev_SatID = in_SatId i, ev_Amount = in_Amount i, ev_TxNonce = in_TxNonce i,
     ev_Wallet = in_Wallet i, ev_TxHash = h, ev_BlockNumber = n, ev_BlockTimeSec = 0\<rparr>"

section \<open>The client's side of the call\<close>

text \<open>
  The argument of \<^verbatim>\<open>Transact(..., "settleBatch", intents)\<close> is encoded field by field into the contract's
  tuple; numbers keep their low 256 bits.
\<close>

definition abi_intent :: "settlement_intent \<Rightarrow> escrow_intent" where
  "abi_intent i = \<lparr>ei_satId = in_SatId i, ei_amount = word_of_nat (in_Amount i), ei_assetId = in_AssetId i,
     ei_txNonce = word_of_nat (in_TxNonce i), ei_wallet = in_Wallet i\<rparr>"

definition encodable :: "settlement_intent \<Rightarrow> bool" where
  "encodable i \<longleftrightarrow> in_Amount i < 2 ^ 256 \<and> in_TxNonce i < 2 ^ 256 \<and> length (in_Wallet i) = 20"

lemma decode_created_log:
  assumes "address_ok eth" and "encodable i"
  shows "decodeSettlementCreated eth (created_log topic h n (k, created (abi_intent i))) = Inr (event_for i h n)"
proof -
  have "BytesToAddress eth (replicate 12 0 @ in_Wallet i) = in_Wallet i"
    using assms by (simp add: address_ok_def encodable_def)
  moreover have "unat (word_of_nat m :: u256) = m" if "m < 2 ^ 256" for m
    using that by (simp add: unat_of_nat)
  ultimately show ?thesis
    using assms(2)
    by (simp add: decodeSettlementCreated_def created_log_def created_def abi_intent_def event_for_def encodable_def
        be_word_satId SetBytes_u256 Let_def)
qed

section \<open>The node\<close>

text \<open>
  What a call of \<^verbatim>\<open>Transact\<close> does to the chain: the batch is executed by the contract in one block, or
  nothing happens to the contract.  \<^verbatim>\<open>executes\<close> is the first case.
\<close>

definition executes ::
    "byte list \<Rightarrow> ('w \<Rightarrow> escrow_slots) \<Rightarrow> ('w \<Rightarrow> eth_log list) \<Rightarrow> settlement_intent list \<Rightarrow> txhash \<Rightarrow> 'w \<Rightarrow> 'w \<Rightarrow> bool" where
  "executes topic sl lg intents h w w' \<longleftrightarrow>
     (\<exists>s evs n k. settleBatch (map abi_intent intents) (sl w) = Inr (s, evs) \<and> sl w' = s \<and>
        lg w' = lg w @ created_logs topic h n k evs \<and> length h = 32)"

definition unmoved :: "('w \<Rightarrow> escrow_slots) \<Rightarrow> ('w \<Rightarrow> eth_log list) \<Rightarrow> 'w \<Rightarrow> 'w \<Rightarrow> bool" where
  "unmoved sl lg w w' \<longleftrightarrow> sl w' = sl w \<and> lg w' = lg w"

lemma executes_unmoved:
  "executes topic sl lg b h w w1 \<Longrightarrow> unmoved sl lg w1 w2 \<Longrightarrow> executes topic sl lg b h w w2"
  "unmoved sl lg w w1 \<Longrightarrow> executes topic sl lg b h w1 w2 \<Longrightarrow> executes topic sl lg b h w w2"
  "unmoved sl lg w w1 \<Longrightarrow> unmoved sl lg w1 w2 \<Longrightarrow> unmoved sl lg w w2"
  by (simp_all add: unmoved_def executes_def)

text \<open>A batch that was recorded reverts when it is sent again.\<close>

lemma executes_twice:
  assumes "executes topic sl lg b h w w'"
  shows "\<not> executes topic sl lg b h' w' w''"
proof
  assume "executes topic sl lg b h' w' w''"
  then have again: "settleable (sl w') (map abi_intent b)" by (auto simp: executes_def settleBatch_Inr)
  from assms obtain i bs where b: "b = i # bs" and s: "sl w' = settled (map abi_intent b) (sl w)"
    by (cases b) (auto simp: executes_def settleBatch_Inr)
  have "es_status (sl w' (ei_txNonce (abi_intent i))) = PENDING"
    by (simp add: s settled_status b del: settled_simps)
  with again show False by (simp add: b settleable_Cons entry_error_def split: if_splits)
qed

text \<open>
  The laws of the node for the client.  An accepted submission may still revert when it is mined, and
  one that was reported as failed may have been executed: the connection can break in between.  The
  laws are those of a closed world: nothing but this client's calls moves the contract, although it
  has no access control.  A \<^verbatim>\<open>live_node\<close> also accepts every batch the contract accepts.
\<close>

locale escrow_node =
  fixes transact :: "'w transactor" and sl :: "'w \<Rightarrow> escrow_slots" and lg :: "'w \<Rightarrow> eth_log list" and topic :: "byte list"
  assumes transact_law: "transact intents w = (r, w') \<Longrightarrow>
      unmoved sl lg w w' \<or> (\<exists>h. executes topic sl lg intents h w w' \<and> (\<forall>h'. r = Inr h' \<longrightarrow> h' = h))"
begin

lemma SettleBatch_law:
  "SettleBatch transact b w = (r, w') \<Longrightarrow> unmoved sl lg w w' \<or> (\<exists>h. executes topic sl lg b h w w')"
  using transact_law [of b w _ w']
  by (cases "transact b w") (auto simp: SettleBatch_def unmoved_def split: if_splits sum.splits)

text \<open>The retry never settles a batch twice.\<close>

lemma submit_once:
  assumes "submit (SettleBatch transact) b w = (evs, w')"
  shows "unmoved sl lg w w' \<or> (\<exists>h. executes topic sl lg b h w w')"
proof -
  let ?moves = "\<lambda>u v. unmoved sl lg u v \<or> (\<exists>h. executes topic sl lg b h u v)"
  obtain r1 w1 r2 w2 where tries: "SettleBatch transact b w = (r1, w1)" "SettleBatch transact b w1 = (r2, w2)"
    by (metis surj_pair)
  have "w' = w \<or> w' = w1 \<or> w' = w2"
    using assms tries by (cases r1; cases r2)
      (auto simp: submit_retries_once split: if_splits)
  moreover have "?moves w w" by (simp add: unmoved_def)
  moreover have one: "?moves w w1" and two: "?moves w1 w2"
    using SettleBatch_law tries by blast+
  moreover have "?moves w w2"
  proof (cases "unmoved sl lg w w1")
    case True
    with two executes_unmoved(2,3) [OF True] show ?thesis by blast
  next
    case False
    with one obtain h where ex: "executes topic sl lg b h w w1" by blast
    with two executes_twice [OF ex] have "unmoved sl lg w1 w2" by auto
    with executes_unmoved(1) [OF ex] show ?thesis by blast
  qed
  ultimately show ?thesis by auto
qed

text \<open>A batch the contract would revert is lost as a whole.\<close>

lemma submit_revert:
  assumes "submit (SettleBatch transact) b w = (evs, w')" and "\<not> settleable (sl w) (map abi_intent b)"
  shows "unmoved sl lg w w'"
  using submit_once [OF assms(1)] assms(2) by (auto simp: executes_def settleBatch_Inr)

end

locale live_node = escrow_node +
  assumes accepts: "settleBatch (map abi_intent intents) (sl w) = Inr x \<Longrightarrow>
      \<exists>h w'. transact intents w = (Inr h, w') \<and> executes topic sl lg intents h w w'"
begin

lemma submit_settles:
  assumes "b \<noteq> []" and "length b \<le> 10" and "settleable (sl w) (map abi_intent b)"
  shows "\<exists>h w'. submit (SettleBatch transact) b w = ([SettleOk (length b) h 1], w') \<and> executes topic sl lg b h w w'"
proof -
  obtain h w' where "transact b w = (Inr h, w')" "executes topic sl lg b h w w'"
    using accepts [of b w "(settled (map abi_intent b) (sl w), map created (map abi_intent b))"] assms
      settleBatch_Inr [of "map abi_intent b" "sl w"] by auto
  with assms(1) show ?thesis
    by (simp add: submit_retries_once SettleBatch_def)
qed

end

section \<open>The account of a submitter\<close>

text \<open>
  Logs that announce intents, one each, in order; and what a submitter has done to the contract since
  the world \<^verbatim>\<open>w0\<close>: some of its batches were recorded, each as a whole and once, in order.
\<close>

definition announces :: "byte list \<Rightarrow> settlement_intent list \<Rightarrow> eth_log list \<Rightarrow> bool" where
  "announces topic intents logs \<longleftrightarrow> list_all2 (\<lambda>i l. \<exists>h n k. length h = 32 \<and>
     l = created_log topic h n (k, created (abi_intent i))) intents logs"

definition chain_account ::
    "byte list \<Rightarrow> ('w \<Rightarrow> escrow_slots) \<Rightarrow> ('w \<Rightarrow> eth_log list) \<Rightarrow> 'w \<Rightarrow> settlement_intent list list \<Rightarrow> 'w \<Rightarrow> bool" where
  "chain_account topic sl lg w0 batches w \<longleftrightarrow>
     (\<exists>bs logs. subseq bs batches \<and> lg w = lg w0 @ logs \<and> announces topic (concat bs) logs \<and>
        settleable (sl w0) (map abi_intent (concat bs)) \<and> sl w = settled (map abi_intent (concat bs)) (sl w0))"

lemma announces_created_logs:
  "length h = 32 \<Longrightarrow> announces topic b (created_logs topic h n k (map created (map abi_intent b)))"
  by (auto simp: announces_def created_logs_def list_all2_conv_all_nth nth_enumerate_eq)

lemma announces_append: "announces topic xs ls \<Longrightarrow> announces topic ys ms \<Longrightarrow> announces topic (xs @ ys) (ls @ ms)"
  by (simp add: announces_def list_all2_appendI)

lemma settleable_append:
  "settleable s (xs @ ys) \<longleftrightarrow> settleable s xs \<and> settleable (settled xs s) ys"
  by (induction xs arbitrary: s) (simp_all add: settleable_Cons, simp add: settleable_def)

lemma chain_account_start: "chain_account topic sl lg w [] w"
  unfolding chain_account_def
  by (intro exI [of _ "[]"]) (simp add: announces_def settleable_def)

lemma chain_account_unmoved:
  assumes "chain_account topic sl lg w0 bs w" and "unmoved sl lg w w'"
  shows "chain_account topic sl lg w0 (bs @ cs) w'"
  using assms subseq_order.trans [OF _ subseq_rev_drop_many [OF subseq_order.refl, of bs cs]]
  unfolding chain_account_def unmoved_def by fastforce

lemma chain_account_executes:
  assumes "chain_account topic sl lg w0 batches w" and "executes topic sl lg b h w w'"
  shows "chain_account topic sl lg w0 (batches @ [b]) w'"
proof -
  from assms(1) obtain bs logs where acc: "subseq bs batches" "lg w = lg w0 @ logs" "announces topic (concat bs) logs"
    "settleable (sl w0) (map abi_intent (concat bs))" "sl w = settled (map abi_intent (concat bs)) (sl w0)"
    by (auto simp: chain_account_def)
  from assms(2) obtain n k where ex: "settleable (sl w) (map abi_intent b)" "sl w' = settled (map abi_intent b) (sl w)"
    "lg w' = lg w @ created_logs topic h n k (map created (map abi_intent b))" "length h = 32"
    by (auto simp: executes_def settleBatch_Inr)
  let ?logs = "logs @ created_logs topic h n k (map created (map abi_intent b))"
  have "announces topic (concat (bs @ [b])) ?logs"
    using announces_append [OF acc(3) announces_created_logs [OF ex(4)]] by simp
  moreover have "settleable (sl w0) (map abi_intent (concat (bs @ [b])))"
    using acc(4,5) ex(1) by (simp add: settleable_append del: map_concat)
  ultimately show ?thesis
    unfolding chain_account_def using acc ex(2,3)
    by (intro exI [of _ "bs @ [b]"] exI [of _ ?logs]) (simp add: list_emb_append_mono del: map_concat)
qed

text \<open>The contract is paid out of the batches the submitter took, whatever the node answered.\<close>

context escrow_node
begin

lemma run_submit_account:
  assumes "chain_account topic sl lg w0 (sw_batches x) (sw_chain x)"
  shows "chain_account topic sl lg w0 (sw_batches (run_submit (SettleBatch transact) b x))
    (sw_chain (run_submit (SettleBatch transact) b x))"
proof (cases "b = []")
  case True
  with assms show ?thesis by (simp add: run_submit_def)
next
  case False
  obtain evs w' where run: "submit (SettleBatch transact) b (sw_chain x) = (evs, w')"
    by (cases "submit (SettleBatch transact) b (sw_chain x)")
  with submit_once [OF run] chain_account_unmoved [OF assms] chain_account_executes [OF assms] False
  show ?thesis by (auto simp: run_submit_def)
qed

lemma account_steps:
  assumes "chain_account topic sl lg w0 (sw_batches x) (sw_chain x)"
  shows "chain_account topic sl lg w0 (sw_batches (Enqueue (SettleBatch transact) i x)) (sw_chain (Enqueue (SettleBatch transact) i x))"
    and "chain_account topic sl lg w0 (sw_batches (onTimer (SettleBatch transact) x)) (sw_chain (onTimer (SettleBatch transact) x))"
    and "chain_account topic sl lg w0 (sw_batches (snd (Flush (SettleBatch transact) x))) (sw_chain (snd (Flush (SettleBatch transact) x)))"
    and "chain_account topic sl lg w0 (sw_batches (Stop (SettleBatch transact) x)) (sw_chain (Stop (SettleBatch transact) x))"
proof -
  have sub: "chain_account topic sl lg w0 (sw_batches (run_submit (SettleBatch transact) b (x\<lparr>sw_sub := s\<rparr>)))
      (sw_chain (run_submit (SettleBatch transact) b (x\<lparr>sw_sub := s\<rparr>)))" for b s
    by (rule run_submit_account) (simp add: assms)
  show "chain_account topic sl lg w0 (sw_batches (Enqueue (SettleBatch transact) i x)) (sw_chain (Enqueue (SettleBatch transact) i x))"
    using sub assms by (simp add: Enqueue_def Let_def split_beta del: run_submit_simps split: option.split)
  show "chain_account topic sl lg w0 (sw_batches (snd (Flush (SettleBatch transact) x))) (sw_chain (snd (Flush (SettleBatch transact) x)))"
    using sub assms by (simp add: Flush_def Let_def split_beta del: run_submit_simps)
qed (use run_submit_account [of w0 "x\<lparr>sw_sub := s\<rparr>" for s] assms in
    \<open>simp_all add: onTimer_def Stop_def Let_def split_beta del: run_submit_simps\<close>)

end

section \<open>A simulated backend\<close>

text \<open>A node in memory that executes every transaction at once, as the gateway's tests and Anvil do.\<close>

record sim_chain =
  sim_slots :: escrow_slots
  sim_logs :: "eth_log list"

definition sim_block :: "sim_chain \<Rightarrow> u64" where
  "sim_block w = word_of_nat (length (sim_logs w)) + 1"

definition sim_hash :: "sim_chain \<Rightarrow> txhash" where
  "sim_hash w = be_bytes 32 (sim_block w)"

definition sim_transact :: "byte list \<Rightarrow> sim_chain transactor" where
  "sim_transact topic intents w =
     (case settleBatch (map abi_intent intents) (sim_slots w) of
        Inl e \<Rightarrow> (Inl ''execution reverted'', w)
      | Inr (s, evs) \<Rightarrow> (Inr (sim_hash w),
          \<lparr>sim_slots = s, sim_logs = sim_logs w @ created_logs topic (sim_hash w) (sim_block w) 0 evs\<rparr>))"

definition sim_deployed :: sim_chain where
  "sim_deployed = \<lparr>sim_slots = no_settlements, sim_logs = []\<rparr>"

lemma sim_executes:
  assumes "settleBatch (map abi_intent intents) (sim_slots w) = Inr (s, evs)"
  shows "executes topic sim_slots sim_logs intents (sim_hash w) w
    \<lparr>sim_slots = s, sim_logs = sim_logs w @ created_logs topic (sim_hash w) (sim_block w) 0 evs\<rparr>"
  using assms by (auto simp: executes_def sim_hash_def)

interpretation sim: live_node "sim_transact topic" sim_slots sim_logs topic
proof unfold_locales
  fix intents r and w w' :: sim_chain
  assume "sim_transact topic intents w = (r, w')"
  then show "unmoved sim_slots sim_logs w w' \<or>
      (\<exists>h. executes topic sim_slots sim_logs intents h w w' \<and> (\<forall>h'. r = Inr h' \<longrightarrow> h' = h))"
    using sim_executes by (auto simp: sim_transact_def unmoved_def split: sum.splits prod.splits)
next
  fix intents x and w :: sim_chain
  assume "settleBatch (map abi_intent intents) (sim_slots w) = Inr x"
  moreover obtain s evs where "x = (s, evs)" by (cases x)
  ultimately show "\<exists>h w'. sim_transact topic intents w = (Inr h, w') \<and> executes topic sim_slots sim_logs intents h w w'"
    using sim_executes by (auto simp: sim_transact_def)
qed

section \<open>Properties\<close>

text \<open>
  C34.  \<^verbatim>\<open>settleBatch\<close> is all or nothing.  It succeeds exactly on a batch of one to ten entries, all of them
  USDC with a non-zero wallet and a nonce that was never used, no two with the same nonce; then
  every entry is stored as pending under its nonce, no other slot changes, and there is one event per
  entry in their order.  Otherwise it reverts, naming the empty or oversized batch or else the first
  entry that fails, checked for its asset, its wallet and then its nonce, after the entries before it.
\<close>

theorem settleBatch_all_or_nothing:
  "case settleBatch items s of
     Inr (s', evs) \<Rightarrow> items \<noteq> [] \<and> length items \<le> 10 \<and> distinct (map ei_txNonce items) \<and>
       list_all (\<lambda>item. ei_assetId item = 1 \<and> ei_wallet item \<noteq> zero_address \<and> es_status (s (ei_txNonce item)) = NONE) items \<and>
       list_all (\<lambda>item. s' (ei_txNonce item) = \<lparr>es_satId = ei_satId item, es_amount = ei_amount item, es_assetId = 1,
           es_txNonce = ei_txNonce item, es_wallet = ei_wallet item, es_status = PENDING\<rparr>) items \<and>
       (\<forall>n. n \<in> ei_txNonce ` set items \<or> s' n = s n) \<and>
       evs = map (\<lambda>item. \<lparr>sc_satId = ei_satId item, sc_amount = ei_amount item, sc_txNonce = ei_txNonce item,
           sc_wallet = ei_wallet item\<rparr>) items
   | Inl e \<Rightarrow> (e = BatchEmpty \<and> items = []) \<or> (e = BatchTooLarge (length items) \<and> 10 < length items) \<or>
       (\<exists>pre item post. items = pre @ item # post \<and> settleable s pre \<and> entry_error (settled pre s) item = Some e)"
proof (cases "settleBatch items s")
  case (Inl e)
  then show ?thesis
    by (auto simp: settleBatch_def MAX_BATCH_def Let_def settle_loop_Inl split: if_splits)
next
  case (Inr x)
  obtain s' evs where x: "x = (s', evs)" by (cases x)
  have *: "items \<noteq> []" "length items \<le> 10" "settleable s items" "s' = settled items s" "evs = map created items"
    using Inr x settleBatch_Inr by auto
  have "settled items s (ei_txNonce item) = stored_slot item" "ei_assetId item = 1" if "item \<in> set items" for item
    using *(3) settled_entry that by (auto simp: settleable_def list_all_iff entry_error_None)
  then have "list_all (\<lambda>item. settled items s (ei_txNonce item) = \<lparr>es_satId = ei_satId item, es_amount = ei_amount item,
      es_assetId = 1, es_txNonce = ei_txNonce item, es_wallet = ei_wallet item, es_status = PENDING\<rparr>) items"
    by (simp add: list_all_iff stored_slot_def)
  moreover have "\<forall>n. n \<in> ei_txNonce ` set items \<or> settled items s n = s n"
    using settled_other [of _ items s] by blast
  ultimately show ?thesis
    using Inr x * by (simp add: settleable_def entry_error_None created_def [abs_def])
qed

text \<open>
  C15.  The ledger of the contract.  After any sequence of calls, from anyone and whatever they contain, a
  slot is pending exactly when its nonce was announced, and by one event only; it holds the
  satellite, amount and wallet of that event, USDC as its asset, its own nonce, and a wallet that is
  not zero.  Whatever calls follow, a slot that was taken keeps its contents and the events already
  emitted stay as they are.
\<close>

theorem escrow_ledger_is_write_once:
  "let x = fold escrow_tx calls deployed; y = fold escrow_tx more_calls x in
     distinct (map sc_txNonce (emitted x)) \<and>
     (\<forall>n. es_status (slots x n) = PENDING \<longleftrightarrow> n \<in> sc_txNonce ` set (emitted x)) \<and>
     (\<forall>ev \<in> set (emitted x). slots x (sc_txNonce ev) = \<lparr>es_satId = sc_satId ev, es_amount = sc_amount ev,
        es_assetId = 1, es_txNonce = sc_txNonce ev, es_wallet = sc_wallet ev, es_status = PENDING\<rparr> \<and>
        sc_wallet ev \<noteq> zero_address) \<and>
     (\<forall>n. es_status (slots x n) = PENDING \<longrightarrow> slots y n = slots x n) \<and> prefix (emitted x) (emitted y)"
proof -
  have inv: "escrow_inv (fold escrow_tx cs x)" if "escrow_inv x" for cs x
    using that by (induction cs arbitrary: x) (simp_all add: escrow_inv_tx)
  have step: "(es_status (slots x n) = PENDING \<longrightarrow> slots (escrow_tx c x) n = slots x n) \<and> prefix (emitted x) (emitted (escrow_tx c x))"
    for c x n
  proof (cases rule: escrow_tx_cases [of c x])
    case settles
    have "n \<notin> ei_txNonce ` set c" if "es_status (slots x n) = PENDING"
      using that settles(1) by (auto simp: settleable_def list_all_iff entry_error_def split: if_splits)
    with settles(2) settled_other show ?thesis by auto
  qed simp
  have later: "(es_status (slots x n) = PENDING \<longrightarrow> slots (fold escrow_tx cs x) n = slots x n) \<and>
      prefix (emitted x) (emitted (fold escrow_tx cs x))" for cs x n
  proof (induction cs arbitrary: x)
    case (Cons c cs)
    then show ?case using step [of x n c] Cons [of "escrow_tx c x"] by (auto intro: prefix_order.trans)
  qed simp
  show ?thesis
    using inv [OF escrow_inv_deployed, of calls] later [of "fold escrow_tx calls deployed" _ more_calls]
    unfolding Let_def escrow_inv_def by blast
qed

definition demo_settlement :: "nat \<Rightarrow> settlement_intent" where
  "demo_settlement n = (demo_intent n)\<lparr>in_Wallet := replicate 20 7\<rparr>"

lemma demo_settlements_settleable:
  "settleable no_settlements (map abi_intent [demo_settlement 3, demo_settlement 4])"
  by (simp add: settleable_def entry_error_None no_settlements_def zero_slot_def abi_intent_def demo_settlement_def
      demo_intent_def zero_address_def)

theorem escrow_ledger_is_write_once_witness:
  "let item = abi_intent (demo_settlement 3);
       x = escrow_tx [item] deployed; y = escrow_tx [item\<lparr>ei_amount := 5\<rparr>] x
   in es_status (slots x 3) = PENDING \<and> slots y 3 = slots x 3 \<and> slots x 3 = stored_slot item"
proof -
  let ?item = "abi_intent (demo_settlement 3)"
  have nonce: "ei_txNonce ?item = 3" by (simp add: abi_intent_def demo_settlement_def demo_intent_def)
  have "settleable no_settlements [?item]"
    using demo_settlements_settleable by (simp add: settleable_Cons) (simp add: settleable_def)
  then have "settleBatch [?item] no_settlements = Inr (settled [?item] no_settlements, [created ?item])"
    by (simp add: settleBatch_Inr)
  then have x: "slots (escrow_tx [?item] deployed) 3 = stored_slot ?item"
    by (simp add: escrow_tx_def deployed_def write_slot_def nonce)
  then have "es_status (slots (escrow_tx [?item] deployed) 3) = PENDING" by (simp add: stored_slot_def)
  with x escrow_ledger_is_write_once [of "[[?item]]" "[[?item\<lparr>ei_amount := 5\<rparr>]]"] show ?thesis
    by (simp add: Let_def)
qed

text \<open>
  C14.  The retry settles nothing twice.  Let the submitter hand a batch to a node that, on each attempt,
  executes the batch or does nothing to the contract, also when it reports the opposite, and let nobody else
  call the contract meanwhile.  After the
  submission with its retry the contract is as before, or the batch was recorded exactly once, with
  one log per intent: a first attempt that was executed and reported as failed makes the second one revert.
  A batch the contract would revert leaves it untouched.
\<close>

theorem submit_settles_at_most_once:
  assumes "escrow_node transact sl lg topic" and "submit (SettleBatch transact) b w = (evs, w')"
  shows "(sl w' = sl w \<and> lg w' = lg w) \<or>
    (settleable (sl w) (map abi_intent b) \<and> sl w' = settled (map abi_intent b) (sl w) \<and>
     (\<exists>logs. lg w' = lg w @ logs \<and> announces topic b logs))"
  using escrow_node.submit_once [OF assms] announces_created_logs
  by (auto simp: unmoved_def executes_def settleBatch_Inr)

text \<open>A node that executes what it is sent and then loses the connection.\<close>

definition lossy_transact :: "byte list \<Rightarrow> sim_chain transactor" where
  "lossy_transact topic intents w = (Inl ''connection reset'', snd (sim_transact topic intents w))"

lemma lossy_node: "escrow_node (lossy_transact topic) sim_slots sim_logs topic"
proof
  fix intents r and w w' :: sim_chain
  assume "lossy_transact topic intents w = (r, w')"
  moreover obtain r' w'' where "sim_transact topic intents w = (r', w'')" by (metis surj_pair)
  ultimately show "unmoved sim_slots sim_logs w w' \<or>
      (\<exists>h. executes topic sim_slots sim_logs intents h w w' \<and> (\<forall>h'. r = Inr h' \<longrightarrow> h' = h))"
    using sim.transact_law [of topic intents w r' w''] by (auto simp: lossy_transact_def)
qed

lemma sim_transact_ok:
  assumes "b \<noteq> []" and "length b \<le> 10" and "settleable (sim_slots w) (map abi_intent b)"
  shows "sim_transact topic b w = (Inr (sim_hash w), \<lparr>sim_slots = settled (map abi_intent b) (sim_slots w),
    sim_logs = sim_logs w @ created_logs topic (sim_hash w) (sim_block w) 0 (map created (map abi_intent b))\<rparr>)"
proof -
  have "settleBatch (map abi_intent b) (sim_slots w) = Inr (settled (map abi_intent b) (sim_slots w), map created (map abi_intent b))"
    using assms by (simp add: settleBatch_Inr)
  then show ?thesis by (simp add: sim_transact_def)
qed

text \<open>Both attempts fail for the submitter, the batch is reported as dropped, and it is recorded, once.\<close>

theorem submit_settles_at_most_once_witness:
  "\<exists>e w'. submit (SettleBatch (lossy_transact [])) [demo_settlement 3, demo_settlement 4] sim_deployed
      = ([SettleFail 2 1 e, SettleFail 2 2 e, SettleDrop 2], w') \<and> length (sim_logs w') = 2 \<and> sim_logs w' \<noteq> sim_logs sim_deployed \<and>
     (\<exists>logs. sim_logs w' = sim_logs sim_deployed @ logs \<and> announces [] [demo_settlement 3, demo_settlement 4] logs)"
proof -
  let ?b = "[demo_settlement 3, demo_settlement 4]"
  define w1 where "w1 = snd (sim_transact [] ?b sim_deployed)"
  have one: "sim_slots w1 = settled (map abi_intent ?b) no_settlements" "length (sim_logs w1) = 2"
    using sim_transact_ok [of ?b sim_deployed "[]"] demo_settlements_settleable
    by (simp_all add: w1_def sim_deployed_def created_logs_def)
  have "es_status (sim_slots w1 (ei_txNonce (abi_intent (demo_settlement 3)))) = PENDING"
    by (simp add: one(1) settled_status del: settled_simps)
  then have "\<not> settleable (sim_slots w1) (map abi_intent ?b)" by (simp add: settleable_Cons entry_error_None)
  then have "snd (sim_transact [] ?b w1) = w1"
    using settleBatch_Inr [of "map abi_intent ?b" "sim_slots w1"]
    by (cases "settleBatch (map abi_intent ?b) (sim_slots w1)") (auto simp: sim_transact_def)
  then have run: "submit (SettleBatch (lossy_transact [])) ?b sim_deployed
      = ([SettleFail 2 1 (Transact ''connection reset''), SettleFail 2 2 (Transact ''connection reset''), SettleDrop 2], w1)"
    by (simp add: submit_retries_once SettleBatch_def lossy_transact_def w1_def)
  have "sim_logs w1 \<noteq> sim_logs sim_deployed" using one(2) by (auto simp: sim_deployed_def)
  with submit_settles_at_most_once [OF lossy_node run] run one(2) show ?thesis by blast
qed

end
