(* ===== verification/Settlement_Run.thy ===== *)
theory Settlement_Run
  imports Gateway_Run Escrow
begin

text \<open>
  The gateway and the contract together: the running server of \<^verbatim>\<open>Gateway_Run\<close> with the submitter's client
  talking to a node that runs \<^verbatim>\<open>Escrow.sol\<close>, and the watcher reading the logs of that contract.
\<close>

section \<open>What ingested intents look like to the contract\<close>

lemma settles_encodable:
  assumes "address_ok eth" and "settles ed eth db raw i"
  shows "encodable i" and "in_Amount i < 2 ^ 64" and "in_TxNonce i < 2 ^ 96"
proof -
  from assms(2) obtain h wallet where h: "in_Amount i = unat (le_word (seg raw (h + 82) (h + 90)) :: u64)"
    "in_TxNonce i = DeriveTxNonce (in_SatId i) (le_word (seg raw (h + 2) (h + 10)))"
    "in_Wallet i = HexToAddress eth wallet"
    unfolding settles_def by (elim exE conjE) (rule that)
  show amount: "in_Amount i < 2 ^ 64" unfolding h(1) by (rule unat_u64_less)
  show nonce: "in_TxNonce i < 2 ^ 96" unfolding h(2) by (rule DeriveTxNonce_less)
  have "in_Amount i < 2 ^ 256" "in_TxNonce i < 2 ^ 256"
    using amount nonce by (auto intro: less_trans)
  with h(3) assms(1) show "encodable i" by (simp add: encodable_def address_ok_def)
qed

section \<open>The account in a run\<close>

definition account_ok ::
    "byte list \<Rightarrow> ('w \<Rightarrow> escrow_slots) \<Rightarrow> ('w \<Rightarrow> eth_log list) \<Rightarrow> 'w \<Rightarrow> ('e, 'w) submitter_world option \<Rightarrow> bool" where
  "account_ok topic sl lg w0 q \<longleftrightarrow> (\<forall>x. q = Some x \<longrightarrow> chain_account topic sl lg w0 (sw_batches x) (sw_chain x))"

lemma account_ok_serve:
  assumes "escrow_node transact sl lg topic" and "account_ok topic sl lg w0 (sv_submitter sv)" and "kaitai_stream k view"
    and "\<And>raw. rq_body rq = Inr raw \<Longrightarrow> int (length raw) < 2 ^ 63"
    and "serve k ed eth js (SettleBatch transact) fate rq sv = Ok (sv', ctx)"
  shows "account_ok topic sl lg w0 (sv_submitter sv')"
  using assms(5)
proof (cases rule: serve_cases)
  case (ingest q)
  consider "q = sv_submitter sv" | i x where "sv_submitter sv = Some x" "q = Some (Enqueue (SettleBatch transact) i x)"
    using IngestPacket_queue [OF assms(3,4) ingest(2)] by blast
  then show ?thesis
  proof cases
    case 1
    with assms(2) ingest(3) show ?thesis by simp
  next
    case 2
    with escrow_node.account_steps(1) [OF assms(1)] assms(2) ingest(3) show ?thesis by (simp add: account_ok_def)
  qed
qed (use assms(2) in simp_all)

lemma account_ok_step:
  assumes "escrow_node transact sl lg topic" and "account_ok topic sl lg w0 (sv_submitter sv)" and "kaitai_stream k view"
    and "bodies_fit [lab]" and "server_step k ed eth js (SettleBatch transact) cl sv lab sv'"
  shows "account_ok topic sl lg w0 (sv_submitter sv')"
  using assms(5)
proof cases
  case (request fate rq ctx)
  have "int (length raw) < 2 ^ 63" if "rq_body rq = Inr raw" for raw
    using that assms(4) request(1) by (auto simp: bodies_fit_def)
  from account_ok_serve [OF assms(1-3) this request(2)] show ?thesis .
next
  case (timer x)
  with escrow_node.account_steps(2) [OF assms(1)] assms(2) show ?thesis by (simp add: account_ok_def)
qed (use assms(2) in simp_all)

lemma account_ok_run:
  assumes "server_run k ed eth js (SettleBatch transact) cl sv0 labs sv" and "escrow_node transact sl lg topic"
    and "account_ok topic sl lg w0 (sv_submitter sv0)" and "kaitai_stream k view" and "bodies_fit labs"
  shows "account_ok topic sl lg w0 (sv_submitter sv)"
  using assms(1,5)
proof (induction rule: server_run.induct)
  case start
  show ?case by (rule assms(3))
next
  case (step labs sv lab sv')
  then have "bodies_fit labs" "bodies_fit [lab]" by (auto simp: bodies_fit_def)
  with step account_ok_step [OF assms(2) _ assms(4)] show ?case by blast
qed

lemma account_ok_start:
  "start_server ed eth js rpc abi env fs w0 c0 = Ok sv0 \<Longrightarrow> account_ok topic sl lg w0 (sv_submitter sv0)"
  using start_server_Ok(4) chain_account_start by (fastforce simp: account_ok_def)

text \<open>The queue's part of the invariant, which asks nothing of the node or of the receipts.\<close>

lemma intents_ok_step:
  assumes "kaitai_stream k view" and "sv_registry sv = db" and "intents_ok ed eth db (ingested labs) (sv_submitter sv)"
    and "bodies_fit [lab]" and "server_step k ed eth js client cl sv lab sv'"
  shows "sv_registry sv' = db \<and> intents_ok ed eth db (ingested (labs @ [lab])) (sv_submitter sv')"
proof -
  note mono = intents_ok_mono [OF assms(3) ingested_snoc [of labs lab]]
  show ?thesis
    using assms(5)
  proof cases
    case (request fate rq ctx)
    from request(2) show ?thesis
    proof (cases rule: serve_cases)
      case (ingest q)
      have "raw \<in> ingested (labs @ [lab]) \<and> int (length raw) < 2 ^ 63" if "rq_body rq = Inr raw" for raw
        using that ingest(1) assms(4) request(1) by (auto simp: ingested_def bodies_fit_def)
      from intents_ok_ingest [OF mono assms(1) this ingest(2) [unfolded assms(2)]] ingest(3) assms(2) show ?thesis by simp
    qed (use mono assms(2) in simp_all)
  next
    case (timer x)
    with intents_ok_timer [of ed eth db _ x client] mono assms(2) show ?thesis by simp
  qed (use mono assms(2) in simp_all)
qed

lemma intents_ok_run:
  assumes "server_run k ed eth js client cl sv0 labs sv" and "kaitai_stream k view"
    and "start_server ed eth js rpc abi env fs w0 c0 = Ok sv0" and "bodies_fit labs"
  shows "sv_registry sv = start_registry ed \<and> intents_ok ed eth (start_registry ed) (ingested labs) (sv_submitter sv)"
  using assms(1,4)
proof (induction rule: server_run.induct)
  case start
  show ?case
    using start_server_Ok(1,4) [OF assms(3)]
    by (auto simp: intents_ok_def submitter_inv_New accepted_intents_def) (auto simp: NewBufferedSubmitter_def)
next
  case (step labs sv lab sv')
  then have "bodies_fit labs" "bodies_fit [lab]" by (auto simp: bodies_fit_def)
  with step intents_ok_step [OF assms(2)] show ?case by blast
qed

text \<open>What the account says of one slot and of one log.\<close>

lemma settled_slot:
  assumes "es_status (settled items s n) = PENDING" and "distinct (map ei_txNonce items)"
  shows "es_status (s n) = PENDING \<or> (\<exists>item \<in> set items. n = ei_txNonce item \<and> settled items s n = stored_slot item)"
proof (cases "n \<in> ei_txNonce ` set items")
  case True
  then obtain item where item: "item \<in> set items" "n = ei_txNonce item" by auto
  with settled_entry [OF assms(2) item(1)] show ?thesis by blast
next
  case False
  with assms(1) show ?thesis by (simp add: settled_status)
qed

lemma announced_log:
  assumes "announces topic intents logs" and "l \<in> set logs"
  shows "\<exists>i \<in> set intents. \<exists>h n k. length h = 32 \<and> l = created_log topic h n (k, created (abi_intent i))"
proof -
  obtain m where m: "m < length logs" "l = logs ! m" using assms(2) by (auto simp: in_set_conv_nth)
  then have "\<exists>h n k. length h = 32 \<and> l = created_log topic h n (k, created (abi_intent (intents ! m)))"
    using assms(1) unfolding announces_def by (auto dest: list_all2_nthD2)
  moreover have "intents ! m \<in> set intents"
    using assms(1) m(1) by (simp add: announces_def list_all2_lengthD)
  ultimately show ?thesis by (rule bexI)
qed

lemma created_log_event:
  assumes "address_ok eth" and "encodable i" and "l = created_log topic h n (k, created (abi_intent i))"
  shows "event_of eth l = event_for i (log_TxHash l) (log_BlockNumber l)" and "log_key eth l = event_key eth (event_for i h n)"
  using decode_created_log [OF assms(1,2), of topic h n k] assms(3)
  by (simp_all add: event_of_def log_key_def) (simp add: created_log_def)

lemma account_intents:
  assumes "chain_account topic sl lg w0 (sw_batches x) w"
  obtains intents logs where "set intents \<subseteq> set (accepted_intents x)" "lg w = lg w0 @ logs" "announces topic intents logs"
    "settleable (sl w0) (map abi_intent intents)" "sl w = settled (map abi_intent intents) (sl w0)"
proof -
  from assms obtain bs logs where acc: "subseq bs (sw_batches x)" "lg w = lg w0 @ logs" "announces topic (concat bs) logs"
    "settleable (sl w0) (map abi_intent (concat bs))" "sl w = settled (map abi_intent (concat bs)) (sl w0)"
    by (auto simp: chain_account_def)
  have "set bs \<subseteq> set (sw_batches x)" using acc(1) by (auto dest: list_emb_set)
  then have "set (concat bs) \<subseteq> set (accepted_intents x)" by (auto simp: accepted_intents_def)
  with acc(2-5) show thesis by (intro that)
qed

text \<open>With any fact \<^verbatim>\<open>P\<close> that holds of every accepted intent, the slots and the logs are those of such intents.\<close>

lemma account_slots:
  assumes "chain_account topic sl lg w0 (sw_batches x) w" and "\<And>i. i \<in> set (accepted_intents x) \<Longrightarrow> P i \<and> encodable i"
    and "es_status (sl w n) = PENDING" and "es_status (sl w0 n) \<noteq> PENDING"
  shows "\<exists>i. P i \<and> unat n = in_TxNonce i \<and> sl w n = \<lparr>es_satId = in_SatId i, es_amount = word_of_nat (in_Amount i), es_assetId = in_AssetId i,
           es_txNonce = n, es_wallet = in_Wallet i, es_status = PENDING\<rparr>"
  using assms(1)
proof (rule account_intents)
  fix intents logs
  assume acc: "set intents \<subseteq> set (accepted_intents x)" "settleable (sl w0) (map abi_intent intents)"
    "sl w = settled (map abi_intent intents) (sl w0)"
  then obtain i where i: "i \<in> set intents" "n = ei_txNonce (abi_intent i)" "sl w n = stored_slot (abi_intent i)"
    using settled_slot [OF assms(3) [unfolded acc(3)]] assms(4) by (auto simp: settleable_def)
  have ok: "P i" "encodable i" using assms(2) acc(1) i(1) by blast+
  then have "unat n = in_TxNonce i" by (simp add: i(2) abi_intent_def encodable_def unat_of_nat)
  with ok(1) i(3) show ?thesis by (intro exI [of _ i]) (simp add: stored_slot_def i(2), simp add: abi_intent_def)
qed

lemma account_logs:
  assumes "chain_account topic sl lg w0 (sw_batches x) w" and "\<And>i. i \<in> set (accepted_intents x) \<Longrightarrow> P i \<and> encodable i"
    and "address_ok eth" and "lg w0 = []" and "l \<in> set (lg w)"
  shows "\<exists>i h n. P i \<and> event_of eth l = event_for i (log_TxHash l) (log_BlockNumber l) \<and>
    log_key eth l = event_key eth (event_for i h n)"
  using assms(1)
proof (rule account_intents)
  fix intents logs
  assume acc: "set intents \<subseteq> set (accepted_intents x)" "lg w = lg w0 @ logs" "announces topic intents logs"
  then have "l \<in> set logs" using assms(4,5) by simp
  from announced_log [OF acc(3) this] obtain i h n k where l: "i \<in> set intents"
    "l = created_log topic h n (k, created (abi_intent i))" by blast
  have ok: "P i" "encodable i" using assms(2) acc(1) l(1) by blast+
  with created_log_event [OF assms(3) ok(2) l(2)] show ?thesis by blast
qed

section \<open>A flat-sat payment\<close>

text \<open>The intent of a PacketB of the flat-sat identity, and the request that carries the frame.\<close>

definition flat_sat_intent :: "eth_lib \<Rightarrow> packet_b_body \<Rightarrow> settlement_intent" where
  "flat_sat_intent eth b = \<lparr>in_SatId = FlatSatDemoSatID, in_Amount = unat (le_word (seg (pb_EncPayload b) 48 56) :: u64),
     in_AssetId = le_word (seg (pb_EncPayload b) 56 58), in_TxNonce = DeriveTxNonce FlatSatDemoSatID (pb_EpochTs b),
     in_Wallet = HexToAddress eth FlatSatDemoWallet\<rparr>"

definition ingest_request :: "byte list \<Rightarrow> http_request" where
  "ingest_request raw = \<lparr>rq_method = ''POST'', rq_path = ''/api/v1/ingest'', rq_body = Inr raw, rq_json = Inl ''EOF''\<rparr>"

text \<open>Signed with the demo seed over the header and the first 106 bytes of the body.\<close>

definition flat_sat_signed :: "ed25519_lib \<Rightarrow> bool \<Rightarrow> u16 \<Rightarrow> u16 \<Rightarrow> packet_b_body \<Rightarrow> bool" where
  "flat_sat_signed ed snlp v w b \<longleftrightarrow> tier_ok snlp v w \<and> fits_PacketBBody b \<and> drop_bit 13 v AND 7 = 0 \<and>
     pb_SatId b = FlatSatDemoSatID \<and> sig_Raw (pb_Signature b) = Sign ed (NewKeyFromSeed ed demo_seed)
       (take (header_len snlp + PacketBSigScopeBody) (frame_bytes snlp v w (encode_PacketBBody b)))"

lemma flat_sat_ingest:
  assumes "kaitai_stream k view" and "ed25519_ok ed" and "flat_sat_signed ed snlp v w b"
  shows "IngestPacket k ed eth (start_registry ed) enq (Inr (frame_bytes snlp v w (encode_PacketBBody b))) (Some q) NewContext
    = Ok (Some (enq (flat_sat_intent eth b) q), \<lparr>responses = [(200, AcceptedReply (uint (v AND 2047))
        (if snlp then ''Community (SNLP)'' else ''Enterprise (CCSDS)''))], aborted = False\<rparr>)"
proof -
  let ?pub = "Public ed (NewKeyFromSeed ed demo_seed)"
  have b: "tier_ok snlp v w" "fits_PacketBBody b" "drop_bit 13 v AND 7 = 0" "pb_SatId b = FlatSatDemoSatID"
    "sig_Raw (pb_Signature b) = Sign ed (NewKeyFromSeed ed demo_seed)
       (take (header_len snlp + PacketBSigScopeBody) (frame_bytes snlp v w (encode_PacketBBody b)))"
    using assms(3) by (simp_all add: flat_sat_signed_def)
  have key: "registered_key (start_registry ed) (pb_SatId b) = Some ?pub"
    using start_registered(1) [OF assms(2)] b(4) by simp
  obtain satRec where rec: "start_registry ed (pb_SatId b) = Some satRec" "rec_Wallet satRec = FlatSatDemoWallet"
    using start_registered(2) [OF assms(2)] b(4) by auto
  have "Verify ed ?pub (take (header_len snlp + PacketBSigScopeBody) (frame_bytes snlp v w (encode_PacketBBody b)))
      (sig_Raw (pb_Signature b))"
    using assms(2) b(5) demo_seed(2) unfolding ed25519_ok_def by simp
  note run = signed_payment_run [OF assms(1) b(1-3) key this rec(1), of eth enq q]
  have "rec_Wallet satRec \<noteq> ''''" using rec(2) by (simp add: FlatSatDemoWallet_def)
  from run [OF this] show ?thesis by (simp only: rec(2) b(4) flat_sat_intent_def)
qed

lemma flat_sat_request:
  assumes "kaitai_stream k view" and "ed25519_ok ed" and "flat_sat_signed ed snlp v w b"
    and "sv_registry sv = start_registry ed" and "sv_submitter sv = Some x"
  shows "serve k ed eth js client fate (ingest_request (frame_bytes snlp v w (encode_PacketBBody b))) sv
    = Ok (sv\<lparr>sv_submitter := Some (Enqueue client (flat_sat_intent eth b) x)\<rparr>,
        \<lparr>responses = [(200, AcceptedReply (uint (v AND 2047)) (if snlp then ''Community (SNLP)'' else ''Enterprise (CCSDS)''))],
         aborted = False\<rparr>)"
  using flat_sat_ingest [OF assms(1-3), of eth "Enqueue client" x] assms(4,5)
  by (simp add: serve_def ingest_request_def outcome_simps)

lemma flat_sat_encodable: "address_ok eth \<Longrightarrow> encodable (flat_sat_intent eth b)"
  using unat_u64_less [of "le_word (seg (pb_EncPayload b) 48 56)"] DeriveTxNonce_less [of FlatSatDemoSatID "pb_EpochTs b"]
  by (auto simp: encodable_def flat_sat_intent_def address_ok_def intro: less_trans)

text \<open>One intent in the buffer, a live node and a free slot: the timer settles it at the first attempt.\<close>

lemma timer_settles_one:
  assumes "live_node transact sl lg topic" and "address_ok eth" and "encodable i"
    and "\<not> closed (sw_sub x)" and "buf (sw_sub x) = [i]" and "entry_error (sl (sw_chain x)) (abi_intent i) = None"
  shows "\<exists>h l. sw_log (onTimer (SettleBatch transact) x) = sw_log x @ [SettleOk 1 h 1] \<and>
    sl (sw_chain (onTimer (SettleBatch transact) x)) = write_slot (abi_intent i) (sl (sw_chain x)) \<and>
    lg (sw_chain (onTimer (SettleBatch transact) x)) = lg (sw_chain x) @ [l] \<and>
    decodeSettlementCreated eth l = Inr (event_for i h (log_BlockNumber l))"
proof -
  have ok: "settleable (sl (sw_chain x)) (map abi_intent [i])" using assms(6) by (simp add: settleable_def)
  obtain h w' where run: "submit (SettleBatch transact) [i] (sw_chain x) = ([SettleOk 1 h 1], w')"
    and ex: "executes topic sl lg [i] h (sw_chain x) w'"
    using live_node.submit_settles [OF assms(1), of "[i]" "sw_chain x"] ok by auto
  obtain n k where w': "sl w' = settled (map abi_intent [i]) (sl (sw_chain x))"
    "lg w' = lg (sw_chain x) @ created_logs topic h n k [created (abi_intent i)]"
    using ex by (auto simp: executes_def settleBatch_Inr)
  let ?l = "created_log topic h n (k, created (abi_intent i))"
  have "decodeSettlementCreated eth ?l = Inr (event_for i h (log_BlockNumber ?l))"
    using decode_created_log [OF assms(2,3), of topic h n k] by (simp add: created_log_def)
  then show ?thesis
    using onTimer_submits [OF assms(4), of "SettleBatch transact"] assms(5) run w'
    by (intro exI [of _ h] exI [of _ ?l]) (simp add: created_logs_def)
qed

section \<open>Properties\<close>

text \<open>
  C2.  No money and no receipt without a signed payment.  Start the gateway against a contract with no
  logs that only this gateway calls, through a node that on each call executes the batch or does nothing, and let it run under
  any traffic with the watcher reading this contract's logs.  Then every slot of the contract that
  is pending was so before the start or holds exactly the satellite, amount, asset, nonce and wallet
  of a payment that was signed under the satellite's registered key in a frame sent to the ingest
  route, the wallet being the registered one; every log decodes to such a payment; and every
  receipt the gateway has added to its store is for such a payment and its transaction.
\<close>

theorem only_signed_payments_settle:
  assumes "kaitai_stream k view" and "ed25519_ok ed" and "address_ok eth" and "escrow_node transact sl lg topic"
    and "start_server ed eth js rpc abi env fs w0 c0 = Ok sv0" and "lg w0 = []"
    and "\<And>p w. sv_receipts sv0 = Some (p, w) \<Longrightarrow> seed_ok p \<and> honest_node cl (w_contract w) (eventTopic w) (lg (sw_chain x))"
    and "server_run k ed eth js (SettleBatch transact) cl sv0 labs sv" and "bodies_fit labs" and "sv_submitter sv = Some x"
  shows "(\<forall>n. es_status (sl (sw_chain x) n) = PENDING \<longrightarrow> es_status (sl w0 n) = PENDING \<or>
      (\<exists>raw \<in> ingested labs. \<exists>i. settles ed eth (start_registry ed) raw i \<and> unat n = in_TxNonce i \<and>
         sl (sw_chain x) n = \<lparr>es_satId = in_SatId i, es_amount = word_of_nat (in_Amount i), es_assetId = in_AssetId i,
           es_txNonce = n, es_wallet = in_Wallet i, es_status = PENDING\<rparr>)) \<and>
    (\<forall>l \<in> set (lg (sw_chain x)). \<exists>raw \<in> ingested labs. \<exists>i. settles ed eth (start_registry ed) raw i \<and>
       event_of eth l = event_for i (log_TxHash l) (log_BlockNumber l)) \<and>
    (\<forall>s. sv_store sv = Some s \<longrightarrow> (\<exists>new. map record_key (settlements s) = stored_keys (sv_store sv0) @ new \<and>
       (\<forall>key \<in> set new. \<exists>raw \<in> ingested labs. \<exists>i h n. settles ed eth (start_registry ed) raw i \<and>
          key = event_key eth (event_for i h n))))"
proof -
  let ?ok = "\<lambda>i. \<exists>raw \<in> ingested labs. settles ed eth (start_registry ed) raw i"
  have inv: "server_inv ed eth cl (lg (sw_chain x)) (start_registry ed) (stored_keys (sv_store sv0)) labs sv"
    by (rule server_inv_run [OF assms(8,1,2) start_server_inv [OF assms(5,7)] assms(9)])
  have signed: "?ok i \<and> encodable i" if "i \<in> set (accepted_intents x)" for i
    using inv that assms(10) settles_encodable(1) [OF assms(3)] by (fastforce simp: server_inv_def intents_ok_def)
  have "account_ok topic sl lg w0 (sv_submitter sv)"
    by (rule account_ok_run [OF assms(8,4) account_ok_start [OF assms(5)] assms(1,9)])
  then have acc: "chain_account topic sl lg w0 (sw_batches x) (sw_chain x)" using assms(10) by (simp add: account_ok_def)
  note slot = account_slots [where P = ?ok, OF acc signed] and log = account_logs [where P = ?ok, OF acc signed assms(3,6)]
  show ?thesis
  proof (intro conjI allI impI ballI)
    show "es_status (sl w0 n) = PENDING \<or> (\<exists>raw \<in> ingested labs. \<exists>i. settles ed eth (start_registry ed) raw i \<and>
        unat n = in_TxNonce i \<and> sl (sw_chain x) n = \<lparr>es_satId = in_SatId i, es_amount = word_of_nat (in_Amount i), es_assetId = in_AssetId i,
           es_txNonce = n, es_wallet = in_Wallet i, es_status = PENDING\<rparr>)"
      if "es_status (sl (sw_chain x) n) = PENDING" for n using slot [OF _ that] by blast
    show "\<exists>raw \<in> ingested labs. \<exists>i. settles ed eth (start_registry ed) raw i \<and>
        event_of eth l = event_for i (log_TxHash l) (log_BlockNumber l)" if "l \<in> set (lg (sw_chain x))" for l
      using log [OF _ that] by blast
    fix s assume st: "sv_store sv = Some s"
    obtain new where new: "map record_key (settlements s) = stored_keys (sv_store sv0) @ new"
      "set new \<subseteq> log_key eth ` set (lg (sw_chain x))"
      using inv st by (auto simp: server_inv_def receipts_ok_def)
    have "\<exists>raw \<in> ingested labs. \<exists>i h n. settles ed eth (start_registry ed) raw i \<and> key = event_key eth (event_for i h n)"
      if key: "key \<in> set new" for key
    proof -
      obtain l where "l \<in> set (lg (sw_chain x))" "key = log_key eth l" using new(2) key by blast
      with log [of l] show ?thesis by auto
    qed
    with new(1) show "\<exists>new. map record_key (settlements s) = stored_keys (sv_store sv0) @ new \<and>
        (\<forall>key \<in> set new. \<exists>raw \<in> ingested labs. \<exists>i h n. settles ed eth (start_registry ed) raw i \<and>
          key = event_key eth (event_for i h n))" by blast
  qed
qed

section \<open>Replays\<close>

text \<open>The gateway keeps no memory of the frames it has seen: the same frame adds the same intent again.\<close>

lemma IngestPacket_repeat:
  assumes "kaitai_stream k view" and "int (length raw) < 2 ^ 63"
    and "IngestPacket k ed eth db enq (Inr raw) (Some x) NewContext = Ok (Some x1, c1)" and "x1 \<noteq> x"
  shows "\<exists>i. settles ed eth db raw i \<and> map fst (responses c1) = [200] \<and>
    (\<forall>y. IngestPacket k ed eth db enq (Inr raw) (Some y) NewContext = Ok (Some (enq i y), c1))"
proof -
  have run: "IngestPacket k ed eth db enq (Inr raw) (Some y) NewContext = Ok (ingest_outcome ed eth db enq raw (Some y))" for y
    by (rule IngestPacket_outcome [OF assms(1,2)])
  then have out: "ingest_outcome ed eth db enq raw (Some x) = (Some x1, c1)" using assms(3) by simp
  then obtain b i where b: "frame_verdict ed db raw = Accepted (Some b)" "intent_of eth db b = Some i"
    using assms(4) by (auto simp: ingest_outcome_def submit_intent_def split: verdict.splits option.splits)
  then have all: "ingest_outcome ed eth db enq raw (Some y) = (Some (enq i y), c1)" for y
    using out by (simp add: ingest_outcome_def submit_intent_def)
  have "\<exists>j. Some x1 = Some (enq j x) \<and> map fst (responses c1) = [200] \<and> settles ed eth db raw j"
    using ingest_enqueues [OF assms(1-3)] assms(4) by simp
  moreover have "settles ed eth db raw i"
    using ingest_enqueues [OF assms(1,2), of ed eth db "\<lambda>i q. i # q" "[]" "Some [i]" c1]
      IngestPacket_outcome [OF assms(1,2), of ed eth db "\<lambda>i q. i # q" "Some []"] b out
    by (simp add: ingest_outcome_def submit_intent_def)
  ultimately show ?thesis using run all by auto
qed

text \<open>
  C19.  A replayed payment loses the whole batch.  The gateway takes the same signed frame twice: both
  requests are answered with 200 and the intent is buffered twice.  When the timer fires, the batch
  is submitted and the contract refuses it for the repeated nonce, so nothing of it is recorded, neither
  the payment nor any other intent that happened to be in the buffer, and all of them have left it.
\<close>

theorem replayed_payment_loses_batch:
  assumes "kaitai_stream k view" and "escrow_node transact sl lg topic" and "int (length raw) < 2 ^ 63"
    and "\<not> closed (sw_sub x)" and "int (length (buf (sw_sub x))) + 2 < maxBatch (sw_sub x)"
    and "IngestPacket k ed eth db (Enqueue (SettleBatch transact)) (Inr raw) (Some x) NewContext = Ok (Some x1, c1)" and "x1 \<noteq> x"
    and "IngestPacket k ed eth db (Enqueue (SettleBatch transact)) (Inr raw) (Some x1) NewContext = Ok (Some x2, c2)"
    and "y = onTimer (SettleBatch transact) x2"
  shows "map fst (responses c1) = [200] \<and> map fst (responses c2) = [200] \<and>
    (\<exists>i. settles ed eth db raw i \<and> sw_batches y = sw_batches x @ [buf (sw_sub x) @ [i, i]] \<and> buf (sw_sub y) = [] \<and>
       sl (sw_chain y) = sl (sw_chain x) \<and> lg (sw_chain y) = lg (sw_chain x))"
proof -
  let ?client = "SettleBatch transact"
  obtain i where i: "settles ed eth db raw i" "map fst (responses c1) = [200]"
    and again: "\<forall>z. IngestPacket k ed eth db (Enqueue ?client) (Inr raw) (Some z) NewContext = Ok (Some (Enqueue ?client i z), c1)"
    using IngestPacket_repeat [OF assms(1,3,6,7)] by (elim exE conjE) (rule that)
  have x1: "x1 = Enqueue ?client i x" and x2: "x2 = Enqueue ?client i x1" and c2: "c2 = c1"
    using again [rule_format, of x] again [rule_format, of x1] assms(6,8) by simp_all
  have one: "sw_chain x1 = sw_chain x" "sw_batches x1 = sw_batches x" "buf (sw_sub x1) = buf (sw_sub x) @ [i]"
    "\<not> closed (sw_sub x1)" "maxBatch (sw_sub x1) = maxBatch (sw_sub x)"
    unfolding x1 using Enqueue_room [OF assms(4), of ?client i] assms(5) by simp_all
  have two: "sw_chain x2 = sw_chain x" "sw_batches x2 = sw_batches x" "buf (sw_sub x2) = buf (sw_sub x) @ [i, i]"
    "\<not> closed (sw_sub x2)"
    unfolding x2 using Enqueue_room [OF one(4), of ?client i] one assms(5) by simp_all
  let ?b = "buf (sw_sub x) @ [i, i]"
  have ne: "buf (sw_sub x2) \<noteq> []" by (simp add: two(3))
  note timer = onTimer_submits [OF two(4) ne, of ?client, folded assms(9)]
  have "\<not> settleable (sl (sw_chain x2)) (map abi_intent ?b)" by (simp add: settleable_def)
  then have "unmoved sl lg (sw_chain x2) (sw_chain y)"
    using escrow_node.submit_revert [OF assms(2), of ?b "sw_chain x2"] timer(2) two(3) by (metis prod.collapse)
  moreover have "buf (sw_sub y) = []"
    using two(4) ne by (simp add: assms(9) onTimer_def onTimer_locked_def stealLocked_def)
  ultimately show ?thesis
    using i c2 timer(1) two by (auto simp: unmoved_def)
qed

text \<open>
  C23.  What crosses into the contract's types.  In every run of the gateway each accepted intent has an
  amount below 2^64, a nonce below 2^96 and a 20-byte wallet, so its ABI encoding loses nothing: the
  contract's satellite, amount, asset, nonce and wallet read back as the intent's, and two intents
  have the same encoding only if they are equal.
\<close>

theorem ingested_intents_fit_the_contract:
  assumes "kaitai_stream k view" and "address_ok eth" and "start_server ed eth js rpc abi env fs w0 c0 = Ok sv0"
    and "server_run k ed eth js client cl sv0 labs sv" and "bodies_fit labs" and "sv_submitter sv = Some x"
    and "i \<in> set (accepted_intents x)" and "j \<in> set (accepted_intents x)"
  shows "in_Amount i < 2 ^ 64 \<and> in_TxNonce i < 2 ^ 96 \<and> length (in_Wallet i) = 20 \<and>
    (let e = abi_intent i in unat (ei_amount e) = in_Amount i \<and> unat (ei_txNonce e) = in_TxNonce i \<and>
       ei_satId e = in_SatId i \<and> ei_assetId e = in_AssetId i \<and> ei_wallet e = in_Wallet i) \<and>
    (abi_intent i = abi_intent j \<longleftrightarrow> i = j)"
proof -
  have signed: "\<exists>raw. settles ed eth (start_registry ed) raw m" if "m \<in> set (accepted_intents x)" for m
    using that assms(6) intents_ok_run [OF assms(4,1,3,5)] by (fastforce simp: intents_ok_def)
  have fits: "unat (ei_amount (abi_intent m)) = in_Amount m" "unat (ei_txNonce (abi_intent m)) = in_TxNonce m"
    if "encodable m" for m
    using that by (simp_all add: abi_intent_def encodable_def unat_of_nat)
  have fit: "in_Amount i < 2 ^ 64" "in_TxNonce i < 2 ^ 96" and enc: "encodable i" "encodable j"
    using signed [OF assms(7)] signed [OF assms(8)] settles_encodable [OF assms(2)] by blast+
  have "i = j" if eq: "abi_intent i = abi_intent j"
  proof -
    have "in_Amount i = in_Amount j" "in_TxNonce i = in_TxNonce j"
      using fits [OF enc(1)] fits [OF enc(2)] eq by simp_all
    with eq show ?thesis by (intro settlement_intent.equality) (simp_all add: abi_intent_def)
  qed
  then show ?thesis
    using fit enc(1) fits [OF enc(1)] by (auto simp: encodable_def Let_def) (simp_all add: abi_intent_def)
qed

section \<open>A concrete run\<close>

text \<open>The flat-sat payment against the simulated backend: ingest, timer, poll, receipt.\<close>

definition flat_sat_sig :: "byte list" where
  "flat_sat_sig = demo_sign demo_seed (take 120 (demo_payment_frame (replicate 64 0)))"

definition flat_sat_frame :: "byte list" where
  "flat_sat_frame = demo_payment_frame flat_sat_sig"

definition demo_flat_sat_intent :: settlement_intent where
  "demo_flat_sat_intent = flat_sat_intent demo_eth (demo_payment flat_sat_sig)"

abbreviation sim_client :: "(settle_error, sim_chain) intent_submitter" where
  "sim_client \<equiv> SettleBatch (sim_transact (replicate 32 7))"

definition demo_submitter :: "(settle_error, sim_chain) submitter_world" where
  "demo_submitter = \<lparr>sw_sub = NewBufferedSubmitter DefaultMaxBatch DefaultInterval, sw_chain = sim_deployed, sw_batches = [], sw_log = []\<rparr>"

lemma flat_sat_sig_length: "length flat_sat_sig = 64"
  using demo_seed(2) by (simp add: flat_sat_sig_def demo_sign_def SeedSize_def)

lemma flat_sat_demo_signed: "flat_sat_signed demo_ed True 2171 49153 (demo_payment flat_sat_sig)"
proof -
  have "take 32 (demo_seed @ demo_seed) = take 32 demo_seed" using demo_seed(2) by (simp add: SeedSize_def)
  then have "Sign demo_ed (NewKeyFromSeed demo_ed demo_seed) msg = demo_sign demo_seed msg" for msg
    by (simp add: demo_ed_def demo_sign_def)
  then have "sig_Raw (pb_Signature (demo_payment flat_sat_sig)) = Sign demo_ed (NewKeyFromSeed demo_ed demo_seed)
      (take (header_len True + PacketBSigScopeBody) (frame_bytes True 2171 49153 (encode_PacketBBody (demo_payment flat_sat_sig))))"
    unfolding demo_payment_frame_def [symmetric]
    using demo_payment_scope [OF flat_sat_sig_length] by (simp add: header_len_def PacketBSigScopeBody_def)
      (simp add: demo_payment_def flat_sat_sig_def)
  moreover have "pb_SatId (demo_payment flat_sat_sig) = FlatSatDemoSatID" by (simp add: demo_payment_def)
  ultimately show ?thesis
    using demo_payment_facts(1,3) demo_payment_fits [OF flat_sat_sig_length] by (simp add: flat_sat_signed_def)
qed

lemma demo_address_ok: "address_ok demo_eth"
  by (auto simp: address_ok_def demo_eth_def last_20_def split: outcome.split)

lemma demo_intent_fields:
  "in_AssetId demo_flat_sat_intent = 1" "in_Wallet demo_flat_sat_intent \<noteq> zero_address" "encodable demo_flat_sat_intent"
proof -
  have payload: "pb_EncPayload (demo_payment sig) = replicate 48 0 @ le_bytes 8 (500 :: u64) @ le_bytes 2 (1 :: u16) @ replicate 4 0" for sig
    by (simp add: demo_payment_def)
  have "(le_word (seg (replicate 48 0 @ le_bytes 8 (500 :: u64) @ le_bytes 2 (1 :: u16) @ replicate 4 0) 56 58) :: u16) = 1"
    by code_simp
  then show "in_AssetId demo_flat_sat_intent = 1"
    by (simp only: demo_flat_sat_intent_def flat_sat_intent_def settlement_intent.simps payload)
  have "HexToAddress demo_eth FlatSatDemoWallet \<noteq> zero_address" by code_simp
  then show "in_Wallet demo_flat_sat_intent \<noteq> zero_address" by (simp add: demo_flat_sat_intent_def flat_sat_intent_def)
  show "encodable demo_flat_sat_intent"
    unfolding demo_flat_sat_intent_def by (rule flat_sat_encodable [OF demo_address_ok])
qed

lemma demo_entry_ok: "entry_error (sim_slots sim_deployed) (abi_intent demo_flat_sat_intent) = None"
  using demo_intent_fields(1,2)
  by (simp add: entry_error_None sim_deployed_def no_settlements_def zero_slot_def abi_intent_def)

lemma demo_ingest:
  "IngestPacket bytes_rt demo_ed demo_eth (start_registry demo_ed) enq (Inr flat_sat_frame) (Some q) NewContext
    = Ok (Some (enq demo_flat_sat_intent q), \<lparr>responses = [(200, AcceptedReply 123 ''Community (SNLP)'')], aborted = False\<rparr>)"
proof -
  have "uint ((2171 :: u16) AND 2047) = 123" by code_simp
  with flat_sat_ingest [OF bytes_stream.kaitai_stream_axioms demo_ed_ok flat_sat_demo_signed, of demo_eth enq q] show ?thesis
    by (simp add: flat_sat_frame_def demo_payment_frame_def demo_flat_sat_intent_def)
qed

lemma flat_sat_frame_size: "int (length flat_sat_frame) < 2 ^ 63"
  using packet_b_body_layout.length_enc [OF demo_payment_fits [OF flat_sat_sig_length]]
  by (simp add: flat_sat_frame_def demo_payment_frame_def header_len_def)

lemma demo_submitter_open: "\<not> closed (sw_sub demo_submitter)" "maxBatch (sw_sub demo_submitter) = 10"
  "buf (sw_sub demo_submitter) = []" "sw_chain demo_submitter = sim_deployed"
  by (simp_all add: demo_submitter_def NewBufferedSubmitter_def DefaultMaxBatch_def)

theorem replayed_payment_loses_batch_witness:
  "let x1 = Enqueue sim_client demo_flat_sat_intent demo_submitter; x2 = Enqueue sim_client demo_flat_sat_intent x1;
       y = onTimer sim_client x2
   in sw_batches y = [[demo_flat_sat_intent, demo_flat_sat_intent]] \<and> buf (sw_sub y) = [] \<and> sim_logs (sw_chain y) = []"
proof -
  let ?x1 = "Enqueue sim_client demo_flat_sat_intent demo_submitter"
  have room: "int (length (buf (sw_sub demo_submitter))) + 1 < maxBatch (sw_sub demo_submitter)"
    "int (length (buf (sw_sub demo_submitter))) + 2 < maxBatch (sw_sub demo_submitter)"
    by (simp_all add: demo_submitter_open)
  have ne: "?x1 \<noteq> demo_submitter"
    using Enqueue_room(3) [OF demo_submitter_open(1) room(1), of sim_client demo_flat_sat_intent] by auto
  have y: "\<exists>i. sw_batches (onTimer sim_client (Enqueue sim_client demo_flat_sat_intent ?x1)) = sw_batches demo_submitter @ [buf (sw_sub demo_submitter) @ [i, i]]
      \<and> sim_logs (sw_chain (onTimer sim_client (Enqueue sim_client demo_flat_sat_intent ?x1))) = sim_logs (sw_chain demo_submitter)
      \<and> buf (sw_sub (onTimer sim_client (Enqueue sim_client demo_flat_sat_intent ?x1))) = []"
    using replayed_payment_loses_batch [OF bytes_stream.kaitai_stream_axioms sim.escrow_node_axioms flat_sat_frame_size
        demo_submitter_open(1) room(2) demo_ingest ne demo_ingest HOL.refl] by blast
  have two: "buf (sw_sub (Enqueue sim_client demo_flat_sat_intent ?x1)) = [demo_flat_sat_intent, demo_flat_sat_intent]"
    "\<not> closed (sw_sub (Enqueue sim_client demo_flat_sat_intent ?x1))"
    using Enqueue_room [OF demo_submitter_open(1) room(1), of sim_client demo_flat_sat_intent]
      Enqueue_room(3,4) [of ?x1 sim_client demo_flat_sat_intent] by (simp_all add: demo_submitter_open)
  have "sw_batches (onTimer sim_client (Enqueue sim_client demo_flat_sat_intent ?x1))
      = sw_batches (Enqueue sim_client demo_flat_sat_intent ?x1) @ [[demo_flat_sat_intent, demo_flat_sat_intent]]"
    using onTimer_submits(1) [OF two(2)] two(1) by simp
  with y show ?thesis by (auto simp: Let_def demo_submitter_def sim_deployed_def NewBufferedSubmitter_def)
qed

definition demo_settled :: "(settle_error, sim_chain) submitter_world" where
  "demo_settled = onTimer sim_client (Enqueue sim_client demo_flat_sat_intent demo_submitter)"

definition demo_chain_log :: eth_log where
  "demo_chain_log = created_log (replicate 32 7) (sim_hash sim_deployed) 1 (0, created (abi_intent demo_flat_sat_intent))"

lemma demo_settled:
  "sim_logs (sw_chain demo_settled) = [demo_chain_log]" "accepted_intents demo_settled = [demo_flat_sat_intent]"
  "sim_slots (sw_chain demo_settled) = write_slot (abi_intent demo_flat_sat_intent) no_settlements"
proof -
  let ?x1 = "Enqueue sim_client demo_flat_sat_intent demo_submitter"
  have x1: "sw_chain ?x1 = sim_deployed" "sw_batches ?x1 = []" "buf (sw_sub ?x1) = [demo_flat_sat_intent]" "\<not> closed (sw_sub ?x1)"
    using Enqueue_room [OF demo_submitter_open(1), of sim_client demo_flat_sat_intent]
    by (simp_all add: demo_submitter_open) (simp add: demo_submitter_def)
  have ok: "settleable (sim_slots sim_deployed) (map abi_intent [demo_flat_sat_intent])"
    using demo_entry_ok by (simp add: settleable_def)
  have "sw_chain demo_settled = snd (submit sim_client [demo_flat_sat_intent] sim_deployed)"
    using onTimer_submits(2) [OF x1(4), of sim_client] x1 by (simp add: demo_settled_def)
  also have "\<dots> = \<lparr>sim_slots = settled (map abi_intent [demo_flat_sat_intent]) (sim_slots sim_deployed), sim_logs = [demo_chain_log]\<rparr>"
    using sim_transact_ok [OF _ _ ok, of "replicate 32 7"]
    by (simp add: submit_retries_once SettleBatch_def demo_chain_log_def created_logs_def
        sim_block_def sim_deployed_def)
  finally show "sim_logs (sw_chain demo_settled) = [demo_chain_log]"
    "sim_slots (sw_chain demo_settled) = write_slot (abi_intent demo_flat_sat_intent) no_settlements"
    by (simp_all add: sim_deployed_def)
  show "accepted_intents demo_settled = [demo_flat_sat_intent]"
    using onTimer_submits(1) [OF x1(4), of sim_client] x1
    by (simp add: accepted_intents_def demo_settled_def) (simp add: onTimer_def onTimer_locked_def stealLocked_def)
qed

lemma demo_chain_log_event: "decodeSettlementCreated demo_eth demo_chain_log = Inr (event_for demo_flat_sat_intent (sim_hash sim_deployed) 1)"
  unfolding demo_chain_log_def by (rule decode_created_log [OF demo_address_ok demo_intent_fields(3)])

lemma demo_chain_honest: "honest_node (log_node [demo_chain_log]) ad t [demo_chain_log]"
proof (rule log_node_honest)
  have "log_BlockNumber demo_chain_log = 1" by (simp add: demo_chain_log_def created_log_def)
  then show "\<forall>l \<in> set [demo_chain_log]. log_BlockNumber l < - 1"
    by (simp add: word_less_def unsigned_minus_1_eq_mask mask_eq_exp_minus_1)
qed simp

lemma demo_chain_poll:
  "\<exists>w' c'. Poll demo_eth (log_node [demo_chain_log]) demo_cursor 3
    = (([(event_for demo_flat_sat_intent (sim_hash sim_deployed) 1)\<lparr>ev_BlockTimeSec := 1001\<rparr>], None), w', c')"
proof -
  have "log_BlockNumber demo_chain_log = 1" by (simp add: demo_chain_log_def created_log_def)
  then show ?thesis
    by (simp add: Poll_def demo_cursor_def log_node_def demo_chain_log_event event_for_def word_le_nat_alt)
qed

lemma demo_handle_new:
  "\<exists>p' s'. Handle demo_ed demo_eth demo_js Stored ev (demo_seller, empty_store defaultReceiptsPath) = (Ok (), p', s') \<and>
     length (settlements s') = 1"
proof -
  obtain res p' s' where h: "Handle demo_ed demo_eth demo_js Stored ev (demo_seller, empty_store defaultReceiptsPath) = (res, p', s')"
    by (metis surj_pair)
  have seed: "seed_ok demo_seller" using demo_receipts_laws by (simp add: demo_server_on_def)
  have res: "res = Ok ()"
    using h Handle_new [OF store_inv_empty _ demo_ed_ok seed, of demo_eth ev defaultReceiptsPath demo_js Stored]
      demo_append by (auto simp: Let_def split_beta)
  with Handle_queue [OF store_inv_empty demo_ed_ok seed h] h show ?thesis by (auto split: if_splits)
qed

text \<open>The whole way of the payment: request, timer, poll and receipt.\<close>

lemma demo_chain_run:
  "\<exists>sv ev ctx s. server_run bytes_rt demo_ed demo_eth demo_js sim_client (log_node [demo_chain_log]) (demo_server_on sim_deployed)
     [Served (ingest_request flat_sat_frame) ctx, TimerFired, Polled, Handled ev (Ok ())] sv \<and>
     sv_submitter sv = Some demo_settled \<and> sv_store sv = Some s \<and> length (settlements s) = 1"
proof -
  let ?sv0 = "demo_server_on sim_deployed :: (settle_error, sim_chain, u64) server"
  let ?step = "server_step bytes_rt demo_ed demo_eth demo_js sim_client (log_node [demo_chain_log])"
  let ?run = "server_run bytes_rt demo_ed demo_eth demo_js sim_client (log_node [demo_chain_log]) ?sv0"
  let ?ev = "(event_for demo_flat_sat_intent (sim_hash sim_deployed) 1)\<lparr>ev_BlockTimeSec := 1001\<rparr>"
  let ?ctx = "\<lparr>responses = [(200, AcceptedReply 123 ''Community (SNLP)'')], aborted = False\<rparr>"
  define sv1 where "sv1 = ?sv0\<lparr>sv_submitter := Some (Enqueue sim_client demo_flat_sat_intent demo_submitter)\<rparr>"
  define sv2 where "sv2 = sv1\<lparr>sv_submitter := Some demo_settled\<rparr>"
  have s1: "?step ?sv0 (Served (ingest_request flat_sat_frame) ?ctx) sv1"
    by (rule server_step.request [where fate = Stored])
      (simp add: serve_def ingest_request_def outcome_simps demo_ingest demo_server_on_def sv1_def demo_submitter_def)
  have s2: "?step sv1 TimerFired sv2"
    unfolding sv2_def demo_settled_def by (rule server_step.timer) (simp add: sv1_def)
  obtain w' c' where poll: "Poll demo_eth (log_node [demo_chain_log]) demo_cursor 3 = (([?ev], None), w', c')"
    using demo_chain_poll by blast
  define sv3 where "sv3 = sv2\<lparr>sv_receipts := Some (demo_seller, w'), sv_events := [?ev], sv_node := c'\<rparr>"
  have s3: "?step sv2 Polled sv3"
    unfolding sv3_def by (rule server_step.poll) (use poll in \<open>simp_all add: sv2_def sv1_def demo_server_on_def\<close>)
  obtain p' s' where h: "Handle demo_ed demo_eth demo_js Stored ?ev (demo_seller, empty_store defaultReceiptsPath) = (Ok (), p', s')"
    "length (settlements s') = 1"
    using demo_handle_new [of ?ev] by blast
  define sv4 where "sv4 = sv3\<lparr>sv_receipts := Some (p', w'), sv_store := Some s', sv_events := []\<rparr>"
  have s4: "?step sv3 (Handled ?ev (Ok ())) sv4"
    unfolding sv4_def by (rule server_step.handle) (use h in \<open>simp_all add: sv3_def sv2_def sv1_def demo_server_on_def\<close>)
  have "?run [Served (ingest_request flat_sat_frame) ?ctx, TimerFired, Polled, Handled ?ev (Ok ())] sv4"
    using server_run.step [OF server_run.step [OF server_run.step [OF server_run.step [OF server_run.start s1] s2] s3] s4] by simp
  then show ?thesis
    using h(2) by (intro exI [of _ sv4] exI [of _ ?ev] exI [of _ ?ctx] exI [of _ s'] conjI) (simp_all add: sv4_def sv3_def sv2_def)
qed

lemma demo_chain_fits: "bodies_fit [Served (ingest_request flat_sat_frame) ctx, TimerFired, Polled, Handled ev r]"
  using flat_sat_frame_size by (simp add: bodies_fit_def ingest_request_def)

lemma demo_chain_ingested:
  "raw \<in> ingested [Served (ingest_request flat_sat_frame) ctx, TimerFired, Polled, Handled ev r] \<longleftrightarrow> raw = flat_sat_frame"
  by (auto simp: ingested_def ingest_request_def)

theorem only_signed_payments_settle_witness:
  "\<exists>sv ev ctx s key. server_run bytes_rt demo_ed demo_eth demo_js sim_client (log_node [demo_chain_log]) (demo_server_on sim_deployed)
     [Served (ingest_request flat_sat_frame) ctx, TimerFired, Polled, Handled ev (Ok ())] sv \<and>
     sv_submitter sv = Some demo_settled \<and> sim_logs (sw_chain demo_settled) = [demo_chain_log] \<and>
     (\<exists>i. settles demo_ed demo_eth (start_registry demo_ed) flat_sat_frame i \<and>
        event_of demo_eth demo_chain_log = event_for i (log_TxHash demo_chain_log) (log_BlockNumber demo_chain_log)) \<and>
     sv_store sv = Some s \<and> map record_key (settlements s) = [key] \<and>
     (\<exists>i h n. settles demo_ed demo_eth (start_registry demo_ed) flat_sat_frame i \<and> key = event_key demo_eth (event_for i h n))"
proof -
  obtain sv ev ctx s where run: "server_run bytes_rt demo_ed demo_eth demo_js sim_client (log_node [demo_chain_log])
      (demo_server_on sim_deployed) [Served (ingest_request flat_sat_frame) ctx, TimerFired, Polled, Handled ev (Ok ())] sv"
    and sv: "sv_submitter sv = Some demo_settled" "sv_store sv = Some s" "length (settlements s) = 1"
    using demo_chain_run by blast
  let ?labs = "[Served (ingest_request flat_sat_frame) ctx, TimerFired, Polled, Handled ev (Ok ())]"
  have laws: "seed_ok p \<and> honest_node (log_node [demo_chain_log]) (w_contract w) (eventTopic w) (sim_logs (sw_chain demo_settled))"
    if "sv_receipts (demo_server_on sim_deployed :: (settle_error, sim_chain, u64) server) = Some (p, w)" for p w
    using demo_receipts_laws [OF that] demo_chain_honest by (auto simp: demo_settled(1))
  have fresh: "sim_logs sim_deployed = []" by (simp add: sim_deployed_def)
  note safe = only_signed_payments_settle [OF bytes_stream.kaitai_stream_axioms demo_ed_ok demo_address_ok
      sim.escrow_node_axioms demo_start fresh laws run demo_chain_fits sv(1)]
  have old: "stored_keys (sv_store (demo_server_on sim_deployed :: (settle_error, sim_chain, u64) server)) = []"
    by (simp add: stored_keys_def demo_server_on_def)
  obtain key where key: "map record_key (settlements s) = [key]" using sv(3) by (auto simp: length_Suc_conv)
  have "\<exists>raw \<in> ingested ?labs. \<exists>i h n. settles demo_ed demo_eth (start_registry demo_ed) raw i \<and> key = event_key demo_eth (event_for i h n)"
    using safe sv(2) key unfolding old by fastforce
  moreover have "\<exists>raw \<in> ingested ?labs. \<exists>i. settles demo_ed demo_eth (start_registry demo_ed) raw i \<and>
      event_of demo_eth demo_chain_log = event_for i (log_TxHash demo_chain_log) (log_BlockNumber demo_chain_log)"
    using safe by (simp add: demo_settled(1))
  ultimately show ?thesis
    using run sv(1,2) key demo_settled(1) unfolding demo_chain_ingested Bex_def
    by (intro exI [of _ sv] exI [of _ ev] exI [of _ ctx] exI [of _ s] exI [of _ key] conjI) auto
qed

theorem ingested_intents_fit_the_contract_witness:
  "\<exists>sv ev ctx. server_run bytes_rt demo_ed demo_eth demo_js sim_client (log_node [demo_chain_log]) (demo_server_on sim_deployed)
     [Served (ingest_request flat_sat_frame) ctx, TimerFired, Polled, Handled ev (Ok ())] sv \<and>
     sv_submitter sv = Some demo_settled \<and> demo_flat_sat_intent \<in> set (accepted_intents demo_settled) \<and>
     unat (ei_txNonce (abi_intent demo_flat_sat_intent)) = in_TxNonce demo_flat_sat_intent"
proof -
  obtain sv ev ctx where run: "server_run bytes_rt demo_ed demo_eth demo_js sim_client (log_node [demo_chain_log])
      (demo_server_on sim_deployed) [Served (ingest_request flat_sat_frame) ctx, TimerFired, Polled, Handled ev (Ok ())] sv"
    and sv: "sv_submitter sv = Some demo_settled"
    using demo_chain_run by blast
  have mem: "demo_flat_sat_intent \<in> set (accepted_intents demo_settled)" by (simp add: demo_settled(2))
  with ingested_intents_fit_the_contract [OF bytes_stream.kaitai_stream_axioms demo_address_ok demo_start run demo_chain_fits sv mem mem]
    run sv show ?thesis unfolding Let_def by blast
qed

end
