(* ===== verification/Packet_Generator.thy ===== *)
theory Packet_Generator
  imports Settlement_Run
begin

text \<open>
  \<^verbatim>\<open>test/utils/generate_packets.go\<close>: the program that writes the golden wire vectors both regression suites
  read.  A \<^verbatim>\<open>bytes.Buffer\<close> is the list of the bytes written so far, \<^verbatim>\<open>log.Fatalf\<close> an \<^verbatim>\<open>Err\<close> of the outcome,
  a path the list of the elements given to \<^verbatim>\<open>filepath.Join\<close>.  Floating-point constants are their IEEE 754
  patterns.
\<close>

unbundle bit_operations_syntax

section \<open>Inputs\<close>

definition detEpochTsMs :: u64 where "detEpochTsMs = 1710000100000"
definition detSatId :: u32 where "detSatId = 0xCAFEBABE"
definition detAmount :: u64 where "detAmount = 420000000"
definition detAssetId :: u16 where "detAssetId = 1"
definition detSeedHex :: string where
  "detSeedHex = ''bc1df4fa6e3d7048992f14e655060cbb2190bded9002524c06e7cbb163df15fb''"

definition detPosVec :: "float64 list" where
  "detPosVec = [0x40BB620000000000, 0xC0C76B0000000000, 0x4081800000000000]"
definition detVelVec :: "float32 list" where
  "detVelVec = [0x40F00000, 0xBE4CCCCD, 0x3C23D70A]"

definition syncWord :: u32 where "syncWord = 0x1D01A5A5"
definition apidSatA :: u32 where "apidSatA = 100"
definition apidSatB :: u32 where "apidSatB = 101"
definition loraMaxLen :: nat where "loraMaxLen = 255"
definition gen_magicPacketD :: byte where "gen_magicPacketD = 0xD0"
definition gen_magicPacketAck :: byte where "gen_magicPacketAck = 0xAC"

lemmas det_defs = detEpochTsMs_def detSatId_def detAmount_def detAssetId_def detPosVec_def detVelVec_def
  syncWord_def apidSatA_def apidSatB_def gen_magicPacketD_def gen_magicPacketAck_def

lemma det_vec_lengths [simp]: "length detPosVec = 3" "length detVelVec = 3"
  by (simp_all add: detPosVec_def detVelVec_def)

datatype generator_error =
    BadSeed hex_error
  | InnerInvoiceLength nat
  | PreSigLength nat

text \<open>\<^verbatim>\<open>init\<close> leaves the key in \<^verbatim>\<open>detPriv\<close>; \<^verbatim>\<open>ed25519.NewKeyFromSeed\<close> panics on a seed of the wrong size.\<close>

definition detPriv :: "ed25519_lib \<Rightarrow> (generator_error, byte list) outcome" where
  "detPriv ed = (case DecodeString detSeedHex of
     Err e \<Rightarrow> Err (BadSeed e)
   | Panic \<Rightarrow> Panic
   | Ok seed \<Rightarrow> if length seed = SeedSize then Ok (NewKeyFromSeed ed seed) else Panic)"

section \<open>Headers and bodies\<close>

definition buildHeader :: "bool \<Rightarrow> int \<Rightarrow> u32 \<Rightarrow> bool \<Rightarrow> byte list" where
  "buildHeader isSnlp payloadLen apid isCmd =
     (let version = (0 :: u16); pktType = (if isCmd then 1 else 0 :: u16); secFlag = (1 :: u16);
          idFieldVal = push_bit 13 version OR push_bit 12 pktType OR push_bit 11 secFlag OR ucast (apid AND 0x7FF)
      in (if isSnlp then be_bytes 4 syncWord else []) @
         be_bytes 2 idFieldVal @ be_bytes 2 (0xC000 :: u16) @ be_bytes 2 (word_of_int (payloadLen - 1) :: u16) @
         (if isSnlp then be_bytes 4 (0 :: u32) else []))"

definition getCRC :: "byte list \<Rightarrow> u32" where
  "getCRC data = ChecksumIEEE data"

definition writeLE_all :: "nat \<Rightarrow> 'a::len word list \<Rightarrow> byte list" where
  "writeLE_all n ws = concat (map (le_bytes n) ws)"

definition genPacketA :: "bool \<Rightarrow> byte list" where
  "genPacketA isSnlp =
     (let body = [0, 0] @ le_bytes 8 detEpochTsMs @ writeLE_all 8 detPosVec @ writeLE_all 4 detVelVec @
            le_bytes 4 detSatId @ le_bytes 8 detAmount @ le_bytes 2 detAssetId @ [0, 0];
          header = buildHeader isSnlp 66 apidSatA False;
          crc = getCRC (header @ body)
      in header @ body @ le_bytes 4 crc)"

definition genPacketB :: "ed25519_lib \<Rightarrow> byte list \<Rightarrow> bool \<Rightarrow> (generator_error, byte list) outcome" where
  "genPacketB ed priv isSnlp =
     (let body = [0, 0] @ le_bytes 8 detEpochTsMs @ writeLE_all 8 detPosVec;
          packetA = genPacketA isSnlp;
          detInvoiceCRC = (le_word (drop (length packetA - 4) packetA) :: u32);
          enc = le_bytes 8 detEpochTsMs @ writeLE_all 8 detPosVec @ writeLE_all 4 detVelVec @ le_bytes 4 detSatId @
            le_bytes 8 detAmount @ le_bytes 2 detAssetId @ le_bytes 4 detInvoiceCRC
      in if length enc \<noteq> 62 then Err (InnerInvoiceLength (length enc))
         else let body = body @ enc @ [0, 0] @ le_bytes 4 detSatId @ replicate 4 0;
                  header = buildHeader isSnlp 178 apidSatB False
           in if length body \<noteq> 106 then Err (PreSigLength (length body))
              else let signature = Sign ed priv (header @ body);
                       body = body @ signature;
                       crc = getCRC (header @ body)
                in Ok (header @ body @ le_bytes 4 crc @ replicate 4 0))"

definition genPacketH :: "ed25519_lib \<Rightarrow> byte list \<Rightarrow> bool \<Rightarrow> byte list" where
  "genPacketH ed priv isSnlp =
     (let pubKey = map (\<lambda>i. word_of_nat (0xA0 + i)) [0..<32];
          msg = le_bytes 2 (900 :: u16) @ le_bytes 8 detEpochTsMs @ pubKey;
          signature = Sign ed priv msg
      in buildHeader isSnlp 106 apidSatB False @ msg @ signature)"

definition genPacketC :: "ed25519_lib \<Rightarrow> byte list \<Rightarrow> bool \<Rightarrow> byte list" where
  "genPacketC ed priv isSnlp =
     (let msg = [0, 0] @ le_bytes 8 detEpochTsMs @ le_bytes 8 (0xDEADBEEFCAFEBABE :: u64) @ le_bytes 1 (1 :: byte) @ replicate 7 0;
          signature = Sign ed priv msg;
          fullBody = msg @ signature;
          header = buildHeader isSnlp 98 apidSatA False;
          crc = getCRC (header @ fullBody)
      in header @ fullBody @ le_bytes 4 crc @ replicate 4 0)"

definition genPacketD :: "bool \<Rightarrow> byte list" where
  "genPacketD isSnlp =
     (let payload = map (\<lambda>i. word_of_nat (0xE0 + i)) [0..<98];
          msg = [gen_magicPacketD, 0] @ le_bytes 8 detEpochTsMs @ le_bytes 4 detSatId @ payload;
          header = buildHeader isSnlp 122 apidSatB False;
          crc = getCRC (header @ msg)
      in header @ msg @ le_bytes 4 crc @ replicate 6 0)"

definition genPacketAck :: "bool \<Rightarrow> byte list" where
  "genPacketAck isSnlp =
     (let tunnelSize = (if isSnlp then 96 else 88); payloadLen = (if isSnlp then 122 else 114);
          tunnel = map (\<lambda>i. word_of_nat (0xAA + i)) [0..<tunnelSize];
          msg = [gen_magicPacketAck, 0] @ le_bytes 4 (0xCAFEBABE :: u32) @ le_bytes 1 (1 :: byte) @ [0] @
            le_bytes 2 (180 :: u16) @ le_bytes 2 (45 :: u16) @ le_bytes 4 (437200000 :: u32) @ le_bytes 4 (5000 :: u32) @
            tunnel @ [0, 0];
          header = buildHeader isSnlp payloadLen apidSatB True;
          crc = getCRC (header @ msg)
      in header @ msg @ le_bytes 4 crc)"

definition genPacketL :: "bool \<Rightarrow> byte list" where
  "genPacketL isSnlp =
     (let msg = [0, 0] @ le_bytes 8 detEpochTsMs @ le_bytes 4 (100800 :: u32) @ le_bytes 4 (515000000 :: u32) @
            le_bytes 4 (- 128000 :: u32) @ le_bytes 2 (4100 :: u16) @ le_bytes 2 (2300 :: u16) @ le_bytes 2 (600 :: u16) @
            le_bytes 1 (3 :: byte) @ le_bytes 1 (8 :: byte);
          header = buildHeader isSnlp 34 apidSatB False;
          crc = getCRC (header @ msg)
      in header @ msg @ le_bytes 4 crc)"

section \<open>Emission\<close>

record packetSpec =
  ps_file :: string
  ps_fn :: "bool \<Rightarrow> (generator_error, byte list) outcome"
  ps_ccsds :: nat
  ps_snlp :: nat

definition goldenPackets :: "ed25519_lib \<Rightarrow> byte list \<Rightarrow> packetSpec list" where
  "goldenPackets ed priv =
     [\<lparr>ps_file = ''packet_a.bin'', ps_fn = (\<lambda>s. Ok (genPacketA s)), ps_ccsds = 72, ps_snlp = 80\<rparr>,
      \<lparr>ps_file = ''packet_b.bin'', ps_fn = genPacketB ed priv, ps_ccsds = 184, ps_snlp = 192\<rparr>,
      \<lparr>ps_file = ''packet_c.bin'', ps_fn = (\<lambda>s. Ok (genPacketC ed priv s)), ps_ccsds = 104, ps_snlp = 112\<rparr>,
      \<lparr>ps_file = ''packet_d.bin'', ps_fn = (\<lambda>s. Ok (genPacketD s)), ps_ccsds = 128, ps_snlp = 136\<rparr>,
      \<lparr>ps_file = ''packet_h.bin'', ps_fn = (\<lambda>s. Ok (genPacketH ed priv s)), ps_ccsds = 112, ps_snlp = 120\<rparr>,
      \<lparr>ps_file = ''packet_ack.bin'', ps_fn = (\<lambda>s. Ok (genPacketAck s)), ps_ccsds = 120, ps_snlp = 136\<rparr>,
      \<lparr>ps_file = ''packet_l.bin'', ps_fn = (\<lambda>s. Ok (genPacketL s)), ps_ccsds = 40, ps_snlp = 48\<rparr>]"

definition tiers :: "(string \<times> bool) list" where
  "tiers = [(''ccsds'', False), (''snlp'', True)]"

datatype vector_error =
    WrongLength string string nat nat
  | Misaligned4 string string nat
  | Misaligned8 string string nat
  | TooLong string string nat

definition verifyVector :: "string \<Rightarrow> string \<Rightarrow> byte list \<Rightarrow> nat \<Rightarrow> vector_error option" where
  "verifyVector tier file data want =
     (let n = length data in
      if n \<noteq> want then Some (WrongLength tier file n want)
      else if n mod 4 \<noteq> 0 then Some (Misaligned4 tier file n)
      else if n mod 8 \<noteq> 0 then Some (Misaligned8 tier file n)
      else if n > loraMaxLen then Some (TooLong tier file n)
      else None)"

datatype emit_error =
    MkdirError "string list" string
  | VectorError vector_error
  | WriteFileError "string list" string
  | GeneratorDied generator_error

text \<open>The files on disk: \<^verbatim>\<open>os.MkdirAll\<close> and \<^verbatim>\<open>os.WriteFile\<close> are parameters that may fail.\<close>

record vector_disk =
  vd_mkdir :: "string list \<Rightarrow> string option"
  vd_write :: "string list \<Rightarrow> string option"

fun make_dirs :: "vector_disk \<Rightarrow> string \<Rightarrow> (string \<times> bool) list \<Rightarrow> emit_error option" where
  "make_dirs d root [] = None"
| "make_dirs d root (t # ts) = (case vd_mkdir d [root, fst t] of
     Some e \<Rightarrow> Some (MkdirError [root, fst t] e)
   | None \<Rightarrow> make_dirs d root ts)"

type_synonym files = "(string list \<times> byte list) list"

definition emit_one ::
    "vector_disk \<Rightarrow> string \<Rightarrow> packetSpec \<Rightarrow> string \<times> bool \<Rightarrow> files \<Rightarrow> (emit_error, unit) outcome \<times> files" where
  "emit_one d root p t files =
     (case ps_fn p (snd t) of
        Panic \<Rightarrow> (Panic, files)
      | Err e \<Rightarrow> (Err (GeneratorDied e), files)
      | Ok data \<Rightarrow>
          (case verifyVector (fst t) (ps_file p) data (if snd t then ps_snlp p else ps_ccsds p) of
             Some e \<Rightarrow> (Err (VectorError e), files)
           | None \<Rightarrow>
               (case vd_write d [root, fst t, ps_file p] of
                  Some e \<Rightarrow> (Err (WriteFileError [root, fst t, ps_file p] e), files)
                | None \<Rightarrow> (Ok (), files @ [([root, fst t, ps_file p], data)]))))"

fun emit_all ::
    "vector_disk \<Rightarrow> string \<Rightarrow> (packetSpec \<times> string \<times> bool) list \<Rightarrow> files \<Rightarrow> (emit_error, unit) outcome \<times> files" where
  "emit_all d root [] files = (Ok (), files)"
| "emit_all d root ((p, t) # rest) files = (case emit_one d root p t files of
     (Ok _, files') \<Rightarrow> emit_all d root rest files'
   | stopped \<Rightarrow> stopped)"

definition writeGoldenVectors ::
    "vector_disk \<Rightarrow> ed25519_lib \<Rightarrow> byte list \<Rightarrow> string \<Rightarrow> (emit_error, unit) outcome \<times> files" where
  "writeGoldenVectors d ed priv root =
     (case make_dirs d root tiers of
        Some e \<Rightarrow> (Err e, [])
      | None \<Rightarrow> emit_all d root (List.product (goldenPackets ed priv) tiers) [])"

text \<open>
  The program with its two flags: the exit status and the files it has written.  \<^verbatim>\<open>init\<close> runs first;
  \<^verbatim>\<open>log.Fatalf\<close> exits with 1, a panic and the missing flag with 2.
\<close>

definition generate_packets_main :: "vector_disk \<Rightarrow> ed25519_lib \<Rightarrow> bool \<Rightarrow> string \<Rightarrow> int \<times> files" where
  "generate_packets_main d ed deterministic outDir =
     (case detPriv ed of
        Err e \<Rightarrow> (1, [])
      | Panic \<Rightarrow> (2, [])
      | Ok priv \<Rightarrow>
          if \<not> deterministic then (2, [])
          else case writeGoldenVectors d ed priv outDir of
             (Ok _, files) \<Rightarrow> (0, files)
           | (Err e, files) \<Rightarrow> (1, files)
           | (Panic, files) \<Rightarrow> (2, files))"

section \<open>The vectors as frames\<close>

definition gen_id :: "u32 \<Rightarrow> bool \<Rightarrow> u16" where
  "gen_id apid isCmd = push_bit 13 (0 :: u16) OR push_bit 12 (if isCmd then 1 else 0) OR push_bit 11 1 OR ucast (apid AND 0x7FF)"

lemma gen_ids:
  "gen_id apidSatA False = 2148" "gen_id apidSatB False = 2149" "gen_id apidSatB True = 6245"
  by code_simp+

lemma gen_tier: "v \<in> {2148, 2149, 6245} \<Longrightarrow> tier_ok s v 0xC000 \<and> drop_bit 13 v AND 7 = (0 :: u16)"
proof -
  have "\<forall>v \<in> {2148, 2149, 6245 :: u16}. be_bytes 2 v @ be_bytes 2 (0xC000 :: u16) \<noteq> [29, 1, 165, 165] \<and> drop_bit 13 v AND 7 = 0"
    by code_simp
  then show "v \<in> {2148, 2149, 6245} \<Longrightarrow> tier_ok s v 0xC000 \<and> drop_bit 13 v AND 7 = (0 :: u16)"
    unfolding tier_ok_def by blast
qed

lemma buildHeader_frame:
  assumes "n = int (length body)" and "body \<noteq> []"
  shows "buildHeader s n apid cmd @ body = frame_bytes s (gen_id apid cmd) 0xC000 body"
proof -
  have "be_bytes 4 syncWord = [29, 1, 165, 165]" "be_bytes 4 (0 :: u32) = [0, 0, 0, 0]" by code_simp+
  moreover have "(word_of_int (n - 1) :: u16) = length_word (length body)"
    using assms by (cases body) (simp_all add: length_word_def)
  ultimately show ?thesis by (simp add: buildHeader_def frame_bytes_def gen_id_def Let_def)
qed

lemma length_buildHeader [simp]: "length (buildHeader s n apid cmd) = header_len s"
  by (simp add: buildHeader_def Let_def header_len_def)

lemma length_writeLE_all [simp]: "length (writeLE_all n ws) = n * length ws"
  by (induction ws) (simp_all add: writeLE_all_def)

text \<open>A frame of the generator reaches the verdict on its body.\<close>

lemma golden_verdict:
  assumes "v \<in> {2148, 2149, 6245}" and "decode_body (length body) body = Some b" and "1 \<le> length body" and "length body < 65536"
  shows "frame_verdict ed db (frame_bytes s v 0xC000 body) = body_verdict ed db (frame_bytes s v 0xC000 body) b"
proof -
  have "frame_bytes s v 0xC000 body \<noteq> []" using assms(3) by (metis length_frame_bytes list.size(3) add_is_0 not_one_le_zero)
  then show ?thesis
    using gen_tier [OF assms(1), of s] decode_frame_frame_bytes [of s v "0xC000" body] assms(2-4)
    by (simp add: frame_verdict_def frame_words_def)
qed

lemma golden_unsigned:
  "frame_verdict ed db (genPacketA s) = Accepted None" "frame_verdict ed db (genPacketL s) = Accepted None"
proof -
  let ?a = "[0, 0] @ le_bytes 8 detEpochTsMs @ writeLE_all 8 detPosVec @ writeLE_all 4 detVelVec @
    le_bytes 4 detSatId @ le_bytes 8 detAmount @ le_bytes 2 detAssetId @ [0, 0]"
  let ?ab = "?a @ le_bytes 4 (getCRC (buildHeader s 66 apidSatA False @ ?a))"
  have "genPacketA s = buildHeader s 66 apidSatA False @ ?ab" by (simp add: genPacketA_def Let_def)
  also have "\<dots> = frame_bytes s 2148 0xC000 ?ab"
    unfolding gen_ids(1) [symmetric] by (rule buildHeader_frame) simp_all
  finally show "frame_verdict ed db (genPacketA s) = Accepted None"
    using golden_verdict [of 2148 ?ab "PacketABody (decode_PacketABody ?ab)" ed db s]
    by (simp add: decode_body_def body_verdict_def)
  let ?l = "[0, 0] @ le_bytes 8 detEpochTsMs @ le_bytes 4 (100800 :: u32) @ le_bytes 4 (515000000 :: u32) @
    le_bytes 4 (- 128000 :: u32) @ le_bytes 2 (4100 :: u16) @ le_bytes 2 (2300 :: u16) @ le_bytes 2 (600 :: u16) @
    le_bytes 1 (3 :: byte) @ le_bytes 1 (8 :: byte)"
  let ?lb = "?l @ le_bytes 4 (getCRC (buildHeader s 34 apidSatB False @ ?l))"
  have "genPacketL s = buildHeader s 34 apidSatB False @ ?lb" by (simp add: genPacketL_def Let_def)
  also have "\<dots> = frame_bytes s 2149 0xC000 ?lb"
    unfolding gen_ids(2) [symmetric] by (rule buildHeader_frame) simp_all
  finally show "frame_verdict ed db (genPacketL s) = Accepted None"
    using golden_verdict [of 2149 ?lb "HeartbeatBody (decode_HeartbeatBody ?lb)" ed db s]
    by (simp add: decode_body_def body_verdict_def)
qed

abbreviation det_key :: "ed25519_lib \<Rightarrow> byte list" where
  "det_key ed \<equiv> NewKeyFromSeed ed demo_seed"

lemma det_key: "detPriv ed = Ok (det_key ed)"
proof -
  have "detSeedHex = demoSellerSeedHex" by (simp add: detSeedHex_def demoSellerSeedHex_def)
  then show ?thesis using demo_seed by (simp add: detPriv_def)
qed

lemma det_sig_length: "ed25519_ok ed \<Longrightarrow> length (Sign ed (det_key ed) msg) = 64"
  using demo_seed(2) by (simp add: ed25519_ok_def SignatureSize_def)

lemma golden_handshake:
  assumes "ed25519_ok ed"
  shows "frame_verdict ed db (genPacketH ed (det_key ed) s) = Accepted None" and "length (genPacketH ed (det_key ed) s) = header_len s + 106"
proof -
  let ?m = "le_bytes 2 (900 :: u16) @ le_bytes 8 detEpochTsMs @ map (\<lambda>i. word_of_nat (0xA0 + i)) [0..<32]"
  let ?b = "?m @ Sign ed (det_key ed) ?m"
  have len: "length ?b = 106" using det_sig_length [OF assms] by simp
  have "genPacketH ed (det_key ed) s = buildHeader s 106 apidSatB False @ ?b" by (simp add: genPacketH_def Let_def)
  also have "\<dots> = frame_bytes s 2149 0xC000 ?b"
    unfolding gen_ids(2) [symmetric] by (rule buildHeader_frame) (use len in simp_all)
  finally have fr: "genPacketH ed (det_key ed) s = frame_bytes s 2149 0xC000 ?b" .
  show "frame_verdict ed db (genPacketH ed (det_key ed) s) = Accepted None"
    using golden_verdict [of 2149 ?b "PacketHBody (decode_PacketHBody ?b)" ed db s] len fr
    by (simp add: decode_body_def body_verdict_def)
  show "length (genPacketH ed (det_key ed) s) = header_len s + 106" unfolding fr using len by simp
qed

text \<open>A body that ends in the CRC of everything before it, and a tail, passes the gate.\<close>

lemma golden_crc_ok:
  assumes "raw = data @ le_bytes 4 (getCRC data) @ tail" and "length raw < 1000"
  shows "crc_ok raw (int (4 + length tail))"
  using ValidateFrameCRC32_self [of data tail] assms by (simp add: crc_ok_def getCRC_def)

lemma golden_delivery:
  "frame_verdict ed db (genPacketD s) = Accepted None" "length (genPacketD s) = header_len s + 122"
proof -
  let ?m = "[gen_magicPacketD, 0] @ le_bytes 8 detEpochTsMs @ le_bytes 4 detSatId @ map (\<lambda>i. word_of_nat (0xE0 + i)) [0..<98]"
  let ?h = "buildHeader s 122 apidSatB False"
  let ?b = "?m @ le_bytes 4 (getCRC (?h @ ?m)) @ replicate 6 0"
  have gen: "genPacketD s = ?h @ ?b" by (simp add: genPacketD_def Let_def)
  also have "\<dots> = frame_bytes s 2149 0xC000 ?b"
    unfolding gen_ids(2) [symmetric] by (rule buildHeader_frame) simp_all
  finally have fr: "genPacketD s = frame_bytes s 2149 0xC000 ?b" .
  have "crc_ok (genPacketD s) 10"
    using golden_crc_ok [of "genPacketD s" "?h @ ?m" "replicate 6 0"] gen by (simp add: header_len_def)
  moreover have "Content (decode_dispatch ?b) = Some (PacketDBody (decode_PacketDBody ?b))"
    by (simp add: decode_dispatch_def le_word_byte gen_magicPacketD_def)
  ultimately show "frame_verdict ed db (genPacketD s) = Accepted None"
    using golden_verdict [of 2149 ?b "Dispatch122 (decode_dispatch ?b)" ed db s] fr
    by (simp add: decode_body_def body_verdict_def if_crc_def)
  show "length (genPacketD s) = header_len s + 122" by (simp add: gen)
qed

lemma golden_ack:
  "frame_verdict ed db (genPacketAck s) = Accepted None" "length (genPacketAck s) = header_len s + (if s then 122 else 114)"
proof -
  let ?n = "if s then 96 else 88 :: nat"
  let ?m = "[gen_magicPacketAck, 0] @ le_bytes 4 (0xCAFEBABE :: u32) @ le_bytes 1 (1 :: byte) @ [0] @
    le_bytes 2 (180 :: u16) @ le_bytes 2 (45 :: u16) @ le_bytes 4 (437200000 :: u32) @ le_bytes 4 (5000 :: u32) @
    map (\<lambda>i. word_of_nat (0xAA + i)) [0..<?n] @ [0, 0]"
  let ?h = "buildHeader s (if s then 122 else 114) apidSatB True"
  let ?b = "?m @ le_bytes 4 (getCRC (?h @ ?m))"
  have gen: "genPacketAck s = ?h @ ?b" by (simp add: genPacketAck_def Let_def)
  have len: "length ?b = (if s then 122 else 114)" by simp
  have "?h @ ?b = frame_bytes s 6245 0xC000 ?b"
    unfolding gen_ids(3) [symmetric] by (rule buildHeader_frame) (use len in simp_all)
  with gen have fr: "genPacketAck s = frame_bytes s 6245 0xC000 ?b" by (rule trans)
  have crc: "crc_ok (genPacketAck s) 4"
    using golden_crc_ok [of "genPacketAck s" "?h @ ?m" "[]"] gen by (simp add: header_len_def)
  have dis: "Content (decode_dispatch ?b) = Some (PacketAckBodySnlp (decode_PacketAckBodySnlp ?b))"
    by (simp add: decode_dispatch_def le_word_byte gen_magicPacketAck_def)
  show "frame_verdict ed db (genPacketAck s) = Accepted None"
  proof (cases s)
    case True
    with golden_verdict [of 6245 ?b "Dispatch122 (decode_dispatch ?b)" ed db s] fr crc dis len show ?thesis
      by (simp add: decode_body_def body_verdict_def if_crc_def)
  next
    case False
    with golden_verdict [of 6245 ?b "PacketAckBodyCcsds (decode_PacketAckBodyCcsds ?b)" ed db s] fr crc len show ?thesis
      by (simp add: decode_body_def body_verdict_def if_crc_def gen_magicPacketAck_def)
  qed
  show "length (genPacketAck s) = header_len s + (if s then 122 else 114)" by (simp add: gen)
qed

definition golden_invoice :: "bool \<Rightarrow> byte list" where
  "golden_invoice s = le_bytes 8 detEpochTsMs @ writeLE_all 8 detPosVec @ writeLE_all 4 detVelVec @ le_bytes 4 detSatId @
     le_bytes 8 detAmount @ le_bytes 2 detAssetId @
     le_bytes 4 (le_word (drop (length (genPacketA s) - 4) (genPacketA s)) :: u32)"

definition golden_presig :: "bool \<Rightarrow> byte list" where
  "golden_presig s = [0, 0] @ le_bytes 8 detEpochTsMs @ writeLE_all 8 detPosVec @ golden_invoice s @ [0, 0] @
     le_bytes 4 detSatId @ replicate 4 0"

definition golden_payment :: "ed25519_lib \<Rightarrow> bool \<Rightarrow> packet_b_body" where
  "golden_payment ed s = (let h = buildHeader s 178 apidSatB False; sig = Sign ed (det_key ed) (h @ golden_presig s) in
     \<lparr>pb_PadHead = [0, 0], pb_EpochTs = detEpochTsMs, pb_PosVec = decode_vector3d (writeLE_all 8 detPosVec),
      pb_EncPayload = golden_invoice s, pb_PreSat = [0, 0], pb_SatId = detSatId, pb_PreSig = replicate 4 0,
      pb_Signature = \<lparr>sig_Raw = sig\<rparr>, pb_GlobalCrc = getCRC (h @ golden_presig s @ sig), pb_TailPad = replicate 4 0\<rparr>)"

lemma golden_lengths [simp]: "length (golden_invoice s) = 62" "length (golden_presig s) = 106"
  by (simp_all add: golden_invoice_def golden_presig_def)

lemma golden_payment_bytes:
  "encode_PacketBBody (golden_payment ed s) = golden_presig s @ sig_Raw (pb_Signature (golden_payment ed s)) @
     le_bytes 4 (pb_GlobalCrc (golden_payment ed s)) @ replicate 4 0"
proof -
  have "encode_vector3d (decode_vector3d (writeLE_all 8 detPosVec)) = writeLE_all 8 detPosVec"
    by (rule vector3d_layout.enc_dec) simp
  then show ?thesis
    by (simp add: encode_PacketBBody_def golden_payment_def golden_presig_def Let_def)
qed

lemma golden_payment_signed:
  assumes "ed25519_ok ed"
  shows "flat_sat_signed ed s 2149 0xC000 (golden_payment ed s)"
    and "genPacketB ed (det_key ed) s = Ok (frame_bytes s 2149 0xC000 (encode_PacketBBody (golden_payment ed s)))"
proof -
  let ?b = "golden_payment ed s" and ?h = "buildHeader s 178 apidSatB False"
  have sig: "sig_Raw (pb_Signature ?b) = Sign ed (det_key ed) (?h @ golden_presig s)" by (simp add: golden_payment_def Let_def)
  have fits: "fits_PacketBBody ?b"
    using det_sig_length [OF assms] by (simp add: fits_PacketBBody_def golden_payment_def Let_def)
  have len: "length (encode_PacketBBody ?b) = 178" by (rule packet_b_body_layout.length_enc [OF fits])
  then have fr: "?h @ encode_PacketBBody ?b = frame_bytes s 2149 0xC000 (encode_PacketBBody ?b)"
    unfolding gen_ids(2) [symmetric] by (intro buildHeader_frame) auto
  have "take (header_len s + PacketBSigScopeBody) (frame_bytes s 2149 0xC000 (encode_PacketBBody ?b)) = ?h @ golden_presig s"
    unfolding fr [symmetric] by (simp add: golden_payment_bytes PacketBSigScopeBody_def)
  moreover have "pb_SatId ?b = FlatSatDemoSatID" by (simp add: golden_payment_def detSatId_def FlatSatDemoSatID_def Let_def)
  ultimately show "flat_sat_signed ed s 2149 0xC000 ?b"
    using fits sig gen_tier [of 2149 s] by (simp add: flat_sat_signed_def)
  have "genPacketB ed (det_key ed) s = Ok (?h @ encode_PacketBBody ?b)"
    unfolding golden_payment_bytes
    by (simp add: genPacketB_def golden_payment_def golden_presig_def golden_invoice_def Let_def)
  then show "genPacketB ed (det_key ed) s = Ok (frame_bytes s 2149 0xC000 (encode_PacketBBody ?b))" by (simp only: fr)
qed

lemma golden_payment_intent:
  "flat_sat_intent eth (golden_payment ed s) = \<lparr>in_SatId = 0xCAFEBABE, in_Amount = 420000000, in_AssetId = 1,
     in_TxNonce = DeriveTxNonce 0xCAFEBABE 1710000100000, in_Wallet = HexToAddress eth FlatSatDemoWallet\<rparr>"
proof -
  have "seg (golden_invoice s) 48 56 = le_bytes 8 detAmount" "seg (golden_invoice s) 56 58 = le_bytes 2 detAssetId"
    by (simp_all add: golden_invoice_def seg_def)
  then show ?thesis
    by (simp add: flat_sat_intent_def golden_payment_def Let_def codec_simps detAmount_def detAssetId_def detEpochTsMs_def
        FlatSatDemoSatID_def)
qed

section \<open>Receipts\<close>

definition golden_inputs :: inputs where
  "golden_inputs = \<lparr>ExecTimeMs = detEpochTsMs, EncTxID = 0xDEADBEEFCAFEBABE, EncStatus = 1, APID = 100, in_SeqCount = 0,
     SeedEd25519 = demo_seed\<rparr>"

lemma golden_header: "buildHeader True 98 apidSatA False = receipt_header golden_inputs"
proof -
  have "be_bytes 4 syncWord = [29, 1, 165, 165]" "be_bytes 4 (0 :: u32) = [0, 0, 0, 0]"
    "be_bytes 2 (word_of_int (98 - 1) :: u16) = [0, 97]" by code_simp+
  moreover have "gen_id apidSatA False = receipt_id golden_inputs" "(0xC000 :: u16) = receipt_seq golden_inputs"
    unfolding gen_ids(1) by (simp_all add: receipt_id_def receipt_seq_def golden_inputs_def) 
  ultimately show ?thesis
    by (simp add: buildHeader_def receipt_header_def gen_id_def Let_def)
qed

lemma golden_receipt_verdict:
  assumes "ed25519_ok ed"
  defines "msg \<equiv> receipt_scope golden_inputs"
  shows "frame_verdict ed db (genPacketC ed (det_key ed) s) =
      (if signature_ok ed db 100 msg (Sign ed (det_key ed) msg) then Accepted None
       else Rejected 401 ''Invalid Cryptographic Signature'')"
    and "length (genPacketC ed (det_key ed) s) = header_len s + 98"
proof -
  let ?h = "buildHeader s 98 apidSatA False" and ?sig = "Sign ed (det_key ed) msg"
  let ?b = "msg @ ?sig @ le_bytes 4 (getCRC (?h @ msg @ ?sig)) @ replicate 4 0"
  have one: "le_bytes (Suc 0) (1 :: byte) = [1]" by (simp add: le_bytes_def)
  have msg: "length msg = 26" by (simp add: msg_def)
  then have len: "length ?b = 98" using det_sig_length [OF assms(1)] by simp
  have "genPacketC ed (det_key ed) s = ?h @ ?b"
    by (simp add: genPacketC_def Let_def msg_def receipt_scope_def golden_inputs_def one)
  also have "\<dots> = frame_bytes s 2148 0xC000 ?b"
    unfolding gen_ids(1) [symmetric] by (rule buildHeader_frame) (use len in auto)
  finally have fr: "genPacketC ed (det_key ed) s = frame_bytes s 2148 0xC000 ?b" .
  then show lr: "length (genPacketC ed (det_key ed) s) = header_len s + 98" using len by simp
  have "seg (?h @ ?b) (header_len s) (26 + header_len s) = msg" using msg by (simp add: seg_def)
  then have scope: "seg (genPacketC ed (det_key ed) s) (header_len s) (26 + header_len s) = msg"
    unfolding fr using buildHeader_frame [of 98 ?b s apidSatA False] len unfolding gen_ids(1) by auto
  have sig: "sig_Raw (pc_Signature (decode_PacketCBody ?b)) = ?sig"
    using msg det_sig_length [OF assms(1)] by (simp add: decode_PacketCBody_def seg_def)
  show "frame_verdict ed db (genPacketC ed (det_key ed) s) =
      (if signature_ok ed db 100 msg ?sig then Accepted None else Rejected 401 ''Invalid Cryptographic Signature'')"
    using golden_verdict [of 2148 ?b "PacketCBody (decode_PacketCBody ?b)" ed db s, folded fr] len sig scope
    by (simp add: decode_body_def body_verdict_def lr)
qed

section \<open>Emission on a working disk\<close>

definition vector_of :: "packetSpec \<Rightarrow> string \<times> bool \<Rightarrow> byte list" where
  "vector_of p t = (case ps_fn p (snd t) of Ok data \<Rightarrow> data | _ \<Rightarrow> [])"

definition vector_ok :: "packetSpec \<Rightarrow> string \<times> bool \<Rightarrow> bool" where
  "vector_ok p t \<longleftrightarrow> ps_fn p (snd t) = Ok (vector_of p t) \<and>
     verifyVector (fst t) (ps_file p) (vector_of p t) (if snd t then ps_snlp p else ps_ccsds p) = None"

lemma emit_all_Ok:
  assumes "\<And>path. vd_write d path = None" and "\<forall>(p, t) \<in> set jobs. vector_ok p t"
  shows "emit_all d root jobs files = (Ok (), files @ map (\<lambda>(p, t). ([root, fst t, ps_file p], vector_of p t)) jobs)"
  using assms(2)
  by (induction jobs arbitrary: files) (auto simp: emit_one_def vector_ok_def assms(1))

lemma verifyVector_None:
  "verifyVector tier file data want = None \<longleftrightarrow> length data = want \<and> length data mod 8 = 0 \<and> length data \<le> 255"
proof -
  have "length data mod 8 = 0 \<Longrightarrow> length data mod 4 = 0" by presburger
  then show ?thesis by (auto simp: verifyVector_def loraMaxLen_def Let_def)
qed

lemma golden_vectors_ok:
  assumes "ed25519_ok ed" and "p \<in> set (goldenPackets ed (det_key ed))" and "t \<in> set tiers"
  shows "vector_ok p t"
proof -
  have "length (genPacketA s) = header_len s + 66" "length (genPacketL s) = header_len s + 34" for s
    by (simp_all add: genPacketA_def genPacketL_def Let_def)
  moreover have "length (encode_PacketBBody (golden_payment ed s)) = 178" for s
    using golden_payment_signed(1) [OF assms(1), of s]
    by (intro packet_b_body_layout.length_enc) (simp add: flat_sat_signed_def)
  ultimately show ?thesis
    using assms(2,3) golden_delivery(2) golden_ack(2) golden_handshake(2) [OF assms(1)] golden_receipt_verdict(2) [OF assms(1)]
      golden_payment_signed(2) [OF assms(1)]
    by (auto simp: goldenPackets_def tiers_def vector_ok_def vector_of_def verifyVector_None header_len_def)
qed

text \<open>The files of a run without errors, with their sizes.\<close>

lemma golden_sizes:
  assumes "ed25519_ok ed"
  shows "map (\<lambda>(path, data). (path, length data))
      (map (\<lambda>(p, t). ([root, fst t, ps_file p], vector_of p t)) (List.product (goldenPackets ed (det_key ed)) tiers)) =
     [([root, ''ccsds'', ''packet_a.bin''], 72), ([root, ''snlp'', ''packet_a.bin''], 80),
      ([root, ''ccsds'', ''packet_b.bin''], 184), ([root, ''snlp'', ''packet_b.bin''], 192),
      ([root, ''ccsds'', ''packet_c.bin''], 104), ([root, ''snlp'', ''packet_c.bin''], 112),
      ([root, ''ccsds'', ''packet_d.bin''], 128), ([root, ''snlp'', ''packet_d.bin''], 136),
      ([root, ''ccsds'', ''packet_h.bin''], 112), ([root, ''snlp'', ''packet_h.bin''], 120),
      ([root, ''ccsds'', ''packet_ack.bin''], 120), ([root, ''snlp'', ''packet_ack.bin''], 136),
      ([root, ''ccsds'', ''packet_l.bin''], 40), ([root, ''snlp'', ''packet_l.bin''], 48)]"
proof -
  have size: "length (vector_of p t) = (if snd t then ps_snlp p else ps_ccsds p)"
    if "p \<in> set (goldenPackets ed (det_key ed))" "t \<in> set tiers" for p t
    using golden_vectors_ok [OF assms that] by (simp add: vector_ok_def verifyVector_None)
  have "map (\<lambda>(path, data). (path, length data))
      (map (\<lambda>(p, t). ([root, fst t, ps_file p], vector_of p t)) (List.product (goldenPackets ed (det_key ed)) tiers))
    = map (\<lambda>(p, t). ([root, fst t, ps_file p], if snd t then ps_snlp p else ps_ccsds p)) (List.product (goldenPackets ed (det_key ed)) tiers)"
    using size by auto
  then show ?thesis by (simp add: goldenPackets_def tiers_def)
qed

text \<open>What the started gateway answers to one vector.\<close>

definition golden_answer ::
    "'s kaitai_rt \<Rightarrow> ed25519_lib \<Rightarrow> eth_lib \<Rightarrow> byte list \<Rightarrow> string list \<Rightarrow> byte list \<Rightarrow> bool" where
  "golden_answer k ed eth priv path data \<longleftrightarrow>
     (\<exists>q ctx. IngestPacket k ed eth (start_registry ed) (#) (Inr data) (Some []) NewContext = Ok (Some q, ctx) \<and>
        q = (if last path = ''packet_b.bin'' then [\<lparr>in_SatId = 0xCAFEBABE, in_Amount = 420000000, in_AssetId = 1,
               in_TxNonce = DeriveTxNonce 0xCAFEBABE 1710000100000, in_Wallet = HexToAddress eth FlatSatDemoWallet\<rparr>] else []) \<and>
        map fst (responses ctx) = [if last path = ''packet_c.bin'' \<and> \<not> signature_ok ed (start_registry ed) 100
            (receipt_scope golden_inputs) (Sign ed priv (receipt_scope golden_inputs)) then 401 else 200])"

lemma answer_of_verdict:
  assumes "kaitai_stream k view" and "length raw \<le> 255"
    and "frame_verdict ed db raw = (if c then Accepted None else Rejected code msg)"
  shows "\<exists>ctx. IngestPacket k ed eth db enq (Inr raw) (Some q) NewContext = Ok (Some q, ctx) \<and>
    map fst (responses ctx) = [if c then 200 else code]"
proof -
  have "int (length raw) < 2 ^ 63" using assms(2) by simp
  from IngestPacket_outcome [OF assms(1) this, of ed eth db enq "Some q"] assms(3) show ?thesis
    by (auto simp: ingest_outcome_def submit_intent_def accept_reply_def split: option.splits)
qed

lemma golden_answers:
  assumes "kaitai_stream k view" and "ed25519_ok ed" and "p \<in> set (goldenPackets ed (det_key ed))" and "t \<in> set tiers"
  shows "golden_answer k ed eth (det_key ed) [root, fst t, ps_file p] (vector_of p t)"
proof (cases "ps_file p = ''packet_b.bin''")
  case True
  then have "vector_of p t = frame_bytes (snd t) 2149 0xC000 (encode_PacketBBody (golden_payment ed (snd t)))"
    using assms(3) golden_payment_signed(2) [OF assms(2)] by (auto simp: goldenPackets_def vector_of_def)
  with flat_sat_ingest [OF assms(1,2) golden_payment_signed(1) [OF assms(2)], of eth "(#)" "snd t" "[]"] True show ?thesis
    by (simp add: golden_answer_def golden_payment_intent)
next
  case False
  let ?c = "ps_file p = ''packet_c.bin'' \<longrightarrow> signature_ok ed (start_registry ed) 100 (receipt_scope golden_inputs)
    (Sign ed (det_key ed) (receipt_scope golden_inputs))"
  have "length (vector_of p t) \<le> 255"
    using golden_vectors_ok [OF assms(2-4)] by (simp add: vector_ok_def verifyVector_None)
  moreover have "frame_verdict ed (start_registry ed) (vector_of p t)
      = (if ?c then Accepted None else Rejected 401 ''Invalid Cryptographic Signature'')"
    using assms(3) False golden_unsigned golden_delivery(1) golden_ack(1) golden_handshake(1) [OF assms(2)]
      golden_receipt_verdict(1) [OF assms(2)]
    by (auto simp: goldenPackets_def vector_of_def)
  ultimately show ?thesis
    using answer_of_verdict [OF assms(1), of "vector_of p t" ed "start_registry ed" ?c 401 _ eth "(#)" "[]"] False
    unfolding golden_answer_def by auto
qed

section \<open>Properties\<close>

text \<open>
  C28.  The receipt builder against its golden vector.  On the generator's inputs (its timestamp, the
  transaction id 0xDEADBEEFCAFEBABE, status 1, application id 100, sequence count 0 and its seed) the
  gateway's \<^verbatim>\<open>Build\<close> returns, byte for byte, the SNLP PacketC the generator writes, header, signature
  and checksum included.
\<close>

theorem Build_matches_golden_vector:
  assumes "ed25519_ok ed" and "detPriv ed = Ok priv" and "DecodeString detSeedHex = Ok seed"
  shows "Build ed \<lparr>ExecTimeMs = detEpochTsMs, EncTxID = 0xDEADBEEFCAFEBABE, EncStatus = 1, APID = SellerAPID100, in_SeqCount = 0,
      SeedEd25519 = seed\<rparr> = Ok (genPacketC ed priv True)"
proof -
  have priv: "priv = det_key ed" using assms(2) det_key [of ed] by simp
  have "detSeedHex = demoSellerSeedHex" by (simp add: detSeedHex_def demoSellerSeedHex_def)
  then have seed: "seed = demo_seed" using assms(3) demo_seed(1) by simp
  have one: "le_bytes (Suc 0) (1 :: byte) = [1]" by (simp add: le_bytes_def)
  have replicate_4: "replicate 4 0 = [0, 0, 0, 0 :: byte]" by code_simp
  have "length (SeedEd25519 golden_inputs) = SeedSize" by (simp add: golden_inputs_def demo_seed(2))
  from Build_bytes [OF assms(1) this] have "Build ed golden_inputs = Ok (genPacketC ed priv True)"
    by (simp add: genPacketC_def Let_def priv golden_header receipt_crc_def receipt_sig_def getCRC_def)
      (simp add: receipt_scope_def golden_inputs_def one replicate_4)
  then show ?thesis by (simp add: golden_inputs_def seed SellerAPID100_def)
qed

theorem Build_matches_golden_vector_witness:
  "\<exists>priv seed. detPriv demo_ed = Ok priv \<and> DecodeString detSeedHex = Ok seed \<and>
     Build demo_ed \<lparr>ExecTimeMs = detEpochTsMs, EncTxID = 0xDEADBEEFCAFEBABE, EncStatus = 1, APID = SellerAPID100, in_SeqCount = 0,
       SeedEd25519 = seed\<rparr> = Ok (genPacketC demo_ed priv True)"
proof -
  have seed: "DecodeString detSeedHex = Ok demo_seed" using demo_seed(1) by (simp add: detSeedHex_def demoSellerSeedHex_def)
  from Build_matches_golden_vector [OF demo_ed_ok det_key seed] det_key seed show ?thesis by blast
qed

text \<open>
  C31.  The golden vectors and the gateway.  On a disk that works the generator, run with its flag, exits with status 0 and writes fourteen files, the
  seven packets on the two tiers with the sizes of its table, each a multiple of eight and within one LoRa frame.  The
  started gateway answers every one of them with 200, and only the two PacketB files, one of each tier, reach the
  submitter, as the intent of the generator's satellite, amount, asset and timestamp with the demo
  wallet.  The exception is PacketC: the handler checks it under the key of satellite 100, not
  under the key of the demo identity that signed it, and answers 401 when that key does not verify.
\<close>

theorem golden_vectors_conform:
  assumes "kaitai_stream k view" and "ed25519_ok ed" and "detPriv ed = Ok priv"
    and "\<And>path. vd_mkdir d path = None" and "\<And>path. vd_write d path = None"
  shows "\<exists>files. generate_packets_main d ed True root = (0, files) \<and> length files = 14 \<and>
    map (\<lambda>(path, data). (path, length data)) files =
     [([root, ''ccsds'', ''packet_a.bin''], 72), ([root, ''snlp'', ''packet_a.bin''], 80),
      ([root, ''ccsds'', ''packet_b.bin''], 184), ([root, ''snlp'', ''packet_b.bin''], 192),
      ([root, ''ccsds'', ''packet_c.bin''], 104), ([root, ''snlp'', ''packet_c.bin''], 112),
      ([root, ''ccsds'', ''packet_d.bin''], 128), ([root, ''snlp'', ''packet_d.bin''], 136),
      ([root, ''ccsds'', ''packet_h.bin''], 112), ([root, ''snlp'', ''packet_h.bin''], 120),
      ([root, ''ccsds'', ''packet_ack.bin''], 120), ([root, ''snlp'', ''packet_ack.bin''], 136),
      ([root, ''ccsds'', ''packet_l.bin''], 40), ([root, ''snlp'', ''packet_l.bin''], 48)] \<and>
    (\<forall>(path, data) \<in> set files. length data mod 8 = 0 \<and> length data \<le> 255 \<and>
       (\<exists>q ctx. IngestPacket k ed eth (start_registry ed) (#) (Inr data) (Some []) NewContext = Ok (Some q, ctx) \<and>
          q = (if last path = ''packet_b.bin'' then [\<lparr>in_SatId = 0xCAFEBABE, in_Amount = 420000000, in_AssetId = 1,
                 in_TxNonce = DeriveTxNonce 0xCAFEBABE 1710000100000, in_Wallet = HexToAddress eth FlatSatDemoWallet\<rparr>] else []) \<and>
          map fst (responses ctx) = [if last path = ''packet_c.bin'' \<and> \<not> signature_ok ed (start_registry ed) 100
              (receipt_scope golden_inputs) (Sign ed priv (receipt_scope golden_inputs)) then 401 else 200]))"
proof -
  have priv: "priv = det_key ed" using assms(3) det_key [of ed] by simp
  let ?jobs = "List.product (goldenPackets ed priv) tiers"
  let ?files = "map (\<lambda>(p, t). ([root, fst t, ps_file p], vector_of p t)) ?jobs"
  have ok: "\<forall>(p, t) \<in> set ?jobs. vector_ok p t" using golden_vectors_ok [OF assms(2)] priv by auto
  have "make_dirs d root tiers = None" by (simp add: tiers_def assms(4))
  then have "writeGoldenVectors d ed priv root = (Ok (), ?files)"
    using emit_all_Ok [OF assms(5) ok, of root "[]"] by (simp add: writeGoldenVectors_def)
  then have run: "generate_packets_main d ed True root = (0, ?files)"
    by (simp add: generate_packets_main_def assms(3))
  have "length ?files = 14" by (simp add: goldenPackets_def tiers_def)
  moreover have "golden_answer k ed eth priv [root, fst t, ps_file p] (vector_of p t)"
    if "p \<in> set (goldenPackets ed priv)" "t \<in> set tiers" for p t
    using that unfolding priv by (rule golden_answers [OF assms(1,2)])
  moreover have "length (vector_of p t) mod 8 = 0 \<and> length (vector_of p t) \<le> 255"
    if "p \<in> set (goldenPackets ed priv)" "t \<in> set tiers" for p t
    using golden_vectors_ok [OF assms(2), of p t] that unfolding priv vector_ok_def verifyVector_None by blast
  moreover note sizes = golden_sizes [OF assms(2), of root, folded priv]
  ultimately show ?thesis
    using run unfolding golden_answer_def by (intro exI [of _ ?files] conjI sizes) auto
qed

definition demo_disk :: vector_disk where
  "demo_disk = \<lparr>vd_mkdir = (\<lambda>path. None), vd_write = (\<lambda>path. None)\<rparr>"

theorem golden_vectors_conform_witness:
  "\<exists>priv files. detPriv demo_ed = Ok priv \<and> generate_packets_main demo_disk demo_ed True ''test/vectors'' = (0, files) \<and> length files = 14 \<and>
     (\<forall>(path, data) \<in> set files. length data mod 8 = 0 \<and> length data \<le> 255)"
proof -
  have disk: "vd_mkdir demo_disk path = None" "vd_write demo_disk path = None" for path by (simp_all add: demo_disk_def)
  from golden_vectors_conform [OF bytes_stream.kaitai_stream_axioms demo_ed_ok det_key disk, of "''test/vectors''" demo_eth] det_key
  show ?thesis by fast
qed

end
