(* ===== verification/Ack_Builder.thy ===== *)
theory Ack_Builder
  imports Packet_Generator
begin

text \<open>
  \<^verbatim>\<open>ground-station/src/ack_builder.cpp\<close>: the acknowledgement frame the ground station sends down for a
  payment it received.  The output array is a list and the cursor an index into it; a store past the
  end of the array, which the C++ leaves undefined, is a panic.
\<close>

unbundle bit_operations_syntax

section \<open>Constants and inputs\<close>

definition kPacketAckSize :: nat where "kPacketAckSize = 136"
definition kEncTunnelSize :: nat where "kEncTunnelSize = 96"
definition kPacketAckMagic :: byte where "kPacketAckMagic = 0xAC"
definition kAckStatusVerified :: byte where "kAckStatusVerified = 0x01"
definition kSnlpSyncWord :: u32 where "kSnlpSyncWord = 0x1D01A5A5"
definition kApidSatB :: u16 where "kApidSatB = 101"
definition kSeqFlags :: u16 where "kSeqFlags = 0xC000"
definition kSnlpAckBodyLen :: u16 where "kSnlpAckBodyLen = 122"

record AckInputs =
  target_tx_id :: u32
  ack_status :: byte
  azimuth :: u16
  elevation :: u16
  frequency_hz :: u32
  duration_ms :: u32
  enc_tunnel :: "byte list"

definition IdField :: "u16 \<Rightarrow> u16" where
  "IdField apid = push_bit 12 1 OR push_bit 11 1 OR (apid AND 0x7FF)"

section \<open>Writing\<close>

type_synonym cursor = "byte list \<times> nat"

definition put_byte :: "byte \<Rightarrow> cursor \<Rightarrow> ('e, cursor) outcome" where
  "put_byte b c = (case c of (dst, off) \<Rightarrow> if off < length dst then Ok (dst[off := b], Suc off) else Panic)"

fun put_bytes :: "byte list \<Rightarrow> cursor \<Rightarrow> ('e, cursor) outcome" where
  "put_bytes [] c = Ok c"
| "put_bytes (b # bs) c = bind_ok (put_byte b c) (put_bytes bs)"

definition WriteU16LE :: "u16 \<Rightarrow> cursor \<Rightarrow> ('e, cursor) outcome" where
  "WriteU16LE v = put_bytes [ucast (v AND 0xFF), ucast (drop_bit 8 v AND 0xFF)]"

definition WriteU32LE :: "u32 \<Rightarrow> cursor \<Rightarrow> ('e, cursor) outcome" where
  "WriteU32LE v = put_bytes [ucast (v AND 0xFF), ucast (drop_bit 8 v AND 0xFF), ucast (drop_bit 16 v AND 0xFF), ucast (drop_bit 24 v AND 0xFF)]"

definition WriteU16BE :: "u16 \<Rightarrow> cursor \<Rightarrow> ('e, cursor) outcome" where
  "WriteU16BE v = put_bytes [ucast (drop_bit 8 v AND 0xFF), ucast (v AND 0xFF)]"

definition WriteU32BE :: "u32 \<Rightarrow> cursor \<Rightarrow> ('e, cursor) outcome" where
  "WriteU32BE v = put_bytes [ucast (drop_bit 24 v AND 0xFF), ucast (drop_bit 16 v AND 0xFF), ucast (drop_bit 8 v AND 0xFF), ucast (v AND 0xFF)]"

text \<open>The checksum: the mask is all ones when the low bit is set.\<close>

definition crc_round :: "u32 \<Rightarrow> u32" where
  "crc_round crc = (let mask = - (crc AND 1) in drop_bit 1 crc XOR (0xEDB88320 AND mask))"

definition Crc32Ieee :: "byte list \<Rightarrow> u32" where
  "Crc32Ieee data = NOT (foldl (\<lambda>crc b. (crc_round ^^ 8) (crc XOR ucast b)) 0xFFFFFFFF data)"

section \<open>The builder\<close>

fun run_writes :: "(cursor \<Rightarrow> ('e, cursor) outcome) list \<Rightarrow> cursor \<Rightarrow> ('e, cursor) outcome" where
  "run_writes [] c = Ok c"
| "run_writes (w # ws) c = bind_ok (w c) (run_writes ws)"

definition ack_writes :: "AckInputs \<Rightarrow> (cursor \<Rightarrow> ('e, cursor) outcome) list" where
  "ack_writes i =
     [WriteU32BE kSnlpSyncWord, WriteU16BE (IdField kApidSatB), WriteU16BE kSeqFlags, WriteU16BE (kSnlpAckBodyLen - 1), WriteU32BE 0,
      put_byte kPacketAckMagic, put_byte 0, WriteU32LE (target_tx_id i), put_byte (ack_status i), put_byte 0,
      WriteU16LE (azimuth i), WriteU16LE (elevation i), WriteU32LE (frequency_hz i), WriteU32LE (duration_ms i),
      put_bytes (take kEncTunnelSize (enc_tunnel i)), put_byte 0, put_byte 0]"

text \<open>The result and the output array, which is absent for a null pointer.\<close>

definition build :: "AckInputs \<Rightarrow> byte list option \<Rightarrow> ('e, bool \<times> byte list option) outcome" where
  "build i out = (case out of
     None \<Rightarrow> Ok (False, None)
   | Some dst \<Rightarrow>
       if length dst < kPacketAckSize then Ok (False, Some dst)
       else bind_ok (run_writes (ack_writes i) (replicate kPacketAckSize 0 @ drop kPacketAckSize dst, 0)) (\<lambda>(dst, off).
         bind_ok (WriteU32LE (Crc32Ieee (take off dst)) (dst, off)) (\<lambda>(dst, off).
           Ok (off = kPacketAckSize, Some dst))))"

section \<open>What is written\<close>

lemma put_bytes_Ok:
  "off + length bs \<le> length dst \<Longrightarrow> put_bytes bs (dst, off) = Ok (take off dst @ bs @ drop (off + length bs) dst, off + length bs)"
proof (induction bs arbitrary: dst off)
  case (Cons b bs)
  then have "off < length dst" by simp
  with Cons show ?case
    by (simp add: put_byte_def outcome_simps upd_conv_take_nth_drop drop_update_cancel add.commute)
qed simp

lemma put_byte_put_bytes: "put_byte b = put_bytes [b]"
  by (rule ext) (simp add: outcome_simps put_byte_def split: prod.split)

lemma put_bytes_append: "bind_ok (put_bytes xs c) (put_bytes ys) = put_bytes (xs @ ys) c"
  by (induction xs arbitrary: c) (simp_all add: outcome_simps put_byte_def split: prod.split)

lemma run_put_bytes: "run_writes (map put_bytes bss) c = (put_bytes (concat bss) c :: ('e, cursor) outcome)"
proof (induction bss arbitrary: c)
  case (Cons bs bss)
  have "run_writes (map put_bytes bss) = (put_bytes (concat bss) :: cursor \<Rightarrow> ('e, cursor) outcome)" by (rule ext) (rule Cons.IH)
  then show ?case by (simp add: put_bytes_append)
qed simp

lemma low_byte: "(ucast (w AND 0xFF) :: byte) = ucast (w :: 'a::len word)"
proof -
  have m: "(0xFF :: 'a word) = mask 8" by (simp add: mask_eq_exp_minus_1)
  show ?thesis unfolding m by (rule bit_word_eqI) (auto simp: bit_simps bit_imp_le_length)
qed

lemma writes_bytes:
  "WriteU16LE v = put_bytes (le_bytes 2 v)" "WriteU32LE w = put_bytes (le_bytes 4 w)"
  "WriteU16BE v = put_bytes (be_bytes 2 v)" "WriteU32BE w = put_bytes (be_bytes 4 w)"
proof -
  have two: "[0..<2] = [0, 1]" and four: "[0..<4] = [0, 1, 2, 3]" by code_simp+
  show "WriteU16LE v = put_bytes (le_bytes 2 v)" "WriteU16BE v = put_bytes (be_bytes 2 v)"
    "WriteU32LE w = put_bytes (le_bytes 4 w)" "WriteU32BE w = put_bytes (be_bytes 4 w)"
    by (simp_all add: WriteU16LE_def WriteU32LE_def WriteU16BE_def WriteU32BE_def be_bytes_def le_bytes_def two four low_byte)
qed

lemma crc_round_bit: "crc_round c = crc_bit c"
proof -
  have "c AND 1 = of_bool (bit c 0)" by (rule bit_word_eqI) (auto simp: bit_simps)
  then show ?thesis by (simp add: crc_round_def crc_bit_def crc_poly_def Let_def)
qed

lemma Crc32Ieee_ChecksumIEEE: "Crc32Ieee data = ChecksumIEEE data"
proof -
  have "crc_update = (\<lambda>c b. (crc_round ^^ 8) (c XOR ucast b))"
    by (intro ext) (simp only: crc_update_bitwise crc_round_bit [abs_def])
  moreover have "(0xFFFFFFFF :: u32) = NOT 0" by simp
  ultimately show ?thesis by (simp only: Crc32Ieee_def ChecksumIEEE_def)
qed

text \<open>The frame: the header of a command to satellite B and the body of the inputs, closed by the checksum.\<close>

definition ack_message :: "AckInputs \<Rightarrow> byte list" where
  "ack_message i = [0xAC, 0] @ le_bytes 4 (target_tx_id i) @ [ack_status i, 0] @ le_bytes 2 (azimuth i) @ le_bytes 2 (elevation i) @
     le_bytes 4 (frequency_hz i) @ le_bytes 4 (duration_ms i) @ enc_tunnel i @ [0, 0]"

definition ack_head :: "byte list" where
  "ack_head = buildHeader True 122 apidSatB True"

definition ack_body :: "AckInputs \<Rightarrow> byte list" where
  "ack_body i = ack_message i @ le_bytes 4 (getCRC (ack_head @ ack_message i))"

lemma length_ack [simp]: "length ack_head = 14" "length (enc_tunnel i) = 96 \<Longrightarrow> length (ack_message i) = 118"
  "length (enc_tunnel i) = 96 \<Longrightarrow> length (ack_body i) = 122"
  by (simp_all add: ack_head_def header_len_def ack_message_def ack_body_def)

lemma run_ack_writes:
  assumes "length (enc_tunnel i) = 96"
  shows "run_writes (ack_writes i) c = (put_bytes (ack_head @ ack_message i) c :: ('e, cursor) outcome)"
proof -
  let ?head = "[be_bytes 4 kSnlpSyncWord, be_bytes 2 (IdField kApidSatB), be_bytes 2 kSeqFlags, be_bytes 2 (kSnlpAckBodyLen - 1), be_bytes 4 (0 :: u32)]"
  let ?body = "[[kPacketAckMagic], [0], le_bytes 4 (target_tx_id i), [ack_status i], [0], le_bytes 2 (azimuth i), le_bytes 2 (elevation i),
    le_bytes 4 (frequency_hz i), le_bytes 4 (duration_ms i), enc_tunnel i, [0], [0]]"
  have "ack_writes i = (map put_bytes (?head @ ?body) :: (cursor \<Rightarrow> ('e, cursor) outcome) list)"
    using assms by (simp add: ack_writes_def writes_bytes put_byte_put_bytes kEncTunnelSize_def)
  moreover have "concat ?head = ack_head" unfolding ack_head_def by code_simp
  moreover have "concat ?body = ack_message i" by (simp add: ack_message_def kPacketAckMagic_def)
  ultimately show ?thesis using run_put_bytes [of "?head @ ?body" c] by (simp only: concat_append)
qed

lemma build_bytes:
  assumes "length (enc_tunnel i) = 96" and "136 \<le> length dst"
  shows "build i (Some dst) = (Ok (True, Some (ack_head @ ack_body i @ drop 136 dst)) :: ('e, bool \<times> byte list option) outcome)"
proof -
  let ?m = "ack_head @ ack_message i" and ?dst = "replicate 136 (0 :: byte) @ drop 136 dst"
  let ?crc = "le_bytes 4 (getCRC ?m)"
  have len: "length ?m = 132" "length ?dst = length dst" using assms by simp_all
  have first: "put_bytes ?m (?dst, 0) = (Ok (?m @ drop 132 ?dst, 132) :: ('e, cursor) outcome)"
    using put_bytes_Ok [of 0 ?m ?dst] len assms(2) by simp
  have cut: "take 132 (?m @ drop 132 ?dst) = ?m" "drop (132 + length ?crc) (?m @ drop 132 ?dst) = drop 136 dst"
    using len(1) by simp_all
  have second: "put_bytes ?crc (?m @ drop 132 ?dst, 132) = (Ok (?m @ ?crc @ drop 136 dst, 136) :: ('e, cursor) outcome)"
    using put_bytes_Ok [of 132 ?crc "?m @ drop 132 ?dst"] len assms(2) unfolding cut by simp
  have sum: "Crc32Ieee (take 132 (?m @ drop 132 ?dst)) = getCRC ?m" by (simp only: cut(1) Crc32Ieee_ChecksumIEEE getCRC_def)
  show ?thesis
    unfolding build_def option.case run_ack_writes [OF assms(1)] kPacketAckSize_def first bind_ok.simps prod.case
      sum writes_bytes second
    using assms(2) by (simp add: ack_body_def)
qed

lemma build_cases:
  assumes "length (enc_tunnel i) = 96"
  shows "build i (Some dst) = (if 136 \<le> length dst then Ok (True, Some ((ack_head @ ack_body i) @ drop 136 dst)) else Ok (False, Some dst))"
proof (cases "136 \<le> length dst")
  case True
  with build_bytes [OF assms True] show ?thesis by simp
qed (simp add: build_def kPacketAckSize_def)

lemma build_null: "build i None = Ok (False, None)"
  by (simp add: build_def)

text \<open>The body as the parser sees it.\<close>

definition ack_fields :: "AckInputs \<Rightarrow> packet_ack_body_snlp" where
  "ack_fields i = \<lparr>as_Magic = [172], as_PadA = [0], as_TargetTxId = target_tx_id i, as_Status = uint (ack_status i), as_PadB = [0],
     as_RelayOps = \<lparr>Azimuth = azimuth i, Elevation = elevation i, Frequency = frequency_hz i, DurationMs = duration_ms i\<rparr>,
     as_EncTunnel = enc_tunnel i, as_PadC = [0, 0], as_Crc32 = getCRC (ack_head @ ack_message i)\<rparr>"

lemma ack_body_fields:
  assumes "length (enc_tunnel i) = 96"
  shows "decode_PacketAckBodySnlp (ack_body i) = ack_fields i"
proof -
  have "uint (ack_status i) < 256" using uint_lt2p [of "ack_status i"] by simp
  then have "fits_PacketAckBodySnlp (ack_fields i)" using assms by (simp add: fits_PacketAckBodySnlp_def ack_fields_def)
  moreover have "encode_PacketAckBodySnlp (ack_fields i) = ack_body i"
    by (simp add: encode_PacketAckBodySnlp_def ack_fields_def ack_body_def ack_message_def encode_relay_ops_def le_bytes_1 [unfolded One_nat_def])
  ultimately show ?thesis using packet_ack_body_snlp_layout.dec_enc [of "ack_fields i"] by simp
qed

lemma ack_frame:
  assumes "length (enc_tunnel i) = 96"
  shows "ack_head @ ack_body i = frame_bytes True 6245 0xC000 (ack_body i)"
    and "decode_body (length (ack_body i)) (ack_body i) = Some (Dispatch122 (decode_dispatch (ack_body i)))"
    and "Content (decode_dispatch (ack_body i)) = Some (PacketAckBodySnlp (ack_fields i))"
proof -
  have ne: "ack_body i \<noteq> []" using length_ack(3) [OF assms] by auto
  show "ack_head @ ack_body i = frame_bytes True 6245 0xC000 (ack_body i)"
    unfolding ack_head_def gen_ids(3) [symmetric] by (rule buildHeader_frame) (use assms ne in simp_all)
  show "decode_body (length (ack_body i)) (ack_body i) = Some (Dispatch122 (decode_dispatch (ack_body i)))"
    using assms by (simp add: decode_body_def)
  have "take 1 (ack_body i) = [0xAC]" by (simp add: ack_body_def ack_message_def)
  then show "Content (decode_dispatch (ack_body i)) = Some (PacketAckBodySnlp (ack_fields i))"
    by (simp add: decode_dispatch_def le_word_byte ack_body_fields [OF assms])
qed

lemma ack_crc: 
  assumes "length (enc_tunnel i) = 96"
  shows "crc_ok (ack_head @ ack_body i) 4"
  using golden_crc_ok [of "ack_head @ ack_body i" "ack_head @ ack_message i" "[]"] assms by (simp add: ack_body_def)

lemma ack_parse:
  assumes "length (enc_tunnel i) = 96" and "kaitai_stream k view"
  shows "\<exists>obj s d. parse_frame k (ack_head @ ack_body i) = Ok (obj, s) \<and> Body obj = Dispatch122 d \<and>
    Content d = Some (PacketAckBodySnlp (ack_fields i))"
proof -
  have "decode_frame (ack_head @ ack_body i)
      = Some (True, frame_words 6245 0xC000 (ack_body i), ack_body i, Dispatch122 (decode_dispatch (ack_body i)))"
    unfolding ack_frame(1) [OF assms(1)]
    using decode_frame_frame_bytes [of True 6245 "0xC000" "ack_body i"] ack_frame(2) [OF assms(1)] assms(1)
    by (simp add: tier_ok_def)
  from parse_frame_of_decode [OF assms(2) this] ack_frame(3) [OF assms(1)] show ?thesis by fastforce
qed

lemma ack_verdict:
  assumes "length (enc_tunnel i) = 96"
  shows "frame_verdict ed db (ack_head @ ack_body i) = Accepted None"
  using golden_verdict [of 6245 "ack_body i" _ ed db True, OF _ ack_frame(2) [OF assms]] ack_crc [OF assms] ack_frame(3) [OF assms] assms
  unfolding ack_frame(1) [OF assms, symmetric] by (simp add: body_verdict_def if_crc_def)

definition golden_ack_inputs :: AckInputs where
  "golden_ack_inputs = \<lparr>target_tx_id = 0xCAFEBABE, ack_status = 1, azimuth = 180, elevation = 45, frequency_hz = 437200000,
     duration_ms = 5000, enc_tunnel = map (\<lambda>i. word_of_nat (0xAA + i)) [0..<96]\<rparr>"

lemma golden_ack_frame: "ack_head @ ack_body golden_ack_inputs = genPacketAck True"
  by (simp add: genPacketAck_def ack_head_def ack_body_def ack_message_def golden_ack_inputs_def gen_magicPacketAck_def Let_def le_bytes_1 [unfolded One_nat_def])

section \<open>Properties\<close>

text \<open>
  C29.  The acknowledgement frame.  Into an array of at least 136 bytes the builder writes, never past its
  end and leaving the rest as it was, a frame that the gateway's parser reads as the SNLP
  acknowledgement with the transaction, status, relay data and tunnel that were given, whose checksum
  the CRC gate accepts and which the ingest handler accepts without a payment; with a shorter array or
  none it fails and writes nothing.  On the inputs of the vector generator the frame is, byte for
  byte, the golden vector.
\<close>

theorem build_ack_accepted:
  assumes "length (enc_tunnel i) = 96" and "kaitai_stream k view"
  shows "\<exists>frame obj s d b. length frame = 136 \<and>
    (\<forall>dst. build i (Some dst) = (if 136 \<le> length dst then Ok (True, Some (frame @ drop 136 dst)) else Ok (False, Some dst))) \<and>
    build i None = Ok (False, None) \<and>
    parse_frame k frame = Ok (obj, s) \<and> Body obj = Dispatch122 d \<and> Content d = Some (PacketAckBodySnlp b) \<and>
    as_TargetTxId b = target_tx_id i \<and> as_Status b = uint (ack_status i) \<and> as_EncTunnel b = enc_tunnel i \<and>
    as_RelayOps b = \<lparr>Azimuth = azimuth i, Elevation = elevation i, Frequency = frequency_hz i, DurationMs = duration_ms i\<rparr> \<and>
    ValidateFrameCRC32 frame (136 - PacketAckCrcOffsetFromEnd) = Ok () \<and> frame_verdict ed db frame = Accepted None \<and>
    (i = golden_ack_inputs \<longrightarrow> frame = genPacketAck True)"
proof -
  let ?f = "ack_head @ ack_body i"
  obtain obj s d where p: "parse_frame k ?f = Ok (obj, s)" "Body obj = Dispatch122 d" "Content d = Some (PacketAckBodySnlp (ack_fields i))"
    using ack_parse [OF assms] by blast
  have b: "as_TargetTxId (ack_fields i) = target_tx_id i" "as_Status (ack_fields i) = uint (ack_status i)" "as_EncTunnel (ack_fields i) = enc_tunnel i"
    "as_RelayOps (ack_fields i) = \<lparr>Azimuth = azimuth i, Elevation = elevation i, Frequency = frequency_hz i, DurationMs = duration_ms i\<rparr>"
    by (simp_all add: ack_fields_def)
  have len: "length ?f = 136" using assms(1) by simp
  have crc: "ValidateFrameCRC32 ?f (136 - PacketAckCrcOffsetFromEnd) = Ok ()"
    using ack_crc [OF assms(1)] len by (simp add: crc_ok_def PacketAckCrcOffsetFromEnd_def)
  from p b len crc ack_verdict [OF assms(1), of ed db] golden_ack_frame show ?thesis
    by (intro exI [of _ ?f] exI [of _ obj] exI [of _ s] exI [of _ d] exI [of _ "ack_fields i"])
      (simp add: build_cases [OF assms(1)] build_null)
qed

theorem build_ack_accepted_witness:
  "\<exists>obj s. (build golden_ack_inputs (Some (replicate 200 7)) :: (unit, bool \<times> byte list option) outcome) = Ok (True, Some (genPacketAck True @ replicate 64 7)) \<and>
     parse_frame bytes_rt (genPacketAck True) = Ok (obj, s)"
proof -
  have "length (enc_tunnel golden_ack_inputs) = 96" by (simp add: golden_ack_inputs_def)
  from build_ack_accepted [OF this bytes_stream.kaitai_stream_axioms] obtain frame obj s where
    "frame = genPacketAck True" "parse_frame bytes_rt frame = Ok (obj, s)"
    "(build golden_ack_inputs (Some (replicate 200 7)) :: (unit, bool \<times> byte list option) outcome)
       = (if 136 \<le> length (replicate 200 (7 :: byte)) then Ok (True, Some (frame @ drop 136 (replicate 200 7))) else Ok (False, Some (replicate 200 7)))"
    by blast
  then show ?thesis by simp
qed

end
