(* ===== verification/Ground_Station.thy ===== *)
theory Ground_Station
  imports Ack_Builder Egress_Client
begin

text \<open>
  \<^verbatim>\<open>ground-station/src/bouncer.cpp\<close>, \<^verbatim>\<open>gateway_client.cpp\<close> and the serial bridge of \<^verbatim>\<open>main.cpp\<close>: the bytes of the
  serial port are collected into lines, a payment line is decoded, passed through the bouncer,
  acknowledged on the radio and forwarded to the gateway.  The serial port and the connection to the
  gateway are functions on a state; a local array that the C++ leaves uninitialised is an argument.
\<close>

unbundle bit_operations_syntax

section \<open>The bouncer\<close>

definition SIZE_PACKET_B :: nat where "SIZE_PACKET_B = 192"

definition validate_packet_size :: "byte list \<Rightarrow> bool" where
  "validate_packet_size raw \<longleftrightarrow> length raw = SIZE_PACKET_B"

definition validate_signature :: "byte list \<Rightarrow> byte list \<Rightarrow> bool" where
  "validate_signature data signature \<longleftrightarrow> True"

definition decrypt_payload :: "byte list \<Rightarrow> byte list \<Rightarrow> bool \<times> byte list" where
  "decrypt_payload enc out = (if length enc > length out then (False, out) else (True, enc @ drop (length enc) out))"

text \<open>The fields of \<^verbatim>\<open>PacketB_t\<close> on the SNLP tier: the payload at 48, the signature at 120.\<close>

definition process_packet :: "byte list \<Rightarrow> byte list \<Rightarrow> bool \<times> byte list" where
  "process_packet raw out =
     (if \<not> validate_packet_size raw then (False, out)
      else if \<not> validate_signature (take (length raw - 64 - 4) raw) (seg raw 120 184) then (False, out)
      else decrypt_payload (seg raw 48 110) out)"

record Bouncer =
  session_key :: "byte list"

definition new_Bouncer :: Bouncer where
  "new_Bouncer = \<lparr>session_key = replicate 32 0\<rparr>"

definition set_session_key :: "byte list \<Rightarrow> Bouncer \<Rightarrow> Bouncer" where
  "set_session_key key b = (let len = min (length key) 32 in b\<lparr>session_key := take len key @ replicate (32 - len) 0\<rparr>)"

definition clear_session_key :: "Bouncer \<Rightarrow> Bouncer" where
  "clear_session_key b = b\<lparr>session_key := replicate 32 0\<rparr>"

section \<open>The client of the ingest route\<close>

definition push_header :: "string \<Rightarrow> nat \<Rightarrow> nat \<Rightarrow> string" where
  "push_header host port frame_len = ''POST /api/v1/ingest HTTP/1.1'' @ crlf @ ''Host: '' @ host @ '':'' @ dec_string port @ crlf @
     ''Content-Type: application/octet-stream'' @ crlf @ ''Content-Length: '' @ dec_string frame_len @ crlf @
     ''Connection: close'' @ crlf @ crlf"

text \<open>The connection may fail; what is sent is the header and the body.  The results of \<^verbatim>\<open>send\<close> are ignored.\<close>

record 'w uplink =
  up_connect :: "'w \<Rightarrow> bool \<times> 'w"
  up_send :: "string \<Rightarrow> byte list \<Rightarrow> 'w \<Rightarrow> 'w"

definition push_to_l2 :: "'w uplink \<Rightarrow> string \<Rightarrow> nat \<Rightarrow> byte list \<Rightarrow> 'w \<Rightarrow> bool \<times> 'w" where
  "push_to_l2 up host port frame w =
     (if frame = [] then (False, w)
      else case up_connect up w of
          (False, w1) \<Rightarrow> (False, w1)
        | (True, w1) \<Rightarrow>
            let headers = push_header host port (length frame) in
            if length headers \<ge> 512 then (False, w1) else (True, up_send up headers frame w1))"

section \<open>Lines to the radio board\<close>

definition kDigits :: "nat \<Rightarrow> char" where
  "kDigits n = (if n < 10 then char_of (48 + n) else char_of (87 + n))"

fun put_hex :: "byte list \<Rightarrow> nat \<Rightarrow> string \<Rightarrow> string" where
  "put_hex [] off line = line"
| "put_hex (b # bs) off line =
     put_hex bs (off + 2) (line[off := kDigits (unat (drop_bit 4 b AND 0x0F)), Suc off := kDigits (unat (b AND 0x0F))])"

text \<open>
  The frame of a receipt.  \<^verbatim>\<open>snprintf\<close> leaves the twelve characters of the prefix and a NUL in the array; the
  digits start at \<^verbatim>\<open>kPrefixLen\<close>.  A store past the array is a panic.
\<close>

definition kPrefixLen_C :: nat where "kPrefixLen_C = 13"
definition kLineCap_C :: nat where "kLineCap_C = kPrefixLen_C + EgressPacketCSize * 2 + 2"

definition packet_c_line :: "string \<Rightarrow> byte list \<Rightarrow> (unit, string) outcome" where
  "packet_c_line arr data =
     (let line = ''PACKET_C_TX:'' @ CHR 0x00 # drop 13 arr;
          line = put_hex (take EgressPacketCSize data) kPrefixLen_C line;
          line_len = kPrefixLen_C + length data * 2
      in if line_len + 1 < kLineCap_C then Ok (take (line_len + 1) (line[line_len := CHR 0x0A, Suc line_len := CHR 0x00])) else Panic)"

definition lora_tx_via_serial :: "(string \<Rightarrow> 'w \<Rightarrow> int \<times> 'w) \<Rightarrow> string \<Rightarrow> byte list \<Rightarrow> 'w \<Rightarrow> (unit, bool \<times> 'w) outcome" where
  "lora_tx_via_serial serial_write arr data w = bind_ok (packet_c_line arr data) (\<lambda>line.
     case serial_write line w of (n, w') \<Rightarrow> Ok (n \<ge> 0, w'))"

definition kPrefix_Ack :: string where "kPrefix_Ack = ''PACKET_ACK_TX:''"

definition packet_ack_line :: "string \<Rightarrow> byte list \<Rightarrow> string" where
  "packet_ack_line arr data =
     (let kPrefixLen = length kPrefix_Ack; line = kPrefix_Ack @ drop kPrefixLen arr; line = put_hex data kPrefixLen line;
          line_len = kPrefixLen + length data * 2
      in take (line_len + 1) (line[line_len := CHR 0x0A, Suc line_len := CHR 0x00]))"

definition lora_tx_ack_via_serial :: "(string \<Rightarrow> 'w \<Rightarrow> int \<times> 'w) \<Rightarrow> string \<Rightarrow> byte list \<Rightarrow> 'w \<Rightarrow> bool \<times> 'w" where
  "lora_tx_ack_via_serial serial_write arr data w =
     (if length data \<noteq> kPacketAckSize then (False, w)
      else case serial_write (packet_ack_line arr data) w of (n, w') \<Rightarrow> (n \<ge> 0, w'))"

definition extract_packet_b_sat_id_snlp :: "byte list \<Rightarrow> u32" where
  "extract_packet_b_sat_id_snlp pkt = ucast (pkt ! 112) OR push_bit 8 (ucast (pkt ! 113)) OR
     push_bit 16 (ucast (pkt ! 114)) OR push_bit 24 (ucast (pkt ! 115))"

section \<open>Lines from the radio board\<close>

text \<open>\<^verbatim>\<open>strtol\<close> in base 16, on the two characters it is given: blanks, a sign, a prefix, digits.\<close>

definition c_isspace :: "char \<Rightarrow> bool" where
  "c_isspace c \<longleftrightarrow> (let n = of_char c :: nat in n = 32 \<or> 9 \<le> n \<and> n \<le> 13)"

definition strtol_hex :: "string \<Rightarrow> int" where
  "strtol_hex s =
     (let s1 = dropWhile c_isspace s;
          neg = (case s1 of c # _ \<Rightarrow> c = CHR ''-'' | [] \<Rightarrow> False);
          s2 = (case s1 of c # t \<Rightarrow> if c = CHR ''-'' \<or> c = CHR ''+'' then t else s1 | [] \<Rightarrow> []);
          s3 = (case s2 of a # b # c # t \<Rightarrow> if a = CHR ''0'' \<and> (b = CHR ''x'' \<or> b = CHR ''X'') \<and> nibble c \<ge> 0 then c # t else s2 | _ \<Rightarrow> s2);
          v = foldl (\<lambda>v c. v * 16 + nibble c) 0 (takeWhile (\<lambda>c. nibble c \<ge> 0) s3)
      in if neg then - v else v)"

fun hex_to_bin :: "string \<Rightarrow> nat \<Rightarrow> byte list \<Rightarrow> byte list" where
  "hex_to_bin (a # b # hex) i bin_out =
     (if i < length bin_out then hex_to_bin hex (Suc i) (bin_out[i := word_of_int (strtol_hex [a, b])]) else bin_out)"
| "hex_to_bin [a] i bin_out = (if i < length bin_out then bin_out[i := word_of_int (strtol_hex [a])] else bin_out)"
| "hex_to_bin [] i bin_out = bin_out"

definition ack_for_payment :: "byte list \<Rightarrow> AckInputs" where
  "ack_for_payment pkt = \<lparr>target_tx_id = extract_packet_b_sat_id_snlp pkt, ack_status = kAckStatusVerified, azimuth = 180,
     elevation = 45, frequency_hz = 437200000, duration_ms = 5000, enc_tunnel = replicate 96 0\<rparr>"

text \<open>The parts the bridge is built from, and the contents its local arrays happen to have.\<close>

record 'w bridge =
  br_serial_write :: "string \<Rightarrow> 'w \<Rightarrow> int \<times> 'w"
  br_uplink :: "'w uplink"
  br_host :: string
  br_port :: nat
  br_packet_bin :: "byte list"
  br_cleartext :: "byte list"
  br_ack_frame :: "byte list"
  br_line :: string

definition emit_ack :: "'w bridge \<Rightarrow> byte list \<Rightarrow> 'w \<Rightarrow> (unit, bool \<times> 'w) outcome" where
  "emit_ack br pkt w = bind_ok (build (ack_for_payment pkt) (Some (br_ack_frame br))) (\<lambda>(ok, frame).
     case frame of
       Some f \<Rightarrow> Ok (if ok then lora_tx_ack_via_serial (br_serial_write br) (br_line br) f w else (False, w))
     | None \<Rightarrow> Ok (False, w))"

definition on_packet_b :: "'w bridge \<Rightarrow> string \<Rightarrow> 'w \<Rightarrow> (unit, 'w) outcome" where
  "on_packet_b br hex w =
     (let packet_bin = hex_to_bin hex 0 (br_packet_bin br) in
      case process_packet packet_bin (br_cleartext br) of
        (False, _) \<Rightarrow> Ok w
      | (True, _) \<Rightarrow> bind_ok (emit_ack br packet_bin w) (\<lambda>(acked, w1).
          case push_to_l2 (br_uplink br) (br_host br) (br_port br) packet_bin w1 of (delivered, w2) \<Rightarrow> Ok w2))"

text \<open>A complete line; it is a C string, so it ends at the first NUL.  An invoice is only announced.\<close>

definition on_line :: "'w bridge \<Rightarrow> string \<Rightarrow> 'w \<Rightarrow> (unit, 'w) outcome" where
  "on_line br line_buf w = (if take 9 line_buf = ''PACKET_B:'' then on_packet_b br (c_string (drop 9 line_buf)) w else Ok w)"

definition LINE_CAP :: nat where "LINE_CAP = 512"

text \<open>The receive loop over the bytes of the serial port: the line collected so far and the state.\<close>

fun rx_bytes :: "'w bridge \<Rightarrow> string \<Rightarrow> string \<Rightarrow> 'w \<Rightarrow> (unit, string \<times> 'w) outcome" where
  "rx_bytes br [] line w = Ok (line, w)"
| "rx_bytes br (c # rx) line w =
     (if c = CHR 0x0A \<or> c = CHR 0x0D
      then (if line \<noteq> [] then bind_ok (on_line br line w) (rx_bytes br rx []) else rx_bytes br rx line w)
      else if length line < LINE_CAP - 1 then rx_bytes br rx (line @ [c]) w
      else rx_bytes br rx line w)"

text \<open>The reads of the main loop, one after the other.\<close>

fun rx_reads :: "'w bridge \<Rightarrow> string list \<Rightarrow> string \<Rightarrow> 'w \<Rightarrow> (unit, string \<times> 'w) outcome" where
  "rx_reads br [] line w = Ok (line, w)"
| "rx_reads br (r # rs) line w = bind_ok (rx_bytes br r line w) (\<lambda>(line, w). rx_reads br rs line w)"

section \<open>Hexadecimal on the serial lines\<close>

lemma kDigits_hex: "kDigits = hex_char"
  by (rule ext) (simp add: kDigits_def hex_char_def)

lemma byte_nibbles: "unat (drop_bit 4 b AND 0x0F) = unat b div 16" "unat (b AND 0x0F) = unat b mod 16" for b :: byte
proof -
  have m: "(0x0F :: byte) = mask 4" by (simp add: mask_eq_exp_minus_1)
  have low: "unat (w AND 0x0F) = unat w mod 16" for w :: byte
    unfolding m take_bit_eq_mask [symmetric] by (simp only: unsigned_take_bit_eq) (simp add: take_bit_eq_mod)
  show "unat (b AND 0x0F) = unat b mod 16" by (rule low)
  have "unat (drop_bit 4 b) = unat b div 16" by (simp only: unat_drop_bit_eq) (simp add: drop_bit_eq_div)
  moreover have "unat b div 16 < 16" using unsigned_less [where 'a = nat, of b] by simp
  ultimately show "unat (drop_bit 4 b AND 0x0F) = unat b div 16" by (simp only: low mod_less)
qed

lemma update_two:
  assumes "Suc i < length xs"
  shows "xs[i := a, Suc i := b] = take i xs @ [a, b] @ drop (i + 2) xs"
proof -
  have "drop (Suc i) xs = xs ! Suc i # drop (Suc (Suc i)) xs" using assms by (simp add: Cons_nth_drop_Suc)
  then show ?thesis using assms by (simp add: upd_conv_take_nth_drop [of i] list_update_append min_def)
qed

lemma put_hex_bytes:
  "off + 2 * length bs \<le> length line \<Longrightarrow> put_hex bs off line = take off line @ EncodeToString bs @ drop (off + 2 * length bs) line"
proof (induction bs arbitrary: off line)
  case (Cons b bs)
  let ?x = "hex_char (unat b div 16)" and ?y = "hex_char (unat b mod 16)"
  have up: "line[off := ?x, Suc off := ?y] = take off line @ [?x, ?y] @ drop (off + 2) line"
    using Cons.prems by (intro update_two) simp
  have "put_hex (b # bs) off line = put_hex bs (off + 2) (take off line @ [?x, ?y] @ drop (off + 2) line)"
    by (simp only: put_hex.simps kDigits_hex byte_nibbles(1) [of b] byte_nibbles(2) [of b] up)
  also have "\<dots> = take off line @ ([?x, ?y] @ EncodeToString bs) @ drop (off + 2 + 2 * length bs) line"
    using Cons.IH [of "off + 2" "take off line @ [?x, ?y] @ drop (off + 2) line"] Cons.prems by (simp add: add.commute)
  finally show ?case by (simp add: EncodeToString_def)
qed (simp add: EncodeToString_def)

lemma nibble_hex_char: "n < 16 \<Longrightarrow> nibble (hex_char n) = int n"
  by (simp add: nibble_def hex_char_def Let_def)

lemma hex_char_plain: "n < 16 \<Longrightarrow> \<not> c_isspace (hex_char n) \<and> hex_char n \<noteq> CHR ''-'' \<and> hex_char n \<noteq> CHR ''+'' \<and> hex_char n \<noteq> CHR 0x00 \<and>
  hex_char n \<noteq> CHR 0x0A \<and> hex_char n \<noteq> CHR 0x0D"
proof -
  assume n: "n < 16"
  have "nibble c < 0" if "c \<in> {CHR ''-'', CHR ''+'', CHR 0x00, CHR 0x0A, CHR 0x0D}" for c
    using that by (auto simp: nibble_def)
  then have "hex_char n \<notin> {CHR ''-'', CHR ''+'', CHR 0x00, CHR 0x0A, CHR 0x0D}"
    using nibble_hex_char [OF n] by (metis of_nat_0_le_iff not_less)
  moreover have "\<not> c_isspace (hex_char n)" using n by (simp add: c_isspace_def hex_char_def Let_def)
  ultimately show ?thesis by simp
qed

lemma strtol_hex_byte: "(word_of_int (strtol_hex [hex_char (unat b div 16), hex_char (unat b mod 16)]) :: byte) = b"
proof -
  have b: "unat b div 16 < 16" "unat b mod 16 < 16" using unsigned_less [where 'a = nat, of b] by simp_all
  have "strtol_hex [hex_char (unat b div 16), hex_char (unat b mod 16)] = int (unat b div 16) * 16 + int (unat b mod 16)"
    using hex_char_plain [OF b(1)] nibble_hex_char [OF b(1)] nibble_hex_char [OF b(2)] by (simp add: strtol_hex_def Let_def)
  also have "\<dots> = int (unat b)" by (metis div_mult_mod_eq of_nat_add of_nat_mult of_nat_numeral)
  finally show ?thesis by simp
qed

lemma hex_to_bin_bytes:
  "i + length bs \<le> length bin \<Longrightarrow> hex_to_bin (EncodeToString bs) i bin = take i bin @ bs @ drop (i + length bs) bin"
proof (induction bs arbitrary: i bin)
  case (Cons b bs)
  have "hex_to_bin (EncodeToString (b # bs)) i bin = hex_to_bin (EncodeToString bs) (Suc i) (bin[i := b])"
    using Cons.prems strtol_hex_byte [of b] by (simp add: EncodeToString_def)
  also have "\<dots> = take i bin @ (b # bs) @ drop (Suc i + length bs) bin"
    using Cons.IH [of "Suc i" "bin[i := b]"] Cons.prems
    by (simp add: take_Suc_conv_app_nth)
  finally show ?case by simp
qed (simp add: EncodeToString_def)

lemma hex_to_bin_length: "length (hex_to_bin hex i bin) = length bin"
  by (induction hex i bin rule: hex_to_bin.induct) simp_all

lemma hex_to_bin_rest: "i + (length hex + 1) div 2 \<le> j \<Longrightarrow> drop j (hex_to_bin hex i bin) = drop j bin"
  by (induction hex i bin rule: hex_to_bin.induct) (simp_all add: drop_update_cancel)

section \<open>The lines\<close>

lemma line_bytes:
  assumes "length line = n + 2 * length data + 2"
  shows "take (n + 2 * length data + 1) ((put_hex data n line)[n + 2 * length data := CHR 0x0A, Suc (n + 2 * length data) := CHR 0x00])
    = take n line @ EncodeToString data @ [CHR 0x0A]"
proof -
  let ?m = "n + 2 * length data" and ?l = "put_hex data n line"
  have l: "?l = (take n line @ EncodeToString data) @ drop ?m line" using put_hex_bytes [of n data line] assms by simp
  have len: "length (take n line @ EncodeToString data) = ?m" using assms by (simp add: length_EncodeToString)
  have "?l[?m := CHR 0x0A, Suc ?m := CHR 0x00] = take ?m ?l @ [CHR 0x0A, CHR 0x00] @ drop (?m + 2) ?l"
    using l len assms by (intro update_two) simp
  moreover have "take ?m ?l = take n line @ EncodeToString data" unfolding l using len by simp
  ultimately show ?thesis using len by simp
qed

lemma packet_c_line_bytes:
  assumes "length data = 112" and "length arr = 239"
  shows "packet_c_line arr data = Ok (''PACKET_C_TX:'' @ CHR 0x00 # EncodeToString data @ [CHR 0x0A])"
proof -
  let ?line = "''PACKET_C_TX:'' @ CHR 0x00 # drop 13 arr"
  have "length ?line = 13 + 2 * length data + 2" using assms by simp
  from line_bytes [OF this] have "take 238 ((put_hex data 13 ?line)[237 := CHR 0x0A, Suc 237 := CHR 0x00])
      = take 13 ?line @ EncodeToString data @ [CHR 0x0A]" using assms(1) by simp
  then show ?thesis
    using assms(1) by (simp add: packet_c_line_def Let_def EgressPacketCSize_def kPrefixLen_C_def kLineCap_C_def)
qed

lemma packet_ack_line_bytes:
  assumes "length data = 136" and "length arr = 288"
  shows "packet_ack_line arr data = kPrefix_Ack @ EncodeToString data @ [CHR 0x0A]"
proof -
  let ?line = "kPrefix_Ack @ drop 14 arr"
  have "length ?line = 14 + 2 * length data + 2" using assms by (simp add: kPrefix_Ack_def)
  from line_bytes [OF this] have "take 287 ((put_hex data 14 ?line)[286 := CHR 0x0A, Suc 286 := CHR 0x00])
      = take 14 ?line @ EncodeToString data @ [CHR 0x0A]" using assms(1) by simp
  moreover have "length kPrefix_Ack = 14" by (simp add: kPrefix_Ack_def)
  ultimately show ?thesis using assms(1) by (simp add: packet_ack_line_def Let_def)
qed

section \<open>The receive loop\<close>

definition text_char :: "char \<Rightarrow> bool" where
  "text_char c \<longleftrightarrow> c \<noteq> CHR 0x0A \<and> c \<noteq> CHR 0x0D"

lemma rx_bytes_text:
  "list_all text_char s \<Longrightarrow> length line + length s < LINE_CAP \<Longrightarrow> rx_bytes br (s @ rest) line w = rx_bytes br rest (line @ s) w"
  by (induction s arbitrary: line) (simp_all add: text_char_def LINE_CAP_def)

lemma rx_line:
  assumes "list_all text_char s" and "length s < LINE_CAP" and "s \<noteq> []"
  shows "rx_bytes br (s @ [CHR 0x0A]) [] w = bind_ok (on_line br s w) (\<lambda>w. Ok ([], w))"
proof -
  have "rx_bytes br [] [] = (\<lambda>w. Ok ([], w))" by (rule ext) simp
  then show ?thesis using rx_bytes_text [OF assms(1), of "[]" br "[CHR 0x0A]" w] assms(2,3) by simp
qed

lemma bind_ok_assoc: "bind_ok (bind_ok m f) g = bind_ok m (\<lambda>x. bind_ok (f x) g)"
  by (cases m) simp_all

lemma rx_bytes_append: "rx_bytes br (xs @ ys) line w = bind_ok (rx_bytes br xs line w) (\<lambda>(line, w). rx_bytes br ys line w)"
proof (induction xs arbitrary: line w)
  case (Cons c xs)
  show ?case by (simp add: Cons.IH [abs_def] bind_ok_assoc)
qed simp

lemma rx_reads_concat: "rx_reads br rcvd line w = rx_bytes br (concat rcvd) line w"
proof (induction rcvd arbitrary: line w)
  case (Cons r rcvd)
  have "rx_reads br rcvd = rx_bytes br (concat rcvd)" by (intro ext) (rule Cons.IH)
  then show ?case by (simp add: rx_bytes_append)
qed simp

section \<open>A payment line\<close>

text \<open>The sizes of the local arrays.\<close>

definition bridge_ok :: "'w bridge \<Rightarrow> bool" where
  "bridge_ok br \<longleftrightarrow> length (br_packet_bin br) = 192 \<and> length (br_cleartext br) = 256 \<and> length (br_ack_frame br) = 136 \<and>
     length (br_line br) = 288"

definition ack_frame_for :: "byte list \<Rightarrow> byte list" where
  "ack_frame_for pkt = ack_head @ ack_body (ack_for_payment pkt)"

lemma ack_inputs_tunnel: "length (enc_tunnel (ack_for_payment pkt)) = 96"
  by (simp add: ack_for_payment_def)

lemma length_ack_frame_for: "length (ack_frame_for pkt) = 136"
  by (simp add: ack_frame_for_def ack_inputs_tunnel)

lemma process_any_packet: "length raw = 192 \<Longrightarrow> length out = 256 \<Longrightarrow> fst (process_packet raw out)"
  by (simp add: process_packet_def validate_packet_size_def validate_signature_def decrypt_payload_def SIZE_PACKET_B_def seg_def)

lemma emit_ack_line:
  assumes "bridge_ok br"
  shows "emit_ack br pkt w = (case br_serial_write br (kPrefix_Ack @ EncodeToString (ack_frame_for pkt) @ [CHR 0x0A]) w of
    (n, w') \<Rightarrow> Ok (n \<ge> 0, w'))"
proof -
  have "build (ack_for_payment pkt) (Some (br_ack_frame br)) = (Ok (True, Some (ack_frame_for pkt)) :: (unit, bool \<times> byte list option) outcome)"
    using build_cases [OF ack_inputs_tunnel, of pkt "br_ack_frame br"] assms by (simp add: ack_frame_for_def bridge_ok_def)
  moreover have "packet_ack_line (br_line br) (ack_frame_for pkt) = kPrefix_Ack @ EncodeToString (ack_frame_for pkt) @ [CHR 0x0A]"
    using assms by (intro packet_ack_line_bytes) (simp_all add: length_ack_frame_for bridge_ok_def)
  ultimately show ?thesis
    by (simp add: emit_ack_def lora_tx_ack_via_serial_def length_ack_frame_for kPacketAckSize_def split: prod.split)
qed

lemma on_packet_b_relays:
  assumes "bridge_ok br" and "pkt = hex_to_bin hex 0 (br_packet_bin br)"
  shows "on_packet_b br hex w = Ok (snd (push_to_l2 (br_uplink br) (br_host br) (br_port br) pkt
    (snd (br_serial_write br (kPrefix_Ack @ EncodeToString (ack_frame_for pkt) @ [CHR 0x0A]) w))))"
proof -
  have "length pkt = 192" using assms by (simp add: hex_to_bin_length bridge_ok_def)
  then obtain out where "process_packet pkt (br_cleartext br) = (True, out)"
    using process_any_packet [of pkt "br_cleartext br"] assms(1) by (metis bridge_ok_def prod.collapse)
  then show ?thesis
    by (simp add: on_packet_b_def emit_ack_line [OF assms(1)] assms(2) [symmetric] Let_def split: prod.split)
qed

lemma packet_b_line:
  assumes "bridge_ok br" and "concat rcvd = ''PACKET_B:'' @ hex @ [CHR 0x0A]" and "list_all text_char hex" and "length hex \<le> 502"
  shows "rx_reads br rcvd [] w = bind_ok (on_packet_b br (c_string hex) w) (\<lambda>w. Ok ([], w))"
proof -
  have "list_all text_char ''PACKET_B:''" by (simp add: text_char_def)
  then have "rx_bytes br ((''PACKET_B:'' @ hex) @ [CHR 0x0A]) [] w = bind_ok (on_line br (''PACKET_B:'' @ hex) w) (\<lambda>w. Ok ([], w))"
    using assms(3,4) by (intro rx_line) (simp_all add: LINE_CAP_def)
  then show ?thesis by (simp add: rx_reads_concat assms(2) on_line_def)
qed

lemma hex_text_chars: "list_all text_char (EncodeToString bs)" "c_string (EncodeToString bs) = EncodeToString bs"
proof -
  have all: "list_all (\<lambda>c. text_char c \<and> c \<noteq> CHR 0x00) (EncodeToString bs)"
  proof (induction bs)
    case (Cons b bs)
    have "unat b div 16 < 16" "unat b mod 16 < 16" using unsigned_less [where 'a = nat, of b] by simp_all
    with Cons hex_char_plain show ?case by (simp add: EncodeToString_def text_char_def)
  qed (simp add: EncodeToString_def)
  then show "list_all text_char (EncodeToString bs)" by (rule list.pred_mono_strong) blast
  show "c_string (EncodeToString bs) = EncodeToString bs"
    using all unfolding c_string_def takeWhile_eq_all_conv list_all_iff by blast
qed

lemma sat_id_bytes:
  assumes "116 \<le> length pkt"
  shows "extract_packet_b_sat_id_snlp pkt = le_word (seg pkt 112 116)"
proof -
  have "seg pkt 112 116 = [pkt ! 112, pkt ! 113, pkt ! 114, pkt ! 115]"
    using assms by (intro nth_equalityI) (auto simp: seg_def nth_Cons' less_Suc_eq numeral_eq_Suc)
  then show ?thesis by (simp add: extract_packet_b_sat_id_snlp_def le_word_def)
qed

text \<open>The acknowledgement of a payment, as the gateway's parser and gates see it.\<close>

lemma ack_frame_for_ok:
  assumes "length pkt = 192" and "kaitai_stream k view"
  shows "\<exists>obj s d b. parse_frame k (ack_frame_for pkt) = Ok (obj, s) \<and> Body obj = Dispatch122 d \<and> Content d = Some (PacketAckBodySnlp b) \<and>
    as_TargetTxId b = le_word (seg pkt 112 116) \<and> frame_verdict ed db (ack_frame_for pkt) = Accepted None"
proof -
  have "as_TargetTxId (ack_fields (ack_for_payment pkt)) = le_word (seg pkt 112 116)"
    using sat_id_bytes [of pkt] assms(1) by (simp add: ack_fields_def ack_for_payment_def)
  with ack_parse [OF ack_inputs_tunnel assms(2), of pkt] ack_verdict [OF ack_inputs_tunnel, of ed db pkt] show ?thesis
    unfolding ack_frame_for_def by blast
qed

section \<open>Properties\<close>

text \<open>
  C30.  The payment relay.  When the hexadecimal line of a 192-byte payment frame arrives on the serial
  port, split over any reads, the ground station writes one acknowledgement line to the radio board
  and then pushes exactly this frame to the gateway, and the line buffer is empty again.  The line is
  the hexadecimal of a frame that the gateway's parser reads as an acknowledgement with the satellite
  id at offset 112 of the payment as its transaction, and that its CRC gate accepts.
\<close>

theorem payment_line_is_relayed:
  assumes "bridge_ok br" and "length frame = 192" and "kaitai_stream k view"
    and "concat rcvd = ''PACKET_B:'' @ EncodeToString frame @ [CHR 0x0A]"
  shows "\<exists>ack obj s d b. rx_reads br rcvd [] w = Ok ([], snd (push_to_l2 (br_uplink br) (br_host br) (br_port br) frame
      (snd (br_serial_write br (''PACKET_ACK_TX:'' @ EncodeToString ack @ [CHR 0x0A]) w)))) \<and>
    parse_frame k ack = Ok (obj, s) \<and> Body obj = Dispatch122 d \<and> Content d = Some (PacketAckBodySnlp b) \<and>
    as_TargetTxId b = le_word (seg frame 112 116) \<and> frame_verdict ed db ack = Accepted None"
proof -
  have "frame = hex_to_bin (EncodeToString frame) 0 (br_packet_bin br)"
    using hex_to_bin_bytes [of 0 frame "br_packet_bin br"] assms(1,2) by (simp add: bridge_ok_def)
  from on_packet_b_relays [OF assms(1) this, of w]
  have "rx_reads br rcvd [] w = Ok ([], snd (push_to_l2 (br_uplink br) (br_host br) (br_port br) frame
      (snd (br_serial_write br (''PACKET_ACK_TX:'' @ EncodeToString (ack_frame_for frame) @ [CHR 0x0A]) w))))"
    using packet_b_line [OF assms(1,4) hex_text_chars(1), of w] hex_text_chars(2) assms(2)
    by (simp add: length_EncodeToString kPrefix_Ack_def)
  with ack_frame_for_ok [OF assms(2,3), of ed db] show ?thesis by blast
qed

text \<open>
  C39.  The bouncer bounces nothing.  Every line that begins with \<^verbatim>\<open>PACKET_B:\<close> and fits the line buffer is
  acknowledged and pushed to the gateway, whatever follows: the packet always has the full size, its
  signature is not checked, and the bytes the line does not cover are what the uninitialised array
  happened to hold; for the bare prefix that is the whole packet.
\<close>

theorem any_payment_line_is_acknowledged:
  assumes "bridge_ok br" and "concat rcvd = ''PACKET_B:'' @ hex @ [CHR 0x0A]" and "list_all text_char hex" and "length hex \<le> 502"
  shows "\<exists>pkt ack. length pkt = 192 \<and> frame_verdict ed db ack = Accepted None \<and>
    rx_reads br rcvd [] w = Ok ([], snd (push_to_l2 (br_uplink br) (br_host br) (br_port br) pkt
      (snd (br_serial_write br (''PACKET_ACK_TX:'' @ EncodeToString ack @ [CHR 0x0A]) w)))) \<and>
    drop ((length (c_string hex) + 1) div 2) pkt = drop ((length (c_string hex) + 1) div 2) (br_packet_bin br)"
proof -
  let ?pkt = "hex_to_bin (c_string hex) 0 (br_packet_bin br)"
  have len: "length ?pkt = 192" using assms(1) by (simp add: hex_to_bin_length bridge_ok_def)
  have "rx_reads br rcvd [] w = Ok ([], snd (push_to_l2 (br_uplink br) (br_host br) (br_port br) ?pkt
      (snd (br_serial_write br (''PACKET_ACK_TX:'' @ EncodeToString (ack_frame_for ?pkt) @ [CHR 0x0A]) w))))"
    using packet_b_line [OF assms, of w] on_packet_b_relays [OF assms(1) HOL.refl, of "c_string hex" w] by (simp add: kPrefix_Ack_def)
  moreover have "frame_verdict ed db (ack_frame_for ?pkt) = Accepted None"
    unfolding ack_frame_for_def by (rule ack_verdict [OF ack_inputs_tunnel])
  ultimately show ?thesis using len hex_to_bin_rest [of 0 "c_string hex" _ "br_packet_bin br"]
    by (intro exI [of _ ?pkt] exI [of _ "ack_frame_for ?pkt"]) simp
qed

text \<open>
  C40.  The receipt line is broken.  The line that carries a receipt frame to the radio board has a NUL
  between the prefix and the digits, one byte more than the documented \<^verbatim>\<open>PACKET_C_TX:<hex>\<close>: read as a
  C string it is the prefix alone.  The acknowledgement line has no such byte.
\<close>

theorem packet_c_line_has_nul:
  assumes "length frame = 112" and "length arr = 239" and "length ack = 136" and "length arr' = 288"
  shows "packet_c_line arr frame = Ok (''PACKET_C_TX:'' @ CHR 0x00 # EncodeToString frame @ [CHR 0x0A]) \<and>
    packet_c_line arr frame \<noteq> Ok (''PACKET_C_TX:'' @ EncodeToString frame @ [CHR 0x0A]) \<and>
    c_string (''PACKET_C_TX:'' @ CHR 0x00 # EncodeToString frame @ [CHR 0x0A]) = ''PACKET_C_TX:'' \<and>
    packet_ack_line arr' ack = ''PACKET_ACK_TX:'' @ EncodeToString ack @ [CHR 0x0A]"
proof -
  have "length (''PACKET_C_TX:'' @ CHR 0x00 # EncodeToString frame @ [CHR 0x0A]) \<noteq> length (''PACKET_C_TX:'' @ EncodeToString frame @ [CHR 0x0A])" by simp
  then have "''PACKET_C_TX:'' @ CHR 0x00 # EncodeToString frame @ [CHR 0x0A] \<noteq> ''PACKET_C_TX:'' @ EncodeToString frame @ [CHR 0x0A]" by metis
  moreover have "c_string (''PACKET_C_TX:'' @ CHR 0x00 # EncodeToString frame @ [CHR 0x0A]) = ''PACKET_C_TX:''" by (simp add: c_string_def)
  ultimately show ?thesis
    using packet_c_line_bytes [OF assms(1,2)] packet_ack_line_bytes [OF assms(3,4)] by (simp add: kPrefix_Ack_def)
qed

text \<open>A bridge that records what it writes and pushes, for the witnesses.\<close>

definition demo_bridge :: "(string list \<times> byte list list) bridge" where
  "demo_bridge = \<lparr>br_serial_write = (\<lambda>line (ls, ps). (int (length line), (ls @ [line], ps))),
     br_uplink = \<lparr>up_connect = (\<lambda>w. (True, w)), up_send = (\<lambda>hdr frame (ls, ps). (ls, ps @ [frame]))\<rparr>,
     br_host = ''127.0.0.1'', br_port = 8080, br_packet_bin = replicate 192 0xCC, br_cleartext = replicate 256 0xCC,
     br_ack_frame = replicate 136 0xCC, br_line = replicate 288 (CHR ''?'')\<rparr>"

lemma demo_bridge_ok: "bridge_ok demo_bridge"
  by (simp add: bridge_ok_def demo_bridge_def)

lemma demo_push:
  assumes "length frame = 192"
  shows "snd (push_to_l2 (br_uplink demo_bridge) (br_host demo_bridge) (br_port demo_bridge) frame
    (snd (br_serial_write demo_bridge line ([], [])))) = ([line], [frame])"
proof -
  have "length (dec_string 8080) \<le> 4" "length (dec_string 192) \<le> 3" by (simp_all add: dec_string.simps)
  then have "length (push_header ''127.0.0.1'' 8080 192) < 512" by (simp add: push_header_def)
  with assms show ?thesis by (auto simp: demo_bridge_def push_to_l2_def Let_def)
qed

theorem payment_line_is_relayed_witness:
  "\<exists>line. rx_reads demo_bridge [''PACKET_B:'', EncodeToString (map word_of_nat [0..<192]), [CHR 0x0A]] [] ([], [])
     = Ok ([], ([line], [map word_of_nat [0..<192]]))"
proof -
  let ?f = "map word_of_nat [0..<192] :: byte list" and ?r = "[''PACKET_B:'', EncodeToString (map word_of_nat [0..<192]), [CHR 0x0A]]"
  have f: "length ?f = 192" "concat ?r = ''PACKET_B:'' @ EncodeToString ?f @ [CHR 0x0A]" by simp_all
  from payment_line_is_relayed [OF demo_bridge_ok f(1) bytes_stream.kaitai_stream_axioms f(2), of "([], [])" demo_ed Map.empty]
  obtain ack where "rx_reads demo_bridge ?r [] ([], []) = Ok ([], snd (push_to_l2 (br_uplink demo_bridge) (br_host demo_bridge) (br_port demo_bridge) ?f
      (snd (br_serial_write demo_bridge (''PACKET_ACK_TX:'' @ EncodeToString ack @ [CHR 0x0A]) ([], [])))))" by blast
  then show ?thesis unfolding demo_push [OF f(1)] by blast
qed

theorem any_payment_line_is_acknowledged_witness:
  "\<exists>line. rx_reads demo_bridge [''PACKET_B:'', [CHR 0x0A]] [] ([], []) = Ok ([], ([line], [replicate 192 0xCC]))"
proof -
  have h: "concat [''PACKET_B:'', [CHR 0x0A]] = ''PACKET_B:'' @ [] @ [CHR 0x0A]" by simp
  have bin: "br_packet_bin demo_bridge = replicate 192 0xCC" by (simp add: demo_bridge_def)
  obtain pkt ack where p: "length pkt = 192" "rx_reads demo_bridge [''PACKET_B:'', [CHR 0x0A]] [] ([], []) = Ok ([], snd (push_to_l2 (br_uplink demo_bridge) (br_host demo_bridge) (br_port demo_bridge) pkt
      (snd (br_serial_write demo_bridge (''PACKET_ACK_TX:'' @ EncodeToString ack @ [CHR 0x0A]) ([], [])))))" "pkt = replicate 192 0xCC"
    using any_payment_line_is_acknowledged [OF demo_bridge_ok h, of demo_ed Map.empty "([], [])"] unfolding bin by (auto simp: c_string_def)
  then show ?thesis unfolding demo_push [OF p(1)] by blast
qed

theorem packet_c_line_has_nul_witness:
  "packet_c_line (replicate 239 (CHR ''?'')) (replicate 112 0) = Ok (''PACKET_C_TX:'' @ CHR 0x00 # EncodeToString (replicate 112 0) @ [CHR 0x0A])"
  using packet_c_line_has_nul [of "replicate 112 0" "replicate 239 (CHR ''?'')" "replicate 136 0" "replicate 288 (CHR ''?'')"] by simp

end
