(* ===== verification/Station_Drain.thy ===== *)
theory Station_Drain
  imports Egress_Drain Ground_Station
begin

text \<open>
  The ground station as \<^verbatim>\<open>main.cpp\<close> puts it together: the orchestrator with the poll client and
  \<^verbatim>\<open>lora_tx_via_serial\<close>, which writes each frame as a line to the serial port through \<^verbatim>\<open>serial_write_bytes\<close> of
  \<^verbatim>\<open>serial_hal.cpp\<close> (the POSIX variant), and the loop of the poll thread.  The results of the \<^verbatim>\<open>write\<close> calls to
  come are part of the state; when they are used up every \<^verbatim>\<open>write\<close> takes the whole line.
\<close>

section \<open>The station\<close>

record station =
  sn_store :: "store option"
  sn_open :: bool
  sn_writes :: "int list"
  sn_wire :: string
  sn_ub :: bool

text \<open>A failed \<^verbatim>\<open>write\<close> is reported as 0 bytes; only a port that is not open gives a negative result.\<close>

definition serial_write_bytes :: "string \<Rightarrow> station \<Rightarrow> int \<times> station" where
  "serial_write_bytes buffer st =
     (if \<not> sn_open st then (- 1, st)
      else let bytes_written = (case sn_writes st of [] \<Rightarrow> int (length buffer) | n # _ \<Rightarrow> n) in
        (if bytes_written > 0 then bytes_written else 0,
         st\<lparr>sn_writes := tl (sn_writes st), sn_wire := sn_wire st @ take (nat bytes_written) buffer\<rparr>))"

definition station_client :: "store option network \<Rightarrow> string \<Rightarrow> nat \<Rightarrow> station egress_client" where
  "station_client net host port = \<lparr>
     ec_fetch = (\<lambda>cap st. case fetch_pending net host port cap (sn_store st) of (r, es) \<Rightarrow> (r, st\<lparr>sn_store := es\<rparr>)),
     ec_ack = (\<lambda>p t st. case ack_dispatched net host port p t (sn_store st) of (r, es) \<Rightarrow> (r, st\<lparr>sn_store := es\<rparr>))\<rparr>"

text \<open>The callback.  What its line array holds before is an argument; a store past the array is recorded in the state.\<close>

definition serial_tx :: "(nat \<Rightarrow> char) \<Rightarrow> byte list \<Rightarrow> station \<Rightarrow> bool \<times> station" where
  "serial_tx arr frame st = (case lora_tx_via_serial serial_write_bytes (map arr [0..<kLineCap_C]) frame st of
     Ok r \<Rightarrow> r | _ \<Rightarrow> (False, st\<lparr>sn_ub := True\<rparr>))"

definition station_tick :: "store option network \<Rightarrow> string \<Rightarrow> nat \<Rightarrow> (nat \<Rightarrow> char) \<Rightarrow> station \<Rightarrow> int \<times> station" where
  "station_tick net host port arr = tick (station_client net host port) (serial_tx arr)"

text \<open>The loop of the poll thread; the gateway may be restarted before any of its ticks.\<close>

fun egress_poll_listener ::
    "json_codec \<Rightarrow> store option network \<Rightarrow> string \<Rightarrow> nat \<Rightarrow> (nat \<Rightarrow> char) \<Rightarrow> bool list \<Rightarrow> station \<Rightarrow> station" where
  "egress_poll_listener js net host port arr [] st = st"
| "egress_poll_listener js net host port arr (crash # rounds) st =
     (let st = (if crash then st\<lparr>sn_store := restart js (sn_store st)\<rparr> else st);
          (dispatched, st) = station_tick net host port arr st
      in egress_poll_listener js net host port arr rounds st)"

text \<open>The specification: the line of a frame, and what a sequence of writes leaves on the wire.\<close>

definition receipt_line :: "byte list \<Rightarrow> string" where
  "receipt_line frame = ''PACKET_C_TX:'' @ CHR 0x00 # EncodeToString frame @ [CHR 0x0A]"

fun written :: "int list \<Rightarrow> string list \<Rightarrow> string" where
  "written ns [] = ''''"
| "written [] (l # ls) = l @ written [] ls"
| "written (n # ns) (l # ls) = take (nat n) l @ written ns ls"

lemma written_all: "written [] ls = concat ls"
  by (induction ls) simp_all

lemma written_snoc:
  "written ns (ls @ [l]) = written ns ls @ (case drop (length ls) ns of [] \<Rightarrow> l | n # _ \<Rightarrow> take (nat n) l)"
  by (induction ns ls rule: written.induct) (simp_all add: written_all split: list.split)

lemma written_failed: "list_all (\<lambda>n. n \<le> 0) ns \<Longrightarrow> length ls \<le> length ns \<Longrightarrow> written ns ls = ''''"
  by (induction ns ls rule: written.induct) simp_all

section \<open>The serial line as the callback\<close>

lemma serial_tx_frame:
  assumes "length frame = EgressPacketCSize"
  shows "serial_tx arr frame st = (case serial_write_bytes (receipt_line frame) st of (n, st') \<Rightarrow> (n \<ge> 0, st'))"
proof -
  have "length frame = 112" "length (map arr [0..<kLineCap_C]) = 239"
    using assms by (simp_all add: EgressPacketCSize_def kLineCap_C_def kPrefixLen_C_def)
  from packet_c_line_bytes [OF this] show ?thesis
    by (simp only: serial_tx_def lora_tx_via_serial_def receipt_line_def bind_ok.simps) (simp split: prod.split)
qed

definition serial_rel :: "station \<Rightarrow> ground \<Rightarrow> station \<Rightarrow> bool" where
  "serial_rel st0 g st \<longleftrightarrow> sn_store st = gr_store g \<and> gr_radio g = [] \<and> sn_open st \<and> sn_ub st = sn_ub st0 \<and>
     sn_wire st = sn_wire st0 @ written (sn_writes st0) (map receipt_line (gr_sent g)) \<and>
     sn_writes st = drop (length (gr_sent g)) (sn_writes st0)"

lemma serial_tx_rel:
  assumes "serial_rel st0 g st" and "length frame = EgressPacketCSize"
  shows "rel_prod (=) (serial_rel st0) (radio_tx frame g) (serial_tx arr frame st)"
proof -
  note R = assms(1) [unfolded serial_rel_def]
  have "radio_tx frame g = (True, g\<lparr>gr_sent := gr_sent g @ [frame]\<rparr>)" using R by (simp add: radio_tx_def)
  moreover have "drop (Suc k) ns = tl (drop k ns)" for k and ns :: "int list" by (simp add: drop_Suc tl_drop)
  ultimately show ?thesis
    unfolding serial_tx_frame [OF assms(2)] using R
    by (auto simp: serial_rel_def serial_write_bytes_def Let_def written_snoc split: list.split)
qed

interpretation serial: client_simulation "serial_rel st0" "poll_client net host port" radio_tx "station_client net host port" "serial_tx arr"
  for st0 net host port arr
proof
  fix a b cap
  assume "serial_rel st0 a b"
  then show "rel_prod (=) (serial_rel st0) (ec_fetch (poll_client net host port) cap a) (ec_fetch (station_client net host port) cap b)"
    by (cases "fetch_pending net host port cap (gr_store a)") (simp add: poll_client_def station_client_def serial_rel_def)
next
  fix a b p t
  assume "serial_rel st0 a b"
  then show "rel_prod (=) (serial_rel st0) (ec_ack (poll_client net host port) p t a) (ec_ack (station_client net host port) p t b)"
    by (cases "ack_dispatched net host port p t (gr_store a)") (simp add: poll_client_def station_client_def serial_rel_def)
qed (rule serial_tx_rel)

lemma serial_rel_start: "sn_open st \<Longrightarrow> serial_rel st \<lparr>gr_store = sn_store st, gr_sent = [], gr_radio = []\<rparr> st"
  by (simp add: serial_rel_def)

text \<open>A tick of the station is a tick with a working callback, seen through the serial line.\<close>

lemma station_tick_sim:
  assumes "sn_open st" and "tick (poll_client net host port) radio_tx \<lparr>gr_store = sn_store st, gr_sent = [], gr_radio = []\<rparr>
    = (n, \<lparr>gr_store = es, gr_sent = frames, gr_radio = []\<rparr>)"
  shows "station_tick net host port arr st = (n, st\<lparr>sn_store := es, sn_writes := drop (length frames) (sn_writes st),
    sn_wire := sn_wire st @ written (sn_writes st) (map receipt_line frames)\<rparr>)"
  using serial.tick_sim [OF serial_rel_start [OF assms(1)], of net host port arr] assms
  by (cases "station_tick net host port arr st") (auto simp: station_tick_def serial_rel_def intro!: station.equality)

text \<open>A port that is not open: nothing is sent and nothing acknowledged.\<close>

lemma dispatch_all_closed:
  assumes "\<not> sn_open st"
  shows "dispatch_all cl (serial_tx arr) rs n st = (n, st)"
proof (induction rs)
  case (Cons r rs)
  let ?hex = "c_string (eg_packet_c_hex r)"
  have "serial_tx arr frame st = (False, st)" if "length ?hex = EgressPacketCSize * 2" "hex_decode ?hex (length ?hex) EgressPacketCSize = Ok frame" for frame
  proof -
    from that(2) have "DecodeString ?hex = Ok frame" unfolding hex_decode_DecodeString by (auto split: outcome.splits if_splits)
    then have "length frame = EgressPacketCSize" using DecodeString_length [of ?hex frame] that(1) by simp
    with assms show ?thesis by (simp add: serial_tx_frame serial_write_bytes_def)
  qed
  then have "dispatch_one cl (serial_tx arr) r st = (0, st)" by (auto simp: dispatch_one_def Let_def split: outcome.split)
  with Cons show ?case by simp
qed simp

section \<open>Ticks against the gateway\<close>

text \<open>
  A store whose receipts are fit for the wire.  Ten of them make a page that is never sent whole, so that a
  page that fits holds everything that is pending.
\<close>

definition wire_store :: "json_codec \<Rightarrow> store \<Rightarrow> bool" where
  "wire_store js s \<longleftrightarrow> drainable js s \<and> list_all wire_receipt (settlements s)"

lemma wire_page:
  assumes "wire_store js s"
  shows "polled (Some s) = take 10 (filter pending (settlements s))" "list_all wire_receipt (polled (Some s))"
    "length (records_json (polled (Some s))) \<le> 2048 \<Longrightarrow> polled (Some s) = filter pending (settlements s)"
proof -
  let ?q = "filter pending (settlements s)"
  show page: "polled (Some s) = take 10 ?q"
    using receipt_store.pending_eq [of s 10] assms by (simp add: wire_store_def polled_Some drainable_def durable_def)
  show wire: "list_all wire_receipt (polled (Some s))"
    unfolding page using assms by (auto simp: wire_store_def list_all_iff dest: in_set_takeD)
  assume "length (records_json (polled (Some s))) \<le> 2048"
  then have "length (polled (Some s)) < 10" using page_size(1) [OF wire] by simp
  then have "length ?q \<le> 10" unfolding page by simp
  with page show "polled (Some s) = ?q" by simp
qed

lemma station_tick_fits:
  assumes "egress_link js host port net" and "wire_store js s" and "sn_store st = Some s" and "sn_open st"
    and "length (records_json (polled (Some s))) \<le> 2048"
  shows "\<exists>s'. station_tick net host port arr st = (int (length (filter pending (settlements s))),
      st\<lparr>sn_store := Some s', sn_writes := drop (length (filter pending (settlements s))) (sn_writes st),
        sn_wire := sn_wire st @ written (sn_writes st) (map (\<lambda>r. receipt_line (frame_of r)) (filter pending (settlements s)))\<rparr>) \<and>
    drainable js s' \<and> filter pending (settlements s') = []"
proof -
  let ?q = "filter pending (settlements s)" and ?g = "\<lparr>gr_store = sn_store st, gr_sent = [], gr_radio = []\<rparr>"
  note page = wire_page(2,3) [OF assms(2)]
  have drain: "drainable js s" using assms(2) by (simp add: wire_store_def)
  obtain s' where s': "dispatched js ?q s s'" "tick (poll_client net host port) radio_tx ?g
      = (int (length ?q), \<lparr>gr_store = Some s', gr_sent = map frame_of ?q, gr_radio = []\<rparr>)"
    using egress_link.tick_page [OF assms(1) drain page(1), of ?g] page(2) [OF assms(5)] assms(3,5)
    by (auto simp: Let_def bufferBeforeChunkingSize_def)
  have "filter pending (settlements s') = []" using s'(1) by (auto simp: dispatched_def filter_empty_conv)
  moreover have "drainable js s'" using s'(1) by (simp add: dispatched_def)
  ultimately show ?thesis
    using station_tick_sim [OF assms(4) s'(2), of arr] by (intro exI [of _ s']) (simp add: comp_def)
qed

lemma station_tick_large:
  assumes "egress_link js host port net" and "wire_store js s" and "sn_store st = Some s" and "sn_open st"
    and "\<not> length (records_json (polled (Some s))) \<le> 2048"
  shows "station_tick net host port arr st = (- 1, st)"
proof -
  let ?g = "\<lparr>gr_store = sn_store st, gr_sent = [], gr_radio = []\<rparr>"
  have drain: "drainable js s" using assms(2) by (simp add: wire_store_def)
  have "tick (poll_client net host port) radio_tx ?g = (- 1, ?g)"
    using egress_link.tick_large [OF assms(1) drain wire_page(2) [OF assms(2)], of ?g] assms(3,5)
    by (simp add: bufferBeforeChunkingSize_def)
  from station_tick_sim [OF assms(4) this, of arr] assms(3) show ?thesis by simp
qed

text \<open>A restart of the gateway before a tick does not change what it finds.\<close>

lemma restart_settlements:
  assumes "egress_link js host port net" and "drainable js s" and "sn_store st = Some s"
  obtains s1 where "(if crash then st\<lparr>sn_store := restart js (sn_store st)\<rparr> else st) = st\<lparr>sn_store := Some s1\<rparr>"
    "drainable js s1" "settlements s1 = settlements s"
proof -
  have js: "json_ok js" using assms(1) by (simp add: egress_link_def)
  show ?thesis
  proof (cases crash)
    case True
    then show ?thesis using restart_drainable [OF js assms(2)] assms(3) that by auto
  next
    case False
    have "st\<lparr>sn_store := Some s\<rparr> = st" using assms(3) by (cases st) simp
    with False show ?thesis using assms(2) by (intro that [of s]) simp_all
  qed
qed

lemma polls_idle:
  assumes "egress_link js host port net" and "drainable js s" and "filter pending (settlements s) = []"
    and "sn_store st = Some s" and "sn_open st"
  shows "\<exists>s'. egress_poll_listener js net host port arr rounds st = st\<lparr>sn_store := Some s'\<rparr> \<and> filter pending (settlements s') = []"
  using assms(2-5)
proof (induction rounds arbitrary: s st)
  case Nil
  have "st\<lparr>sn_store := Some s\<rparr> = st" using Nil.prems(3) by (cases st) simp
  with Nil.prems(2) show ?case by (intro exI [of _ s]) simp
next
  case (Cons crash rounds)
  obtain s1 where s1: "(if crash then st\<lparr>sn_store := restart js (sn_store st)\<rparr> else st) = st\<lparr>sn_store := Some s1\<rparr>"
    "drainable js s1" "settlements s1 = settlements s"
    using restart_settlements [OF assms(1) Cons.prems(1,3)] .
  let ?st = "st\<lparr>sn_store := Some s1\<rparr>" and ?g = "\<lparr>gr_store = Some s1, gr_sent = [], gr_radio = []\<rparr>"
  have page: "polled (Some s1) = []"
    using receipt_store.pending_eq [of s1 10] s1(2,3) Cons.prems(2) by (simp add: polled_Some drainable_def durable_def)
  obtain s2 where s2: "dispatched js [] s1 s2" "tick (poll_client net host port) radio_tx ?g = (0, ?g\<lparr>gr_store := Some s2\<rparr>)"
    using egress_link.tick_page [OF assms(1) s1(2), of ?g] by (auto simp: page Let_def bufferBeforeChunkingSize_def records_json_def)
  have "station_tick net host port arr ?st = (0, st\<lparr>sn_store := Some s2\<rparr>)"
    using station_tick_sim [of ?st net host port 0 "Some s2" "[]" arr] s2(2) Cons.prems(4) by simp
  then have step: "egress_poll_listener js net host port arr (crash # rounds) st
      = egress_poll_listener js net host port arr rounds (st\<lparr>sn_store := Some s2\<rparr>)" by (simp add: s1(1) Let_def)
  show ?case unfolding step
    using Cons.IH [of s2 "st\<lparr>sn_store := Some s2\<rparr>"] s2(1) s1(3) Cons.prems(2,4) by (simp add: dispatched_def)
qed

lemma polls_stall:
  assumes "egress_link js host port net" and "wire_store js s" and "\<not> length (records_json (polled (Some s))) \<le> 2048"
    and "sn_store st = Some s" and "sn_open st"
  shows "\<exists>s'. egress_poll_listener js net host port arr rounds st = st\<lparr>sn_store := Some s'\<rparr> \<and> settlements s' = settlements s"
  using assms(2-5)
proof (induction rounds arbitrary: s st)
  case Nil
  have "st\<lparr>sn_store := Some s\<rparr> = st" using Nil.prems(3) by (cases st) simp
  then show ?case by (intro exI [of _ s]) simp
next
  case (Cons crash rounds)
  have drain: "drainable js s" using Cons.prems(1) by (simp add: wire_store_def)
  obtain s1 where s1: "(if crash then st\<lparr>sn_store := restart js (sn_store st)\<rparr> else st) = st\<lparr>sn_store := Some s1\<rparr>"
    "drainable js s1" "settlements s1 = settlements s"
    using restart_settlements [OF assms(1) drain Cons.prems(3)] .
  let ?st = "st\<lparr>sn_store := Some s1\<rparr>"
  have w: "wire_store js s1" using Cons.prems(1) s1(2,3) by (simp add: wire_store_def)
  have large: "\<not> length (records_json (polled (Some s1))) \<le> 2048"
    using Cons.prems(2) wire_page(1) [OF Cons.prems(1)] wire_page(1) [OF w] s1(3) by simp
  have "station_tick net host port arr ?st = (- 1, ?st)"
    using station_tick_large [OF assms(1) w _ _ large, of ?st] Cons.prems(4) by simp
  then have step: "egress_poll_listener js net host port arr (crash # rounds) st
      = egress_poll_listener js net host port arr rounds ?st" by (simp add: s1(1) Let_def)
  show ?case unfolding step using Cons.IH [OF w large, of ?st] Cons.prems(4) s1(3) by simp
qed

lemma polls_drain:
  assumes "egress_link js host port net" and "wire_store js s" and "length (records_json (polled (Some s))) \<le> 2048"
    and "sn_store st = Some s" and "sn_open st" and "rounds \<noteq> []"
  shows "\<exists>s'. egress_poll_listener js net host port arr rounds st = st\<lparr>sn_store := Some s',
      sn_writes := drop (length (filter pending (settlements s))) (sn_writes st),
      sn_wire := sn_wire st @ written (sn_writes st) (map (\<lambda>r. receipt_line (frame_of r)) (filter pending (settlements s)))\<rparr> \<and>
    filter pending (settlements s') = []"
proof -
  let ?q = "filter pending (settlements s)"
  let ?lines = "written (sn_writes st) (map (\<lambda>r. receipt_line (frame_of r)) ?q)"
  obtain crash rest where rounds: "rounds = crash # rest" using assms(6) by (cases rounds) simp_all
  have drain: "drainable js s" using assms(2) by (simp add: wire_store_def)
  obtain s1 where s1: "(if crash then st\<lparr>sn_store := restart js (sn_store st)\<rparr> else st) = st\<lparr>sn_store := Some s1\<rparr>"
    "drainable js s1" "settlements s1 = settlements s"
    using restart_settlements [OF assms(1) drain assms(4)] .
  let ?st = "st\<lparr>sn_store := Some s1\<rparr>"
  have w: "wire_store js s1" using assms(2) s1(2,3) by (simp add: wire_store_def)
  have small: "length (records_json (polled (Some s1))) \<le> 2048"
    using assms(3) wire_page(1) [OF assms(2)] wire_page(1) [OF w] s1(3) by simp
  obtain s2 where s2: "station_tick net host port arr ?st
      = (int (length ?q), st\<lparr>sn_store := Some s2, sn_writes := drop (length ?q) (sn_writes st), sn_wire := sn_wire st @ ?lines\<rparr>)"
      "drainable js s2" "filter pending (settlements s2) = []"
    using station_tick_fits [OF assms(1) w _ _ small, of ?st arr] assms(5) s1(3) by auto
  have "egress_poll_listener js net host port arr rounds st = egress_poll_listener js net host port arr rest
      (st\<lparr>sn_store := Some s2, sn_writes := drop (length ?q) (sn_writes st), sn_wire := sn_wire st @ ?lines\<rparr>)"
    by (simp add: rounds s1(1) s2(1) Let_def)
  with polls_idle [OF assms(1) s2(2,3), of "st\<lparr>sn_store := Some s2, sn_writes := drop (length ?q) (sn_writes st), sn_wire := sn_wire st @ ?lines\<rparr>" arr rest]
    assms(5) show ?thesis by (cases st) simp
qed

text \<open>The port closed: the page is read and parsed, but no line is written and nothing acknowledged.\<close>

lemma station_tick_closed:
  assumes "egress_link js host port net" and "wire_store js s" and "sn_store st = Some s" and "\<not> sn_open st"
    and "length (records_json (polled (Some s))) \<le> 2048"
  shows "station_tick net host port arr st = (0, st)"
proof -
  let ?page = "polled (Some s)"
  have plain: "list_all plain_record ?page" "list_all readable_record ?page"
    using wire_page(2) [OF assms(2)] wire_readable by (auto simp: list_all_iff readable_record_def)
  have same: "st\<lparr>sn_store := Some s\<rparr> = st" using assms(3) by (cases st) simp
  have fetch: "ec_fetch (station_client net host port) RESPONSE_BUF_SIZE st = (Some (200, records_json ?page), st)"
    using egress_link.fetch_page [OF assms(1) plain(1), of RESPONSE_BUF_SIZE] assms(3,5) same
    by (simp add: station_client_def RESPONSE_BUF_SIZE_def http_payload_def bufferBeforeChunkingSize_def)
  have "parse_pending_response (records_json ?page) EgressMaxPerTick = Ok (map egress_fields ?page)"
    using wire_page(1) [OF assms(2)] by (intro parse_page [OF _ _ plain(2)]) (simp_all add: EgressMaxPerTick_def)
  with fetch dispatch_all_closed [OF assms(4)] show ?thesis by (simp add: station_tick_def tick_def)
qed

section \<open>Properties\<close>

text \<open>
  C6.  When the ground station drains the queue.  Let the poll thread run any positive number of ticks on an
  open serial port, with the gateway restarted before any of them.  If the page of pending receipts takes
  at most 2048 bytes, which it does with two receipts and never does with five, every pending
  receipt is handed to the serial port exactly once, as one line in the order of the queue of which each \<^verbatim>\<open>write\<close>
  takes the part it reports, and no receipt is pending any more; no store leaves the line array.  If the
  page is longer nothing is written, and the same receipts are pending.
\<close>

theorem poll_thread_drains_or_stalls:
  assumes "egress_link js host port net" and "wire_store js s" and "sn_store st = Some s" and "sn_open st" and "rounds \<noteq> []"
  shows "\<exists>s'. let q = filter pending (settlements s); fits = length (records_json (polled (Some s))) \<le> 2048 in
    (if fits then
       egress_poll_listener js net host port arr rounds st = st\<lparr>sn_store := Some s', sn_writes := drop (length q) (sn_writes st),
         sn_wire := sn_wire st @ written (sn_writes st) (map (\<lambda>r. receipt_line (frame_of r)) q)\<rparr> \<and>
       filter pending (settlements s') = []
     else
       egress_poll_listener js net host port arr rounds st = st\<lparr>sn_store := Some s'\<rparr> \<and> filter pending (settlements s') = q) \<and>
    (length q \<le> 2 \<longrightarrow> fits) \<and> (5 \<le> length q \<longrightarrow> \<not> fits)"
proof -
  let ?page = "polled (Some s)"
  note size = page_size [OF wire_page(2) [OF assms(2)]] wire_page(1) [OF assms(2)]
  have two: "length ?page \<le> 2 \<Longrightarrow> length (records_json ?page) \<le> 2048" using size(2) by linarith
  have five: "5 \<le> length ?page \<Longrightarrow> \<not> length (records_json ?page) \<le> 2048" using size(1) by linarith
  show ?thesis
  proof (cases "length (records_json ?page) \<le> 2048")
    case True
    from polls_drain [OF assms(1,2) True assms(3,4,5), of arr] True five size(3) show ?thesis by (auto simp: Let_def)
  next
    case False
    from polls_stall [OF assms(1,2) False assms(3,4), of arr rounds] False two size(3) show ?thesis by (auto simp: Let_def)
  qed
qed

text \<open>
  C24.  A receipt whose serial line could not be written is lost.  On an open port a failed \<^verbatim>\<open>write\<close> is reported
  as 0 bytes, which the callback takes for success: when every \<^verbatim>\<open>write\<close> of a tick fails, nothing goes out, yet
  all receipts of the page are acknowledged, counted as dispatched and no longer pending.  With the
  port closed the callback fails, and the tick leaves everything as it is.
\<close>

theorem failed_writes_lose_receipts:
  assumes "egress_link js host port net" and "wire_store js s" and "sn_store st = Some s"
    and "length (records_json (polled (Some s))) \<le> 2048" and "list_all (\<lambda>n. n \<le> 0) (sn_writes st)"
    and "length (filter pending (settlements s)) \<le> length (sn_writes st)"
  shows "\<exists>s'. station_tick net host port arr (st\<lparr>sn_open := True\<rparr>) = (int (length (filter pending (settlements s))),
      st\<lparr>sn_open := True, sn_store := Some s', sn_writes := drop (length (filter pending (settlements s))) (sn_writes st)\<rparr>) \<and>
    filter pending (settlements s') = [] \<and>
    station_tick net host port arr (st\<lparr>sn_open := False\<rparr>) = (0, st\<lparr>sn_open := False\<rparr>)"
proof -
  let ?q = "filter pending (settlements s)" and ?st = "st\<lparr>sn_open := True\<rparr>"
  have none: "written (sn_writes st) (map (\<lambda>r. receipt_line (frame_of r)) ?q) = ''''"
    using written_failed [OF assms(5)] assms(6) by simp
  obtain s' where s': "station_tick net host port arr ?st = (int (length ?q),
      ?st\<lparr>sn_store := Some s', sn_writes := drop (length ?q) (sn_writes st), sn_wire := sn_wire st\<rparr>)" "filter pending (settlements s') = []"
    using station_tick_fits [OF assms(1,2) _ _ assms(4), of ?st arr] assms(3) none by auto
  moreover have "station_tick net host port arr (st\<lparr>sn_open := False\<rparr>) = (0, st\<lparr>sn_open := False\<rparr>)"
    using assms(3) by (intro station_tick_closed [OF assms(1,2) _ _ assms(4)]) simp_all
  ultimately show ?thesis by (intro exI [of _ s']) (cases st, simp)
qed

text \<open>
  C7.  From the chain to the serial line.  Let the receipt pipeline of the gateway start with an empty store
  on a disk that takes writes and follow an honest node over blocks with at most two settlements, and let
  the ground station then run one tick on an open port whose writes succeed.  It writes one line for each
  payment and transaction settled in these blocks and no other, the digits of the PacketC that \<^verbatim>\<open>Build\<close> makes
  for the settlement event behind the prefix and a NUL byte, and no receipt is pending any more.
\<close>

theorem settlements_reach_the_serial_line:
  assumes "libraries_ok ed eth js" and "address_plain eth" and "pipeline_inv js x" and "settlements (pl_store x) = []" and "pl_fates x = []"
    and "honest_node cl (w_contract w) (eventTopic w) hist" and "escrow_history hist"
    and "run_receipts ed eth js cl ticks w c x = (err, w', c', y)"
    and "length (logs_between hist (NextBlock w) (NextBlock w')) \<le> 2"
    and "egress_link js host port net"
  shows "\<exists>s' rs. station_tick net host port arr \<lparr>sn_store = Some (pl_store y), sn_open = True, sn_writes = [], sn_wire = '''', sn_ub = False\<rparr>
      = (int (length rs), \<lparr>sn_store = Some s', sn_open = True, sn_writes = [],
           sn_wire = concat (map (\<lambda>r. ''PACKET_C_TX:'' @ CHR 0x00 # EncodeToString (frame_of r) @ [CHR 0x0A]) rs), sn_ub = False\<rparr>) \<and>
    filter pending (settlements s') = [] \<and> distinct (map record_key rs) \<and>
    record_key ` set rs = log_key eth ` set (logs_between hist (NextBlock w) (NextBlock w')) \<and>
    (\<forall>r \<in> set rs. \<exists>ev seq. untimed ev \<in> event_of eth ` set (logs_between hist (NextBlock w) (NextBlock w')) \<and>
       record_key r = event_key eth ev \<and> frame_of r = built ed (pl_proc x) seq ev)"
proof -
  let ?logs = "logs_between hist (NextBlock w) (NextBlock w')" and ?s = "pl_store y"
  let ?st = "\<lparr>sn_store = Some ?s, sn_open = True, sn_writes = [], sn_wire = '''', sn_ub = False\<rparr>"
  obtain events where rec: "recorded ed eth js events x y" and ev: "map untimed events = map (event_of eth) ?logs"
    using run_receipts_recorded [OF assms(1,3,6-8)] unfolding NextBlock_def by blast
  have keys: "record_key ` set (settlements ?s) = log_key eth ` set ?logs"
    using recorded_keys [OF rec assms(5)] event_keys_of_logs [OF ev] assms(4) by simp
  have drain: "drainable js ?s" and seed: "seed_ok (pl_proc x)"
    using rec assms(3) by (simp_all add: recorded_def pipeline_inv_def)
  note rs = recorded_wire [OF assms(1,2) seed assms(4) rec typed_events [OF assms(1,7) ev]]
  have q: "filter pending (settlements ?s) = settlements ?s" using rs(1) by (simp add: filter_id_conv list_all_iff)
  have w: "wire_store js ?s" using drain rs(1) by (auto simp: wire_store_def list_all_iff)
  have "length (polled (Some ?s)) \<le> 2"
    using key_count [OF drainable_distinct [OF drain] keys] assms(9) wire_page(1) [OF w] q by simp
  then have small: "length (records_json (polled (Some ?s))) \<le> 2048" using page_size(2) [OF wire_page(2) [OF w]] by linarith
  obtain s' where s': "station_tick net host port arr ?st = (int (length (settlements ?s)), \<lparr>sn_store = Some s', sn_open = True, sn_writes = [],
      sn_wire = concat (map (\<lambda>r. receipt_line (frame_of r)) (settlements ?s)), sn_ub = False\<rparr>)" "filter pending (settlements s') = []"
    using station_tick_fits [OF assms(10) w _ _ small, of ?st arr] by (auto simp: q written_all)
  have "untimed ev \<in> event_of eth ` set ?logs" if "ev \<in> set events" for ev
    using arg_cong [OF ev, of set] that unfolding set_map by (metis imageI)
  then show ?thesis
    using s' drainable_distinct [OF drain] keys rs(2) unfolding receipt_line_def
    by (intro exI [of _ s'] exI [of _ "settlements ?s"]) metis
qed

text \<open>Stations in front of a gateway with two receipts, for the witnesses.\<close>

definition demo_station :: "int list \<Rightarrow> station" where
  "demo_station ns = \<lparr>sn_store = Some (demo_backlog 2), sn_open = True, sn_writes = ns, sn_wire = '''', sn_ub = False\<rparr>"

lemma demo_wire_store:
  "wire_store demo_js (demo_backlog 2)" "filter pending (settlements (demo_backlog 2)) = [demo_wire 0, demo_wire 1]"
  "length (records_json (polled (Some (demo_backlog 2)))) \<le> 2048"
proof -
  show w: "wire_store demo_js (demo_backlog 2)"
    using demo_backlog [of 2] demo_wire_receipt by (simp add: wire_store_def list_all_iff)
  show q: "filter pending (settlements (demo_backlog 2)) = [demo_wire 0, demo_wire 1]"
    using demo_backlog_pending [of 2] by (simp add: numeral_2_eq_2 upt_rec)
  show "length (records_json (polled (Some (demo_backlog 2)))) \<le> 2048"
    using page_size(2) [OF wire_page(2) [OF w]] wire_page(1) [OF w] q by simp
qed

lemma demo_frames: "frame_of (demo_wire i) = replicate 112 0"
  by (simp only: frame_of_def demo_wire_def receipt_record.simps DecodeString_EncodeToString outcome.case)

theorem poll_thread_drains_or_stalls_witness:
  "\<exists>s'. egress_poll_listener demo_js demo_net ''127.0.0.1'' 8080 (\<lambda>i. CHR ''?'') [False, True] (demo_station [5]) =
     \<lparr>sn_store = Some s', sn_open = True, sn_writes = [], sn_wire = ''PACKE'' @ receipt_line (replicate 112 0), sn_ub = False\<rparr> \<and>
     filter pending (settlements s') = []"
proof -
  have st: "sn_store (demo_station [5]) = Some (demo_backlog 2)" "sn_open (demo_station [5])" "[False, True] \<noteq> []"
    by (simp_all add: demo_station_def)
  have five: "take 5 (receipt_line (replicate 112 0)) = ''PACKE''" by (simp add: receipt_line_def)
  show ?thesis
    using poll_thread_drains_or_stalls [OF gateway_link.egress_link_axioms demo_wire_store(1) st, of "\<lambda>i. CHR ''?''"] demo_wire_store(3)
    unfolding Let_def demo_wire_store(2) by (simp add: demo_frames demo_station_def five)
qed

theorem failed_writes_lose_receipts_witness:
  "\<exists>s'. station_tick demo_net ''127.0.0.1'' 8080 (\<lambda>i. CHR ''?'') (demo_station [- 1, - 1])
     = (2, (demo_station [])\<lparr>sn_store := Some s'\<rparr>) \<and> filter pending (settlements s') = []"
proof -
  have st: "sn_store (demo_station [- 1, - 1]) = Some (demo_backlog 2)" "list_all (\<lambda>n. n \<le> 0) (sn_writes (demo_station [- 1, - 1]))"
    "length (filter pending (settlements (demo_backlog 2))) \<le> length (sn_writes (demo_station [- 1, - 1]))"
    by (simp_all add: demo_station_def demo_wire_store(2))
  show ?thesis
    using failed_writes_lose_receipts [OF gateway_link.egress_link_axioms demo_wire_store(1) st(1) demo_wire_store(3) st(2,3), of "\<lambda>i. CHR ''?''"]
    unfolding demo_wire_store(2) by (auto simp: demo_station_def)
qed

theorem settlements_reach_the_serial_line_witness:
  "\<exists>err w' c' y s' rs. run_receipts demo_ed demo_eth demo_js demo_node (Suc (Suc (Suc 0))) demo_watcher 0 demo_pipeline = (err, w', c', y) \<and>
     station_tick demo_net ''127.0.0.1'' 8080 (\<lambda>i. CHR ''?'') \<lparr>sn_store = Some (pl_store y), sn_open = True, sn_writes = [], sn_wire = '''', sn_ub = False\<rparr>
       = (int (length rs), \<lparr>sn_store = Some s', sn_open = True, sn_writes = [],
            sn_wire = concat (map (\<lambda>r. ''PACKET_C_TX:'' @ CHR 0x00 # EncodeToString (frame_of r) @ [CHR 0x0A]) rs), sn_ub = False\<rparr>) \<and>
     filter pending (settlements s') = [] \<and>
     record_key ` set rs = {log_key demo_eth (demo_log 1), log_key demo_eth (demo_log 3)}"
proof -
  obtain err w' c' y where run: "run_receipts demo_ed demo_eth demo_js demo_node (Suc (Suc (Suc 0))) demo_watcher 0 demo_pipeline
      = (err, w', c', y)" by (metis surj_pair)
  have cursor: "NextBlock w' = 4" "NextBlock demo_watcher = 0"
    using run demo_Run [of demo_eth "on_event demo_ed demo_eth demo_js" demo_pipeline]
    by (simp_all add: run_receipts_def NextBlock_def demo_watcher_def)
  have logs: "logs_between demo_hist (NextBlock demo_watcher) (NextBlock w') = [demo_log 1, demo_log 3]"
    unfolding cursor by (simp add: logs_between_def demo_hist_def demo_log_def word_less_nat_alt)
  then have two: "length (logs_between demo_hist (NextBlock demo_watcher) (NextBlock w')) \<le> 2" by simp
  have keys: "log_key demo_eth ` set [demo_log 1, demo_log 3] = {log_key demo_eth (demo_log 1), log_key demo_eth (demo_log 3)}" by simp
  have start: "settlements (pl_store demo_pipeline) = []" "pl_fates demo_pipeline = []" by (simp_all add: demo_pipeline_def)
  from settlements_reach_the_serial_line [OF demo_libraries_ok demo_address_plain demo_pipeline_inv start demo_node_honest demo_history run
      two gateway_link.egress_link_axioms, of "\<lambda>i. CHR ''?''", unfolded logs keys]
  show ?thesis
    by (elim exE conjE, intro exI conjI) (rule run, assumption+)
qed

end
