(* ===== verification/Handle_Locks.thy ===== *)
theory Handle_Locks
  imports Processor
begin

text \<open>
  Calls of \<^verbatim>\<open>Processor.Handle\<close> with their two mutexes: \<^verbatim>\<open>p.mu\<close> around the sequence counter and \<^verbatim>\<open>s.mu\<close> of the store,
  which \<^verbatim>\<open>Has\<close> and \<^verbatim>\<open>Append\<close> take and release.  Every \<^verbatim>\<open>Lock\<close>, \<^verbatim>\<open>Unlock\<close> and access to shared state is a step of its
  own, and the steps of the calls interleave in any order.  The theory shows that the locks protect what
  they are there for and never block for good, and that the atomic sections of \<^verbatim>\<open>Processor\<close> are what such a run
  amounts to.
\<close>

section \<open>The program of a call\<close>

text \<open>Where a call stands: the instruction it runs next, with the local variables it still needs.\<close>

datatype lock_pc =
    HasLock
  | HasRead
  | HasUnlock bool
  | SeqLock
  | SeqRead
  | SeqWrite u16
  | SeqUnlock u16
  | Building u16
  | AppendLock "byte list"
  | AppendBody "byte list"
  | AppendUnlock "(processor_error, unit) outcome"
  | Done "(processor_error, unit) outcome"

record locked_call =
  lc_event :: settlement_event
  lc_pc :: lock_pc

text \<open>The shared state: the processor, the store, the calls that hold their mutexes, and the numbers taken so far.\<close>

record locked =
  lk_proc :: processor
  lk_store :: store
  lk_pmu :: "nat option"
  lk_smu :: "nat option"
  lk_calls :: "locked_call list"
  lk_taken :: "u16 list"

definition goto :: "nat \<Rightarrow> lock_pc \<Rightarrow> locked \<Rightarrow> locked" where
  "goto i pc h = h\<lparr>lk_calls := (lk_calls h)[i := (lk_calls h ! i)\<lparr>lc_pc := pc\<rparr>]\<rparr>"

text \<open>One instruction of call \<open>i\<close>; \<open>None\<close> while it waits for a mutex, or when it has returned.\<close>

definition instruction ::
    "ed25519_lib \<Rightarrow> eth_lib \<Rightarrow> json_codec \<Rightarrow> io_fate \<Rightarrow> nat \<Rightarrow> locked \<Rightarrow> locked option" where
  "instruction ed eth js fate i h =
     (let ev = lc_event (lk_calls h ! i) in
      case lc_pc (lk_calls h ! i) of
        HasLock \<Rightarrow> if lk_smu h = None then Some (goto i HasRead (h\<lparr>lk_smu := Some i\<rparr>)) else None
      | HasRead \<Rightarrow> Some (goto i (HasUnlock (Has (payment_id ev) (tx_hash_hex eth ev) (lk_store h))) h)
      | HasUnlock known \<Rightarrow> Some (goto i (if known then Done (Ok ()) else SeqLock) (h\<lparr>lk_smu := None\<rparr>))
      | SeqLock \<Rightarrow> if lk_pmu h = None then Some (goto i SeqRead (h\<lparr>lk_pmu := Some i\<rparr>)) else None
      | SeqRead \<Rightarrow> Some (goto i (SeqWrite (seqCount (lk_proc h))) h)
      | SeqWrite seq \<Rightarrow> Some (goto i (SeqUnlock seq)
          (h\<lparr>lk_proc := (lk_proc h)\<lparr>seqCount := (seqCount (lk_proc h) + 1) AND 0x3FFF\<rparr>, lk_taken := lk_taken h @ [seq]\<rparr>))
      | SeqUnlock seq \<Rightarrow> Some (goto i (Building seq) (h\<lparr>lk_pmu := None\<rparr>))
      | Building seq \<Rightarrow> Some (goto i (case Build ed (receipt_inputs (lk_proc h) seq ev) of
            Err e \<Rightarrow> Done (Err (BuildPacketC e)) | Panic \<Rightarrow> Done Panic | Ok frame \<Rightarrow> AppendLock frame) h)
      | AppendLock frame \<Rightarrow> if lk_smu h = None then Some (goto i (AppendBody frame) (h\<lparr>lk_smu := Some i\<rparr>)) else None
      | AppendBody frame \<Rightarrow> (case append_receipt js fate (receipt_for eth ev frame) (lk_store h) of
            (res, s') \<Rightarrow> Some (goto i (AppendUnlock res) (h\<lparr>lk_store := s'\<rparr>)))
      | AppendUnlock res \<Rightarrow> Some (goto i (Done res) (h\<lparr>lk_smu := None\<rparr>))
      | Done res \<Rightarrow> None)"

inductive lock_step :: "ed25519_lib \<Rightarrow> eth_lib \<Rightarrow> json_codec \<Rightarrow> locked \<Rightarrow> locked \<Rightarrow> bool"
  for ed eth js where
  run: "i < length (lk_calls h) \<Longrightarrow> instruction ed eth js fate i h = Some h' \<Longrightarrow> lock_step ed eth js h h'"

text \<open>Runs, with the number of their steps.\<close>

inductive lock_run :: "ed25519_lib \<Rightarrow> eth_lib \<Rightarrow> json_codec \<Rightarrow> nat \<Rightarrow> locked \<Rightarrow> locked \<Rightarrow> bool"
  for ed eth js where
  refl: "lock_run ed eth js 0 h h"
| step: "lock_run ed eth js n h h' \<Longrightarrow> lock_step ed eth js h' h'' \<Longrightarrow> lock_run ed eth js (Suc n) h h''"

definition start_locked :: "processor \<Rightarrow> store \<Rightarrow> settlement_event list \<Rightarrow> locked" where
  "start_locked p s events = \<lparr>lk_proc = p, lk_store = s, lk_pmu = None, lk_smu = None,
     lk_calls = map (\<lambda>ev. \<lparr>lc_event = ev, lc_pc = HasLock\<rparr>) events, lk_taken = []\<rparr>"

definition returned :: "locked_call \<Rightarrow> bool" where
  "returned c \<longleftrightarrow> (\<exists>res. lc_pc c = Done res)"

section \<open>Who holds a mutex\<close>

fun in_store :: "lock_pc \<Rightarrow> bool" where
  "in_store HasRead = True"
| "in_store (HasUnlock known) = True"
| "in_store (AppendBody frame) = True"
| "in_store (AppendUnlock res) = True"
| "in_store _ = False"

fun in_counter :: "lock_pc \<Rightarrow> bool" where
  "in_counter SeqRead = True"
| "in_counter (SeqWrite seq) = True"
| "in_counter (SeqUnlock seq) = True"
| "in_counter _ = False"

definition pc_at :: "locked \<Rightarrow> nat \<Rightarrow> lock_pc" where
  "pc_at h i = lc_pc (lk_calls h ! i)"

text \<open>The call in a critical section is the holder of its mutex; a number read under \<^verbatim>\<open>p.mu\<close> is still the counter.\<close>

definition held :: "nat option \<Rightarrow> (lock_pc \<Rightarrow> bool) \<Rightarrow> locked \<Rightarrow> bool" where
  "held m critical h \<longleftrightarrow> (\<forall>i. m = Some i \<longleftrightarrow> i < length (lk_calls h) \<and> critical (pc_at h i))"

definition lock_inv :: "locked \<Rightarrow> bool" where
  "lock_inv h \<longleftrightarrow> held (lk_smu h) in_store h \<and> held (lk_pmu h) in_counter h \<and>
     (\<forall>i < length (lk_calls h). \<forall>seq. pc_at h i = SeqWrite seq \<longrightarrow> seq = seqCount (lk_proc h))"

lemma goto_fields [simp]:
  "lk_proc (goto i pc h) = lk_proc h" "lk_store (goto i pc h) = lk_store h" "lk_pmu (goto i pc h) = lk_pmu h"
  "lk_smu (goto i pc h) = lk_smu h" "lk_taken (goto i pc h) = lk_taken h" "length (lk_calls (goto i pc h)) = length (lk_calls h)"
  by (simp_all add: goto_def)

lemma pc_at_goto: "i < length (lk_calls h) \<Longrightarrow> pc_at (goto i pc h) j = (if j = i then pc else pc_at h j)"
  by (simp add: pc_at_def goto_def nth_list_update)

lemma pc_at_calls: "lk_calls k = lk_calls h \<Longrightarrow> pc_at k i = pc_at h i"
  by (simp add: pc_at_def)

lemma lock_inv_start: "lock_inv (start_locked p s events)"
  by (auto simp: lock_inv_def held_def start_locked_def pc_at_def)

text \<open>A mutex after a step of call \<open>i\<close>: taken on entering its section, which needs it free, and given back on leaving.\<close>

lemma held_goto:
  assumes "held m critical h" and "i < length (lk_calls h)" and "lk_calls k = lk_calls h"
    and "critical pc \<Longrightarrow> \<not> critical (pc_at h i) \<Longrightarrow> m = None"
  shows "held (if critical pc then Some i else if critical (pc_at h i) then None else m) critical (goto i pc k)"
proof -
  have len: "i < length (lk_calls k)" using assms(2,3) by simp
  note H = assms(1) [unfolded held_def, rule_format]
  have other: "m \<noteq> Some j" if "critical pc \<or> critical (pc_at h i)" "j \<noteq> i" for j
  proof (cases "critical (pc_at h i)")
    case True
    then have "m = Some i" using H [of i] assms(2) by simp
    with that(2) show ?thesis by simp
  qed (use that(1) assms(4) in simp)
  have "(if critical pc then Some i else if critical (pc_at h i) then None else m) = Some j
      \<longleftrightarrow> j < length (lk_calls h) \<and> critical (if j = i then pc else pc_at h j)" for j
  proof (cases "j = i")
    case True
    then show ?thesis using H [of i] assms(2) by simp
  next
    case False
    then show ?thesis using H [of j] other [of j] by simp
  qed
  then show ?thesis
    by (simp add: held_def pc_at_goto [OF len] pc_at_calls [OF assms(3)] assms(3))
qed

lemma lock_inv_goto:
  assumes "lock_inv h" and "i < length (lk_calls h)" and "lk_calls k = lk_calls h"
    and "in_store pc \<Longrightarrow> \<not> in_store (pc_at h i) \<Longrightarrow> lk_smu h = None"
    and "in_counter pc \<Longrightarrow> \<not> in_counter (pc_at h i) \<Longrightarrow> lk_pmu h = None"
    and "lk_smu k = (if in_store pc then Some i else if in_store (pc_at h i) then None else lk_smu h)"
    and "lk_pmu k = (if in_counter pc then Some i else if in_counter (pc_at h i) then None else lk_pmu h)"
    and "\<And>seq. pc = SeqWrite seq \<Longrightarrow> seq = seqCount (lk_proc k)"
    and "in_counter (pc_at h i) \<or> lk_proc k = lk_proc h"
  shows "lock_inv (goto i pc k)"
proof -
  note inv = assms(1) [unfolded lock_inv_def]
  have len: "i < length (lk_calls k)" using assms(2,3) by simp
  have "held (lk_smu (goto i pc k)) in_store (goto i pc k)"
    using held_goto [of "lk_smu h" in_store h i k pc] inv assms(2,3,4,6) by simp
  moreover have "held (lk_pmu (goto i pc k)) in_counter (goto i pc k)"
    using held_goto [of "lk_pmu h" in_counter h i k pc] inv assms(2,3,5,7) by simp
  moreover have "seq = seqCount (lk_proc k)" if "j < length (lk_calls h)" "pc_at (goto i pc k) j = SeqWrite seq" for j seq
  proof (cases "j = i")
    case False
    then have j: "pc_at h j = SeqWrite seq" using that(2) by (simp add: pc_at_goto [OF len] pc_at_calls [OF assms(3)])
    then have "lk_pmu h = Some j" using inv that(1) by (simp add: held_def)
    then have "\<not> in_counter (pc_at h i)" using inv assms(2) False by (metis held_def option.inject)
    with assms(9) inv j that(1) show ?thesis by simp
  qed (use that(2) assms(8) in \<open>simp add: pc_at_goto [OF len]\<close>)
  ultimately show ?thesis using assms(3) by (simp add: lock_inv_def)
qed

lemma lock_inv_step:
  assumes "lock_inv h" and "lock_step ed eth js h h'"
  shows "lock_inv h'"
  using assms(2)
proof cases
  case (run i fate)
  note go = lock_inv_goto [OF assms(1) run(1)]
  have pc: "lc_pc (lk_calls h ! i) = pc_at h i" by (simp add: pc_at_def)
  have smu: "in_store (pc_at h i) \<Longrightarrow> lk_smu h = Some i" and pmu: "in_counter (pc_at h i) \<Longrightarrow> lk_pmu h = Some i"
    using assms(1) run(1) by (simp_all add: lock_inv_def held_def)
  have h': "instruction ed eth js fate i h = Some h'" by (rule run(2))
  show ?thesis
  proof (cases "pc_at h i")
    case (Building seq)
    let ?pc = "case Build ed (receipt_inputs (lk_proc h) seq (lc_event (lk_calls h ! i))) of
      Err e \<Rightarrow> Done (Err (BuildPacketC e)) | Panic \<Rightarrow> Done Panic | Ok frame \<Rightarrow> AppendLock frame"
    have "\<not> in_store ?pc" "\<not> in_counter ?pc" "\<And>seq. ?pc \<noteq> SeqWrite seq" by (simp_all split: outcome.split)
    moreover have "h' = goto i ?pc h" using h' Building by (simp add: instruction_def pc Let_def)
    ultimately show ?thesis using Building by (simp only:, intro go) simp_all
  next
    case (AppendBody frame)
    with smu h' show ?thesis
      by (clarsimp simp: instruction_def pc Let_def split: prod.splits, intro go) simp_all
  next
    case (HasUnlock known)
    with smu h' show ?thesis
      by (cases known) (clarsimp simp: instruction_def pc Let_def, intro go; simp)+
  next
    case (Done res)
    with h' show ?thesis by (simp add: instruction_def pc Let_def)
  qed (insert h' smu pmu, (clarsimp simp: instruction_def pc Let_def split: if_splits, intro go; simp)+)
qed

section \<open>No call waits for ever\<close>

text \<open>A call that holds a mutex can run; when no mutex is held, every call that has not returned can.\<close>

lemma holder_runs:
  "in_store (pc_at h i) \<or> in_counter (pc_at h i) \<Longrightarrow> \<exists>h'. instruction ed eth js Stored i h = Some h'"
  unfolding pc_at_def by (cases "lc_pc (lk_calls h ! i)") (auto simp: instruction_def Let_def split: prod.split)

lemma free_runs:
  "lk_smu h = None \<Longrightarrow> lk_pmu h = None \<Longrightarrow> \<not> returned (lk_calls h ! i) \<Longrightarrow> \<exists>h'. instruction ed eth js Stored i h = Some h'"
  by (cases "lc_pc (lk_calls h ! i)") (auto simp: instruction_def Let_def returned_def split: prod.split)

lemma lock_step_exists:
  assumes "lock_inv h" and "c \<in> set (lk_calls h)" and "\<not> returned c"
  shows "\<exists>h'. lock_step ed eth js h h'"
proof -
  obtain i where i: "i < length (lk_calls h)" "c = lk_calls h ! i" using assms(2) by (metis in_set_conv_nth)
  have "\<exists>j < length (lk_calls h). \<exists>h'. instruction ed eth js Stored j h = Some h'"
  proof (cases "lk_smu h = None \<and> lk_pmu h = None")
    case True
    then show ?thesis using free_runs [of h i] i assms(3) by blast
  next
    case False
    then obtain j where "lk_smu h = Some j \<or> lk_pmu h = Some j" by auto
    then have "j < length (lk_calls h)" "in_store (pc_at h j) \<or> in_counter (pc_at h j)"
      using assms(1) by (auto simp: lock_inv_def held_def)
    then show ?thesis using holder_runs by blast
  qed
  then show ?thesis using lock_step.run by blast
qed

text \<open>The instructions a call has before it, for the length of runs.\<close>

fun ahead :: "lock_pc \<Rightarrow> nat" where
  "ahead HasLock = 11"
| "ahead HasRead = 10"
| "ahead (HasUnlock known) = 9"
| "ahead SeqLock = 8"
| "ahead SeqRead = 7"
| "ahead (SeqWrite seq) = 6"
| "ahead (SeqUnlock seq) = 5"
| "ahead (Building seq) = 4"
| "ahead (AppendLock frame) = 3"
| "ahead (AppendBody frame) = 2"
| "ahead (AppendUnlock res) = 1"
| "ahead (Done res) = 0"

definition all_ahead :: "locked \<Rightarrow> nat" where
  "all_ahead h = sum_list (map (\<lambda>c. ahead (lc_pc c)) (lk_calls h))"

lemma all_ahead_goto:
  assumes "i < length (lk_calls h)" and "lk_calls k = lk_calls h" and "ahead pc < ahead (pc_at h i)"
  shows "all_ahead (goto i pc k) < all_ahead h"
proof -
  let ?xs = "map (\<lambda>c. ahead (lc_pc c)) (lk_calls h)"
  have at: "?xs ! i = ahead (pc_at h i)" using assms(1) by (simp add: pc_at_def)
  have "all_ahead (goto i pc k) = sum_list (?xs[i := ahead pc])"
    by (simp add: all_ahead_def goto_def map_update assms(2))
  also have "\<dots> = sum_list ?xs + ahead pc - ahead (pc_at h i)"
    using assms(1) at by (simp add: sum_list_update)
  finally have "all_ahead (goto i pc k) = all_ahead h + ahead pc - ahead (pc_at h i)" by (simp add: all_ahead_def)
  moreover have "ahead (pc_at h i) \<le> all_ahead h"
    unfolding all_ahead_def at [symmetric] using assms(1) by (intro member_le_sum_list) simp_all
  ultimately show ?thesis using assms(3) by linarith
qed

lemma lock_step_ahead:
  assumes "lock_step ed eth js h h'"
  shows "all_ahead h' < all_ahead h"
  using assms
proof cases
  case (run i fate)
  have pc: "lc_pc (lk_calls h ! i) = pc_at h i" by (simp add: pc_at_def)
  note h' = run(2) [unfolded instruction_def Let_def pc]
  show ?thesis
  proof (cases "pc_at h i")
    case (Building seq)
    let ?pc = "case Build ed (receipt_inputs (lk_proc h) seq (lc_event (lk_calls h ! i))) of
      Err e \<Rightarrow> Done (Err (BuildPacketC e)) | Panic \<Rightarrow> Done Panic | Ok frame \<Rightarrow> AppendLock frame"
    have "ahead ?pc < ahead (pc_at h i)" unfolding Building by (simp split: outcome.split)
    from all_ahead_goto [OF run(1) HOL.refl this] show ?thesis using h' by (simp only: Building lock_pc.case option.inject)
  next
    case (HasUnlock known)
    with h' show ?thesis by (cases known) (auto intro!: all_ahead_goto [OF run(1)])
  next
    case (AppendBody frame)
    with h' show ?thesis by (auto intro!: all_ahead_goto [OF run(1)] split: prod.splits)
  qed (insert h', auto intro!: all_ahead_goto [OF run(1)] split: if_splits)
qed

section \<open>The atomic sections\<close>

text \<open>
  A call read as one of the atomic model: the check happens when the store is read, the number is taken
  when the counter is written, the frame is built from then on, and the receipt appears with the body of
  \<^verbatim>\<open>Append\<close>.
\<close>

fun abs_pc :: "ed25519_lib \<Rightarrow> processor \<Rightarrow> settlement_event \<Rightarrow> lock_pc \<Rightarrow> handle_pc" where
  "abs_pc ed p ev HasLock = Checking"
| "abs_pc ed p ev HasRead = Checking"
| "abs_pc ed p ev (HasUnlock known) = (if known then Returned (Ok ()) else Numbering)"
| "abs_pc ed p ev SeqLock = Numbering"
| "abs_pc ed p ev SeqRead = Numbering"
| "abs_pc ed p ev (SeqWrite seq) = Numbering"
| "abs_pc ed p ev (SeqUnlock seq) = (case Build ed (receipt_inputs p seq ev) of
     Err e \<Rightarrow> Returned (Err (BuildPacketC e)) | Panic \<Rightarrow> Returned Panic | Ok frame \<Rightarrow> Appending frame)"
| "abs_pc ed p ev (Building seq) = (case Build ed (receipt_inputs p seq ev) of
     Err e \<Rightarrow> Returned (Err (BuildPacketC e)) | Panic \<Rightarrow> Returned Panic | Ok frame \<Rightarrow> Appending frame)"
| "abs_pc ed p ev (AppendLock frame) = Appending frame"
| "abs_pc ed p ev (AppendBody frame) = Appending frame"
| "abs_pc ed p ev (AppendUnlock res) = Returned res"
| "abs_pc ed p ev (Done res) = Returned res"

definition atomic :: "ed25519_lib \<Rightarrow> locked \<Rightarrow> handlers" where
  "atomic ed h = \<lparr>h_proc = lk_proc h, h_store = lk_store h,
     h_calls = map (\<lambda>c. \<lparr>c_event = lc_event c, c_pc = abs_pc ed (lk_proc h) (lc_event c) (lc_pc c)\<rparr>) (lk_calls h),
     h_taken = lk_taken h\<rparr>"

lemma receipt_inputs_count [simp]: "receipt_inputs (p\<lparr>seqCount := q\<rparr>) seq ev = receipt_inputs p seq ev"
  by (simp add: receipt_inputs_def)

lemma abs_pc_count [simp]: "abs_pc ed (p\<lparr>seqCount := q\<rparr>) ev pc = abs_pc ed p ev pc"
  by (cases pc) simp_all

lemma atomic_goto:
  "i < length (lk_calls h) \<Longrightarrow>
     atomic ed (goto i pc h) = set_pc i (abs_pc ed (lk_proc h) (lc_event (lk_calls h ! i)) pc) (atomic ed h)"
  by (simp add: atomic_def goto_def set_pc_def map_update)

lemma atomic_fields [simp]:
  "atomic ed (h\<lparr>lk_smu := m\<rparr>) = atomic ed h" "atomic ed (h\<lparr>lk_pmu := m\<rparr>) = atomic ed h"
  "atomic ed (h\<lparr>lk_store := s\<rparr>) = (atomic ed h)\<lparr>h_store := s\<rparr>"
  "atomic ed (h\<lparr>lk_proc := (lk_proc h)\<lparr>seqCount := q\<rparr>, lk_taken := t\<rparr>) = (atomic ed h)\<lparr>h_proc := (lk_proc h)\<lparr>seqCount := q\<rparr>, h_taken := t\<rparr>"
  by (simp_all add: atomic_def)

lemma atomic_call:
  assumes "i < length (lk_calls h)"
  shows "i < length (h_calls (atomic ed h))" "c_event (h_calls (atomic ed h) ! i) = lc_event (lk_calls h ! i)"
    "c_pc (h_calls (atomic ed h) ! i) = abs_pc ed (lk_proc h) (lc_event (lk_calls h ! i)) (pc_at h i)"
  using assms by (simp_all add: atomic_def pc_at_def)

lemma set_pc_same: "i < length (h_calls h) \<Longrightarrow> c_pc (h_calls h ! i) = pc \<Longrightarrow> set_pc i pc h = h"
  by (cases h, cases "h_calls h ! i") (simp add: set_pc_def list_update_same_conv)

text \<open>The three steps that are sections of the atomic model.\<close>

lemma atomic_check:
  assumes "i < length (lk_calls h)" and "pc_at h i = HasRead" and "instruction ed eth js fate i h = Some h'"
  shows "handler_step ed eth js (atomic ed h) (atomic ed h')"
proof -
  let ?ev = "lc_event (lk_calls h ! i)" and ?a = "atomic ed h"
  note call = atomic_call [OF assms(1), of ed]
  have pc: "c_pc (h_calls ?a ! i) = Checking" using call(3) assms(2) by simp
  have "atomic ed h' = set_pc i (if Has (payment_id ?ev) (tx_hash_hex eth ?ev) (lk_store h) then Returned (Ok ()) else Numbering) ?a"
    using assms by (auto simp: instruction_def Let_def pc_at_def atomic_goto)
  moreover have "h_store ?a = lk_store h" by (simp add: atomic_def)
  ultimately show ?thesis
    using handler_step.known [OF call(1) pc call(2) [symmetric], of eth ed js] handler_step.unknown [OF call(1) pc call(2) [symmetric], of eth ed js]
    by (cases "Has (payment_id ?ev) (tx_hash_hex eth ?ev) (lk_store h)") simp_all
qed

text \<open>Here the mutex matters: the number that was read is still the counter's value when it is written.\<close>

lemma atomic_number:
  assumes "lock_inv h" and "i < length (lk_calls h)" and "pc_at h i = SeqWrite seq" and "instruction ed eth js fate i h = Some h'"
  shows "handler_step ed eth js (atomic ed h) (atomic ed h')"
proof -
  let ?ev = "lc_event (lk_calls h ! i)" and ?a = "atomic ed h"
  let ?p = "(lk_proc h)\<lparr>seqCount := (seqCount (lk_proc h) + 1) AND 0x3FFF\<rparr>"
  note call = atomic_call [OF assms(2), of ed]
  have pc: "c_pc (h_calls ?a ! i) = Numbering" using call(3) assms(3) by simp
  have "seq = seqCount (lk_proc h)" using assms(1-3) by (simp add: lock_inv_def)
  then have seq: "take_seq (h_proc ?a) = (seq, ?p)" by (simp add: take_seq_def atomic_def)
  have fields: "h_proc ?a = lk_proc h" "h_taken ?a = lk_taken h" by (simp_all add: atomic_def)
  have "atomic ed h' = set_pc i (abs_pc ed (lk_proc h) ?ev (SeqUnlock seq)) (?a\<lparr>h_proc := ?p, h_taken := h_taken ?a @ [seq]\<rparr>)"
    using assms(2-4) by (auto simp: instruction_def Let_def pc_at_def atomic_goto fields)
  with handler_step.number [OF call(1) pc call(2) [symmetric] seq HOL.refl, of ed eth js] show ?thesis
    by (simp add: fields)
qed

lemma atomic_append:
  assumes "i < length (lk_calls h)" and "pc_at h i = AppendBody frame" and "instruction ed eth js fate i h = Some h'"
  shows "handler_step ed eth js (atomic ed h) (atomic ed h')"
proof -
  let ?ev = "lc_event (lk_calls h ! i)" and ?a = "atomic ed h"
  note call = atomic_call [OF assms(1), of ed]
  obtain res s' where app: "append_receipt js fate (receipt_for eth ?ev frame) (lk_store h) = (res, s')" by (metis surj_pair)
  have pc: "c_pc (h_calls ?a ! i) = Appending frame" using call(3) assms(2) by simp
  have "append_receipt js fate (receipt_for eth ?ev frame) (h_store ?a) = (res, s')" using app by (simp add: atomic_def)
  moreover have "atomic ed h' = set_pc i (Returned res) (?a\<lparr>h_store := s'\<rparr>)"
    using assms app by (auto simp: instruction_def Let_def pc_at_def atomic_goto)
  ultimately show ?thesis using handler_step.append [OF call(1) pc call(2) [symmetric]] by simp
qed

text \<open>The other steps are invisible there.\<close>

lemma lock_step_atomic:
  assumes "lock_inv h" and "lock_step ed eth js h h'"
  shows "atomic ed h' = atomic ed h \<or> handler_step ed eth js (atomic ed h) (atomic ed h')"
  using assms(2)
proof cases
  case (run i fate)
  let ?ev = "lc_event (lk_calls h ! i)" and ?a = "atomic ed h"
  have pc: "lc_pc (lk_calls h ! i) = pc_at h i" by (simp add: pc_at_def)
  note h' = run(2) [unfolded instruction_def Let_def pc]
  note call = atomic_call [OF run(1), of ed]
  have stay: "atomic ed (goto i q k) = ?a"
    if "lk_calls k = lk_calls h" "atomic ed k = ?a" "lk_proc k = lk_proc h" "abs_pc ed (lk_proc h) ?ev q = abs_pc ed (lk_proc h) ?ev (pc_at h i)" for q k
    using that run(1) set_pc_same [OF call(1,3)] by (simp add: atomic_goto)
  show ?thesis
  proof (cases "pc_at h i")
    case (Building seq)
    let ?pc = "case Build ed (receipt_inputs (lk_proc h) seq ?ev) of
      Err e \<Rightarrow> Done (Err (BuildPacketC e)) | Panic \<Rightarrow> Done Panic | Ok frame \<Rightarrow> AppendLock frame"
    have "atomic ed (goto i ?pc h) = ?a" unfolding Building by (intro stay) (simp_all add: Building split: outcome.split)
    moreover have "h' = goto i ?pc h" using h' Building by simp
    ultimately show ?thesis by simp
  next
    case (HasUnlock known)
    with h' stay [of "h\<lparr>lk_smu := None\<rparr>"] show ?thesis by (cases known) auto
  next
    case HasRead
    from atomic_check [OF run(1) this run(2)] show ?thesis ..
  next
    case (SeqWrite seq)
    from atomic_number [OF assms(1) run(1) this run(2)] show ?thesis ..
  next
    case (AppendBody frame)
    from atomic_append [OF run(1) this run(2)] show ?thesis ..
  qed (insert h', auto intro!: stay split: if_splits)
qed

lemma lock_run_facts:
  assumes "lock_run ed eth js n h h'" and "lock_inv h"
  shows "lock_inv h'" "n + all_ahead h' \<le> all_ahead h" "handler_run ed eth js (atomic ed h) (atomic ed h')"
proof -
  have "lock_inv h' \<and> n + all_ahead h' \<le> all_ahead h \<and> handler_run ed eth js (atomic ed h) (atomic ed h')"
    using assms
  proof (induction rule: lock_run.induct)
    case (refl h)
    then show ?case using handler_run.refl by simp
  next
    case (step n h h1 h2)
    have h1: "lock_inv h1" "n + all_ahead h1 \<le> all_ahead h" "handler_run ed eth js (atomic ed h) (atomic ed h1)"
      using step.IH step.prems by simp_all
    have "handler_run ed eth js (atomic ed h) (atomic ed h2)"
      using lock_step_atomic [OF h1(1) step.hyps(2)] h1(3) handler_run.step by metis
    moreover have "lock_inv h2" by (rule lock_inv_step [OF h1(1) step.hyps(2)])
    moreover have "Suc n + all_ahead h2 \<le> all_ahead h" using lock_step_ahead [OF step.hyps(2)] h1(2) by linarith
    ultimately show ?case by simp
  qed
  then show "lock_inv h'" "n + all_ahead h' \<le> all_ahead h" "handler_run ed eth js (atomic ed h) (atomic ed h')" by simp_all
qed

lemma atomic_start: "atomic ed (start_locked p s events) = start_handlers p s events"
  by (simp add: atomic_def start_locked_def start_handlers_def o_def)

lemma all_ahead_start: "all_ahead (start_locked p s events) = 11 * length events"
  by (simp add: all_ahead_def start_locked_def o_def sum_list_triv)

text \<open>Every run can be continued until all calls have returned.\<close>

lemma lock_run_trans:
  "lock_run ed eth js m h' h'' \<Longrightarrow> lock_run ed eth js n h h' \<Longrightarrow> lock_run ed eth js (n + m) h h''"
  by (induction rule: lock_run.induct) (auto intro: lock_run.step)

lemma lock_run_finishes:
  "lock_inv h \<Longrightarrow> \<exists>n h'. lock_run ed eth js n h h' \<and> (\<forall>c \<in> set (lk_calls h'). returned c)"
proof (induction "all_ahead h" arbitrary: h rule: less_induct)
  case less
  show ?case
  proof (cases "\<forall>c \<in> set (lk_calls h). returned c")
    case True
    then show ?thesis using lock_run.refl by blast
  next
    case False
    then obtain h1 where h1: "lock_step ed eth js h h1" using lock_step_exists [OF less.prems] by blast
    obtain n h' where "lock_run ed eth js n h1 h'" "\<forall>c \<in> set (lk_calls h'). returned c"
      using less.hyps [OF lock_step_ahead [OF h1] lock_inv_step [OF less.prems h1]] by blast
    then show ?thesis using lock_run_trans lock_run.step [OF lock_run.refl h1] by blast
  qed
qed

section \<open>Properties\<close>

text \<open>
  C36.  The mutexes of \<^verbatim>\<open>Handle\<close>.  In every state that any interleaving of the instructions of concurrent
  calls reaches: at most one call is between taking and releasing \<^verbatim>\<open>s.mu\<close>, and at most one between taking and
  releasing \<^verbatim>\<open>p.mu\<close>; as long as a call has not returned some instruction can run, so there is no deadlock; at most
  eleven instructions per call have run; when all calls have returned both mutexes are free; and
  the state is one that the atomic sections reach, so that what is shown of those holds of it.
\<close>

theorem handle_mutexes_are_sound:
  assumes "lock_run ed eth js n (start_locked p s events) h"
  shows "(\<forall>i < length (lk_calls h). \<forall>j < length (lk_calls h).
       (in_store (pc_at h i) \<and> in_store (pc_at h j) \<longrightarrow> i = j) \<and> (in_counter (pc_at h i) \<and> in_counter (pc_at h j) \<longrightarrow> i = j)) \<and>
    ((\<exists>c \<in> set (lk_calls h). \<not> returned c) \<longrightarrow> (\<exists>h'. lock_step ed eth js h h')) \<and>
    n \<le> 11 * length events \<and>
    ((\<forall>c \<in> set (lk_calls h). returned c) \<longrightarrow> lk_smu h = None \<and> lk_pmu h = None) \<and>
    handler_run ed eth js (start_handlers p s events) (atomic ed h)"
proof -
  note run = lock_run_facts [OF assms lock_inv_start, unfolded atomic_start all_ahead_start]
  note inv = run(1) [unfolded lock_inv_def]
  have "i = j" if "held m critical h" "i < length (lk_calls h)" "j < length (lk_calls h)" "critical (pc_at h i)" "critical (pc_at h j)" for m critical i j
    using that unfolding held_def by (metis option.inject)
  moreover have "m = None" if "held m critical h" "\<forall>c \<in> set (lk_calls h). returned c" "\<And>res. \<not> critical (Done res)" for m critical
  proof (rule ccontr)
    assume "m \<noteq> None"
    then obtain i where "m = Some i" by blast
    then have i: "i < length (lk_calls h)" "critical (pc_at h i)" using spec [OF that(1) [unfolded held_def], of i] by simp_all
    then have "returned (lk_calls h ! i)" using that(2) by simp
    with i(2) that(3) show False by (auto simp: returned_def pc_at_def)
  qed
  ultimately show ?thesis
    using inv run(2,3) lock_step_exists [OF run(1)] by (intro conjI) (metis, blast, simp, metis in_store.simps in_counter.simps, simp)
qed

theorem handle_mutexes_are_sound_witness:
  "\<exists>n h. lock_run demo_ed demo_eth demo_js n (start_locked demo_processor (empty_store ''f'') [demo_event, demo_event]) h \<and>
     n \<le> 22 \<and> (\<forall>c \<in> set (lk_calls h). returned c) \<and> lk_smu h = None \<and> lk_pmu h = None \<and>
     handler_run demo_ed demo_eth demo_js (start_handlers demo_processor (empty_store ''f'') [demo_event, demo_event]) (atomic demo_ed h)"
proof -
  obtain n h where h: "lock_run demo_ed demo_eth demo_js n (start_locked demo_processor (empty_store ''f'') [demo_event, demo_event]) h"
    "\<forall>c \<in> set (lk_calls h). returned c"
    using lock_run_finishes [OF lock_inv_start] by blast
  with handle_mutexes_are_sound [OF h(1)] show ?thesis by (intro exI [of _ n] exI [of _ h]) simp
qed

end
