(* ===== verification/Spec2Isabelle.thy ===== *)
theory Spec2Isabelle
  imports Station_Drain Handle_Locks
begin

text \<open>
  \<^bold>\<open>The VOID gateway.\<close>  A Go server between satellites, an Ethereum escrow contract and a ground-station
  bouncer.  Radio frames arrive at the ingest route, are parsed and checked, and a signed payment
  (PacketB) becomes a settlement intent; intents are submitted to the contract in batches; the
  contract's events are polled, each is answered with a signed receipt frame (PacketC) that is kept in
  an append-only file; the bouncer fetches pending receipts and acknowledges what it has transmitted.
  The development models the whole Go program under \<^verbatim>\<open>src/gateway\<close> (without its tests), the generator of
  its wire vectors, the escrow contract and, as the gateway's counterpart, the C++ ground station, in
  the order in which the code builds on itself.

  \<^bold>\<open>Reading guide: theories, sources, what is shown.\<close>

  \<^item> \<^verbatim>\<open>Void_Prelude\<close>: Go integers as words, the outcome of a call (\<^verbatim>\<open>Ok\<close>, a returned \<^verbatim>\<open>Err\<close>, a run-time
    \<^verbatim>\<open>Panic\<close>), slices with Go's bounds rules, the codecs of \<^verbatim>\<open>encoding/binary\<close> with their round trips.
    \<^verbatim>\<open>Go_Strings\<close>: hexadecimal and decimal text.
  \<^item> \<^verbatim>\<open>Crc32\<close> (\<^verbatim>\<open>void_protocol/crc.go\<close>): \<^verbatim>\<open>ValidateFrameCRC32\<close>; the table-driven CRC-32 is the bitwise
    register, and a change confined to four consecutive bytes of the covered data and the CRC field is rejected.  \<^verbatim>\<open>Frame_Constants\<close>: \<^verbatim>\<open>constants.go\<close>.
  \<^item> \<^verbatim>\<open>Kaitai_Stream\<close>, \<^verbatim>\<open>Ccsds_Primary_Header\<close>, \<^verbatim>\<open>Snlp_Header\<close>, \<^verbatim>\<open>Tig_Common_Types\<close>, \<^verbatim>\<open>Packet_Bodies\<close>,
    \<^verbatim>\<open>Void_Protocol\<close> (the files of the same names under \<^verbatim>\<open>void_protocol/protocol\<close>): the generated parser.
    The kaitai runtime is third-party code; it is the parameter of the locale \<^verbatim>\<open>kaitai_stream\<close>, whose
    laws say what each read takes from the stream, interpreted on byte lists.  Lazily cached accessors
    keep their flags and values in the object, as the Go code does.  \<^verbatim>\<open>Frames\<close>: the parser implements
    an abstract reading of the bytes, encoding and parsing are inverse, the accessors answer the
    header fields in any order of calls.
  \<^item> \<^verbatim>\<open>Registry\<close> (\<^verbatim>\<open>core/registry\<close>, \<^verbatim>\<open>core/security\<close>): the satellites, the demo key, the signature check.
    Ed25519 is the record \<^verbatim>\<open>ed25519_lib\<close>, its laws \<^verbatim>\<open>ed25519_ok\<close>.
  \<^item> \<^verbatim>\<open>Chain_Client\<close>, \<^verbatim>\<open>Submitter\<close>, \<^verbatim>\<open>Watcher\<close> (\<^verbatim>\<open>core/chain\<close>): intents and nonces; the buffered submitter
    as operations and as critical sections that interleave with its timer and running submissions (no
    intent is lost or doubled, batches respect the cap), behind the locale \<^verbatim>\<open>enqueuer\<close>; the polling
    watcher, which hands on every log of the blocks its cursor crosses once, in order.
  \<^item> \<^verbatim>\<open>Receipt_Builder\<close>, \<^verbatim>\<open>Receipt_Store\<close>, \<^verbatim>\<open>Store_Durability\<close>, \<^verbatim>\<open>Processor\<close> (\<^verbatim>\<open>core/receipt\<close>): the PacketC
    frame; the store with its file, behind the locale \<^verbatim>\<open>settlement_queue\<close>, and what a restart or a
    torn write makes of it; \<^verbatim>\<open>Handle\<close> as one call and as the atomic sections of concurrent calls.
    \<^verbatim>\<open>Handle_Locks\<close>: the same calls instruction by instruction with the mutexes of processor and store;
    mutual exclusion, no deadlock, a bound on the length of runs, and a simulation by the atomic sections.
    The JSON codec is the record \<^verbatim>\<open>json_codec\<close> with the laws \<^verbatim>\<open>json_ok\<close> and \<^verbatim>\<open>json_compact\<close>; an executable
    codec that meets them carries the concrete runs.
  \<^item> \<^verbatim>\<open>Gin_Context\<close>, \<^verbatim>\<open>Ingest\<close>, \<^verbatim>\<open>Egress\<close> (\<^verbatim>\<open>api/handlers\<close>): the three handlers with every answer they give.
    The ingest handler implements a verdict on the bytes of the frame; only signed intents reach the
    submitter; corrupted frames are rejected; acknowledged receipts are never offered again.
    \<^verbatim>\<open>bouncer_rounds\<close> is the contract the endpoints are made for, a specification and not code of the repository.
  \<^item> \<^verbatim>\<open>Receipt_Pipeline\<close>, \<^verbatim>\<open>Server\<close>, \<^verbatim>\<open>Gateway_Run\<close> (\<^verbatim>\<open>cmd/server/main.go\<close>): the watcher goroutine with its
    callback, configuration and start-up, the routes, and the running server as a labelled step
    relation on the shared state, with its invariant.
  \<^item> \<^verbatim>\<open>Escrow\<close> (\<^verbatim>\<open>contracts/src/Escrow.sol\<close>): the contract as a function on its storage, all or nothing; its
    ledger under arbitrary callers; its events as the logs the watcher decodes.  The node between
    client and contract is the locale \<^verbatim>\<open>escrow_node\<close> (each call executes the batch or does nothing, and
    may report wrongly) and its extension \<^verbatim>\<open>live_node\<close> (a batch the contract accepts is executed),
    interpreted on a simulated chain: the submitter's retry settles nothing twice.  Both are closed worlds: only
    the gateway's calls move the contract.
  \<^item> \<^verbatim>\<open>Settlement_Run\<close>: the running server and the contract together.  Only signed payments settle, the
    intents fit the contract's types, and a replayed payment costs its whole batch.
  \<^item> \<^verbatim>\<open>Packet_Generator\<close> (\<^verbatim>\<open>test/utils/generate_packets.go\<close>): the golden wire vectors byte by byte, what the
    gateway answers to each of them, and the receipt builder as the generator's equal.
  \<^item> \<^verbatim>\<open>Egress_Scanner\<close> (\<^verbatim>\<open>ground-station/src/egress_json.cpp\<close>, \<^verbatim>\<open>egress_hex.cpp\<close>): the scanner of the ground
    station index by index, where a read outside the text and a store outside a bucket or the record array is a
    panic; it is equal to a reading of the remaining text, and none of these happens on any input.  \<^verbatim>\<open>Egress_Page\<close>: the JSON page that the
    gateway writes and what the scanner makes of it.
  \<^item> \<^verbatim>\<open>Egress_Client\<close> (\<^verbatim>\<open>egress_poll_client.cpp\<close>, \<^verbatim>\<open>egress_orchestrator.h\<close>): requests, responses and one tick of the
    orchestrator; a response as \<^verbatim>\<open>net/http\<close> writes it.  \<^verbatim>\<open>Egress_Drain\<close>: the tick on the gateway's own
    handlers, over a connection that is the locale \<^verbatim>\<open>egress_link\<close>, interpreted on a network that hands each request
    to its handler.  A tick implements the bouncer's round for a callback that tells the truth, and a page of
    more than 2048 bytes stalls the station for good.
  \<^item> \<^verbatim>\<open>Ack_Builder\<close>, \<^verbatim>\<open>Ground_Station\<close> (\<^verbatim>\<open>ack_builder.cpp\<close>, \<^verbatim>\<open>bouncer.cpp\<close>, \<^verbatim>\<open>gateway_client.cpp\<close> and the serial bridge
    of \<^verbatim>\<open>main.cpp\<close>): the acknowledgement frame, which the gateway's parser reads back and which is the golden
    vector on its inputs; the receive loop, the bouncer and the lines to the radio board.
  \<^item> \<^verbatim>\<open>Station_Drain\<close> (\<^verbatim>\<open>main.cpp\<close>, \<^verbatim>\<open>serial_hal.cpp\<close>): the poll thread with the callback it really has, a line on the
    serial port.  It is simulated by the tick with a truthful callback (locale \<^verbatim>\<open>client_simulation\<close>); from there:
    when the queue is drained and when it stalls, that a failed write costs the receipt, and the way of a
    settlement from the chain to the serial line.
  \<^item> This theory: properties of the whole, from a start of the server to the stored receipt and the paid slot.

  \<^bold>\<open>Conventions.\<close>  A pointer to shared state is passed as state; \<^verbatim>\<open>None\<close> is a nil pointer.  What the
  environment decides is an argument: the result of reading a request body or of binding it as JSON,
  the fate of a write (\<^verbatim>\<open>io_fate\<close>) and of opening the file (\<^verbatim>\<open>load_fate\<close>), the answers of the node (a state
  threaded through its calls), the interleaving of goroutines.  The watcher's loop ends with the
  context, after a number of ticks that is an argument of \<^verbatim>\<open>Run\<close>; every other loop of the program is
  recursion on its data.  No definition needs fuel.  Log lines are not modelled, with the exception
  of the submitter's outcome lines and the receipt errors, which are kept as values.

  \<^bold>\<open>Hypotheses.\<close>  \<^verbatim>\<open>honest_node\<close>: one history of logs without reorganisation, and a node that answers a
  query up to a head it has reported with exactly the logs in range.  \<^verbatim>\<open>escrow_history\<close>: logs of the sizes
  the contract's ABI gives them.  \<^verbatim>\<open>escrow_node\<close>: nobody but the gateway calls the contract.  \<^verbatim>\<open>clean\<close>: a failed
  write left no byte in the file, neither a partial line nor a line whose sync failed (the torn write is the
  subject of its own property).  \<^verbatim>\<open>address_ok\<close>: addresses of the Ethereum library have 20 bytes and are
  the tail of their 32-byte topic.  A request body is shorter than 2^63 bytes, the range of Go's \<^verbatim>\<open>int\<close>.
  \<^verbatim>\<open>http_ok\<close>: header lines hold no line break and none but the framing line announces a length.
  \<^verbatim>\<open>wire_receipt\<close>: the shape of the receipts the gateway stores, shown to hold for them when addresses print as hexadecimal (\<^verbatim>\<open>address_plain\<close>).

  \<^bold>\<open>Not modelled.\<close>  The \<^verbatim>\<open>IO_\<close> accessors and the empty constructors of the generated types, which no code
  calls or which only make the zero object the model starts from; \<^verbatim>\<open>prettyPrintStruct\<close>, which is never called; logging.  gin's
  routing beyond the three routes, gas and block production, go-ethereum, Ed25519, \<^verbatim>\<open>encoding/json\<close> and the kaitai runtime are
  parameters with their laws.  \<^verbatim>\<open>test/test_run.go\<close> only posts a file and prints the answer.  Of the
  ground station the command line with its test command, the threads and their timing, the sockets, opening
  and reading the serial port and its Windows variant, and \<^verbatim>\<open>format_json\<close>, which nothing calls.  Outside the Go program: the C++ firmware and core library, the sample contract
  \<^verbatim>\<open>HelloWorld.sol\<close> and the documents.  Of the generated enumerations the sets of values are modelled, the
  named constants are not: no code mentions them.
\<close>

section \<open>A second life of the receipt part\<close>

definition fresh_pipeline :: "processor \<Rightarrow> store \<Rightarrow> io_fate list \<Rightarrow> pipeline" where
  "fresh_pipeline p s fates = \<lparr>pl_proc = p, pl_store = s, pl_fates = fates, pl_errors = [], pl_panicked = False\<rparr>"

lemma startReceiptWatcher_again:
  assumes "startReceiptWatcher js abi env fs contract = (Ok (p, s, w), es)"
    and "mkdir_parent fs' (st_path s) = None" and "open_fate fs' = Loads"
    and "NewStore js Loads (st_path s) (contents fs' (st_path s)) = Ok s'"
  shows "startReceiptWatcher js abi env fs' contract = (Ok (p, s', w), Some s')"
proof -
  have path: "st_path s = Getenv_or env ''VOID_RECEIPTS_PATH'' defaultReceiptsPath"
    using startReceiptWatcher_Ok(8) [OF assms(1)] by (rule NewStore_path)
  show ?thesis
    using assms unfolding path
    by (auto simp: startReceiptWatcher_def Let_def NewProcessor_def NewWatcher_def
        split: option.splits outcome.splits prod.splits if_splits)
qed

lemma unique_receipt:
  assumes "distinct (map record_key rs)" and "key \<in> record_key ` set rs"
  shows "\<exists>!r. r \<in> set rs \<and> record_key r = key"
  using assms by (auto simp: distinct_map inj_on_def)

section \<open>Properties\<close>

text \<open>
  C4.  Recovery by restart.  Let the receipt part start on a store in a good state, run over an honest node through
  any sequence of polls, with any writes failing that leave no byte in the file (no partial line, no failed
  sync), and stop or crash anywhere between two operations.  It starts again on the file that is left, with every receipt in its place and
  status.  Its watcher begins at block 0, so the settlements are seen again: those with a receipt are
  recognised and skipped, those whose write had failed get theirs.  After a run without failures
  every settlement of the crossed blocks has exactly one receipt, and the receipts of the first life
  are untouched.
\<close>

theorem restart_recovers_lost_receipts:
  assumes "libraries_ok ed eth js" and "honest_node cl contract topic hist" and "escrow_history hist"
    and "startReceiptWatcher js abi env fs contract = (Ok (p, s, w), es)" and "abi ''SettlementCreated'' = Some topic"
    and "drainable js s" and "seed_ok p" and "\<forall>f \<in> set fates. clean f"
    and "run_receipts ed eth js cl ticks w c (fresh_pipeline p s fates) = (err, w1, c1, y)"
    and "mkdir_parent fs' (st_path s) = None" and "open_fate fs' = Loads" and "contents fs' (st_path s) = disk (pl_store y)"
  shows "\<exists>s'. startReceiptWatcher js abi env fs' contract = (Ok (p, s', w), Some s') \<and>
    settlements s' = settlements (pl_store y) \<and>
    (\<forall>ticks' c' err' w2 c2 z. run_receipts ed eth js cl ticks' w c' (fresh_pipeline p s' []) = (err', w2, c2, z) \<longrightarrow>
       pl_errors z = [] \<and> (\<exists>new. settlements (pl_store z) = settlements (pl_store y) @ new) \<and>
       (\<forall>l \<in> set (logs_between hist 0 (NextBlock w2)).
          \<exists>!r. r \<in> set (settlements (pl_store z)) \<and> record_key r = log_key eth l))"
proof -
  note start = startReceiptWatcher_Ok [OF assms(4)]
  have hon: "honest_node cl (w_contract w) (eventTopic w) hist"
    using assms(2,5) start(3,4) by simp
  have inv: "pipeline_inv js (fresh_pipeline p s fates)"
    using assms(6-8) by (simp add: pipeline_inv_def fresh_pipeline_def)
  obtain events where "recorded ed eth js events (fresh_pipeline p s fates) y"
    using run_receipts_recorded [OF assms(1) inv hon assms(3,9)] by blast
  then have y: "drainable js (pl_store y)" by (simp add: recorded_def pipeline_inv_def)
  let ?s = "(pl_store y)\<lparr>st_path := st_path s, is_open := True\<rparr>"
  have "NewStore js Loads (st_path s) (contents fs' (st_path s)) = Ok ?s"
    using reload_durable [of js "pl_store y" "st_path s"] assms(1,12) y by (simp add: libraries_ok_def drainable_def)
  then have again: "startReceiptWatcher js abi env fs' contract = (Ok (p, ?s, w), Some ?s)"
    by (rule startReceiptWatcher_again [OF assms(4,10,11)])
  have same: "settlements ?s = settlements (pl_store y)" by (simp add: settlements_def)
  have "drainable js ?s" using y same by (simp add: drainable_def durable_def store_inv_def settlements_def)
  then have inv2: "pipeline_inv js (fresh_pipeline p ?s [])"
    using assms(7) by (simp add: pipeline_inv_def fresh_pipeline_def)
  have second: "pl_errors z = [] \<and> (\<exists>new. settlements (pl_store z) = settlements (pl_store y) @ new) \<and>
      (\<forall>l \<in> set (logs_between hist 0 (NextBlock w2)).
          \<exists>!r. r \<in> set (settlements (pl_store z)) \<and> record_key r = log_key eth l)"
    if run: "run_receipts ed eth js cl ticks' w c' (fresh_pipeline p ?s []) = (err', w2, c2, z)" for ticks' c' err' w2 c2 z
  proof -
    obtain events where rec: "recorded ed eth js events (fresh_pipeline p ?s []) z"
      and ev: "map untimed events = map (event_of eth) (logs_between hist 0 (NextBlock w2))"
      using run_receipts_recorded [OF assms(1) inv2 hon assms(3) run] start(2) by (auto simp: NextBlock_def)
    have z: "distinct (map record_key (settlements (pl_store z)))"
      using rec drainable_distinct [of js "pl_store z"] by (simp add: recorded_def pipeline_inv_def)
    have "log_key eth ` set (logs_between hist 0 (NextBlock w2)) \<subseteq> record_key ` set (settlements (pl_store z))"
      using recorded_keys [OF rec] event_keys_of_logs [OF ev] by (simp add: fresh_pipeline_def)
    then have "\<forall>l \<in> set (logs_between hist 0 (NextBlock w2)).
        \<exists>!r. r \<in> set (settlements (pl_store z)) \<and> record_key r = log_key eth l"
      by (intro ballI unique_receipt [OF z]) (rule subsetD, assumption, rule imageI)
    moreover have "pl_errors z = []" "\<exists>new. settlements (pl_store z) = settlements (pl_store y) @ new"
      using rec same by (auto simp: recorded_def fresh_pipeline_def)
    ultimately show ?thesis by (intro conjI)
  qed
  show ?thesis
    by (rule exI [of _ ?s]) (intro conjI allI impI again same second)
qed

lemma demo_cursor_run: "NextBlock (fst (snd (Run eth demo_node handler 0 demo_cursor 3 h))) = 4"
  by (simp add: Run.simps Poll_def demo_cursor_def demo_node_def log_node_def demo_hist_def demo_log_simps NextBlock_def
      word_le_nat_alt word_less_nat_alt)

theorem restart_recovers_lost_receipts_witness:
  "\<exists>y s' z. snd (snd (snd (run_receipts demo_ed demo_eth demo_js demo_node 0 demo_cursor 3
       (fresh_pipeline demo_seller (empty_store defaultReceiptsPath) [WriteError 0 ''disk full''])))) = y \<and>
     startReceiptWatcher demo_js demo_abi demo_env (demo_fs\<lparr>contents := (\<lambda>path. disk (pl_store y))\<rparr>)
       (HexToAddress demo_eth ''0x0102'') = (Ok (demo_seller, s', demo_cursor), Some s') \<and>
     snd (snd (snd (run_receipts demo_ed demo_eth demo_js demo_node 0 demo_cursor 3 (fresh_pipeline demo_seller s' [])))) = z \<and>
     (\<forall>l \<in> {demo_log 1, demo_log 3}. \<exists>!r. r \<in> set (settlements (pl_store z)) \<and> record_key r = log_key demo_eth l)"
proof -
  let ?x = "fresh_pipeline demo_seller (empty_store defaultReceiptsPath) [WriteError 0 ''disk full'']"
  obtain err w1 c1 y where first: "run_receipts demo_ed demo_eth demo_js demo_node 0 demo_cursor 3 ?x = (err, w1, c1, y)"
    by (metis surj_pair)
  let ?fs = "demo_fs\<lparr>contents := (\<lambda>path. disk (pl_store y))\<rparr>"
  have topic: "demo_abi ''SettlementCreated'' = Some (replicate 32 7)" by (simp add: demo_abi_def)
  have seed: "seed_ok demo_seller" using demo_server_laws by (simp add: demo_server_def demo_server_on_def)
  have fates: "\<forall>f \<in> set [WriteError 0 ''disk full'']. clean f" by (simp add: clean_def)
  have fs: "mkdir_parent ?fs (st_path (empty_store defaultReceiptsPath)) = None" "open_fate ?fs = Loads"
    "contents ?fs (st_path (empty_store defaultReceiptsPath)) = disk (pl_store y)"
    by (simp_all add: demo_fs_def)
  obtain s' where again: "startReceiptWatcher demo_js demo_abi demo_env ?fs (HexToAddress demo_eth ''0x0102'')
        = (Ok (demo_seller, s', demo_cursor), Some s')"
    and second: "\<And>err' w2 c2 z. run_receipts demo_ed demo_eth demo_js demo_node 0 demo_cursor 3 (fresh_pipeline demo_seller s' [])
        = (err', w2, c2, z) \<Longrightarrow> \<forall>l \<in> set (logs_between demo_hist 0 (NextBlock w2)).
          \<exists>!r. r \<in> set (settlements (pl_store z)) \<and> record_key r = log_key demo_eth l"
    using restart_recovers_lost_receipts [OF demo_libraries_ok demo_node_honest demo_history demo_receipts_start topic
        drainable_empty seed fates first fs]
    by (elim exE conjE) (rule that, assumption, blast)
  obtain err' w2 c2 z where z: "run_receipts demo_ed demo_eth demo_js demo_node 0 demo_cursor 3 (fresh_pipeline demo_seller s' [])
      = (err', w2, c2, z)" by (metis surj_pair)
  have "NextBlock w2 = 4"
    using z demo_cursor_run [of demo_eth "on_event demo_ed demo_eth demo_js"] by (metis run_receipts_def fst_conv snd_conv)
  moreover have "set (logs_between demo_hist 0 4) = {demo_log 1, demo_log 3}"
    by (auto simp: logs_between_def demo_hist_def demo_log_def word_less_nat_alt)
  ultimately show ?thesis
    using first again z second [OF z]
    by (intro exI [of _ y] exI [of _ s'] exI [of _ z]) simp
qed

text \<open>
  C16.  The receipt answers the payment.  Let a frame have been settled as an intent, and let an event of
  the chain carry that intent's nonce, as the contract's event does.  The receipt that is stored for
  the event holds, in hexadecimal, a frame that the gateway's parser reads as a PacketC; its
  transaction id is the timestamp bytes of the payment frame, its execution time the time of the
  block in milliseconds, its signature verifies under the seller's key, and the payment id of the
  record is the number made of the payer's satellite id and that timestamp.
\<close>

theorem receipt_answers_payment:
  assumes "kaitai_stream k view" and "ed25519_ok ed" and "seed_ok p"
    and "settles ed eth db raw i" and "ev_TxNonce ev = in_TxNonce i" and "receipt_of ed eth p ev r"
  shows "\<exists>h frame obj st b. h \<in> {6, 14} \<and> DecodeString (PacketCHex r) = Ok frame \<and> parse_frame k frame = Ok (obj, st) \<and>
    Body obj = PacketCBody b \<and> pc_EncTxId b = le_word (seg raw (h + 2) (h + 10)) \<and>
    pc_ExecTime b = ev_BlockTimeSec ev * 1000 \<and>
    Verify ed (Public ed (NewKeyFromSeed ed (p_seed p))) (seg frame 14 40) (sig_Raw (pc_Signature b)) \<and>
    dec_value (PaymentID r) = unat (le_word (seg raw (h + 98) (h + 102)) :: u32) * 2 ^ 64
      + unat (le_word (seg raw (h + 2) (h + 10)) :: u64)"
proof -
  obtain h where h: "h \<in> {6, 14}" "in_SatId i = le_word (seg raw (h + 98) (h + 102))"
    "in_TxNonce i = DeriveTxNonce (in_SatId i) (le_word (seg raw (h + 2) (h + 10)))"
    using assms(4) unfolding settles_def by blast
  obtain seq where r: "r = (receipt_for eth ev (built ed p seq ev))\<lparr>DispatchStatus := StatusPending\<rparr>"
    using assms(6) by (auto simp: receipt_of_def)
  obtain obj st b where f: "parse_frame k (built ed p seq ev) = Ok (obj, st)" "Body obj = PacketCBody b"
    "pc_ExecTime b = ev_BlockTimeSec ev * 1000" "pc_EncTxId b = word_of_nat (ev_TxNonce ev)"
    "Verify ed (Public ed (NewKeyFromSeed ed (p_seed p))) (seg (built ed p seq ev) 14 40) (sig_Raw (pc_Signature b))"
    using built_accepted [OF assms(2,3,1), of seq ev] by blast
  have "pc_EncTxId b = le_word (seg raw (h + 2) (h + 10))"
    using f(4) Uint64_DeriveTxNonce [of "in_SatId i" "le_word (seg raw (h + 2) (h + 10))"]
    by (simp only: assms(5) h(3) Uint64_def)
  moreover have "DecodeString (PacketCHex r) = Ok (built ed p seq ev)"
    by (simp add: r receipt_for_def DecodeString_EncodeToString)
  moreover have "dec_value (PaymentID r) = unat (le_word (seg raw (h + 98) (h + 102)) :: u32) * 2 ^ 64
      + unat (le_word (seg raw (h + 2) (h + 10)) :: u64)"
  proof -
    have "dec_value (PaymentID r) = in_TxNonce i"
      by (simp add: r receipt_for_def payment_id_def dec_value_dec_string assms(5))
    then show ?thesis by (simp only: h(3) DeriveTxNonce_arith h(2))
  qed
  ultimately show ?thesis
    using h(1) f(1,2,3,5)
    by (intro exI [of _ h] exI [of _ "built ed p seq ev"] exI [of _ obj] exI [of _ st] exI [of _ b] conjI)
qed

theorem receipt_answers_payment_witness:
  "\<exists>i ev r frame obj st b. settles demo_ed demo_eth demo_db (demo_payment_frame demo_payment_sig) i \<and>
     ev_TxNonce ev = in_TxNonce i \<and> receipt_of demo_ed demo_eth demo_processor ev r \<and>
     DecodeString (PacketCHex r) = Ok frame \<and> parse_frame bytes_rt frame = Ok (obj, st) \<and> Body obj = PacketCBody b"
proof -
  obtain i where run: "IngestPacket bytes_rt demo_ed demo_eth demo_db (#) (Inr (demo_payment_frame demo_payment_sig))
      (Some []) NewContext = Ok (Some [i], \<lparr>responses = [(200, AcceptedReply 123 ''Community (SNLP)'')], aborted = False\<rparr>)"
    using demo_payment_run by blast
  have sz: "int (length (demo_payment_frame demo_payment_sig)) < 2 ^ 63"
    using packet_b_body_layout.length_enc [OF demo_payment_facts(2)]
    by (simp add: demo_payment_frame_def header_len_def)
  have i: "settles demo_ed demo_eth demo_db (demo_payment_frame demo_payment_sig) i"
    using ingest_enqueues [OF bytes_stream.kaitai_stream_axioms sz run] by auto
  let ?ev = "demo_event\<lparr>ev_TxNonce := in_TxNonce i\<rparr>"
  let ?r = "(receipt_for demo_eth ?ev (built demo_ed demo_processor 0 ?ev))\<lparr>DispatchStatus := StatusPending\<rparr>"
  have nonce: "ev_TxNonce ?ev = in_TxNonce i" by simp
  have r: "receipt_of demo_ed demo_eth demo_processor ?ev ?r" by (auto simp: receipt_of_def)
  from receipt_answers_payment [OF bytes_stream.kaitai_stream_axioms demo_ed_ok demo_processor_ok(1) i nonce r]
  obtain frame obj st b where "DecodeString (PacketCHex ?r) = Ok frame" "parse_frame bytes_rt frame = Ok (obj, st)"
    "Body obj = PacketCBody b" by blast
  with i nonce r show ?thesis by blast
qed

text \<open>
  C33.  A flat-sat payment is paid.  Start the gateway, whatever the environment as long as the on-chain
  part is on, against a live node whose contract has not seen the payment's nonce and is called by nobody else.  A PacketB of
  the flat-sat identity in USDC, signed with the demo seed over its header and the first 106 bytes of
  its body, gets 200 from the ingest route; when the submitter's timer fires it is settled at the
  first attempt: the slot of the nonce made of its satellite and timestamp holds its amount and the
  demo wallet, no other slot has changed, and the one new log is read by the watcher as the
  settlement of exactly this payment in exactly this transaction.
\<close>

theorem started_gateway_settles_demo_payments:
  assumes "kaitai_stream k view" and "ed25519_ok ed" and "address_ok eth" and "live_node transact sl lg topic"
    and "start_server ed eth js rpc abi env fs w0 c0 = Ok sv" and "sv_submitter sv = Some x"
    and "flat_sat_signed ed snlp v w b" and "raw = frame_bytes snlp v w (encode_PacketBBody b)" and "i = flat_sat_intent eth b"
    and "in_AssetId i = 1" and "in_Wallet i \<noteq> zero_address" and "es_status (sl w0 (ei_txNonce (abi_intent i))) = NONE"
  shows "\<exists>sv1 sv2 y h l. serve k ed eth js (SettleBatch transact) fate (ingest_request raw) sv
      = Ok (sv1, \<lparr>responses = [(200, AcceptedReply (uint (v AND 2047))
          (if snlp then ''Community (SNLP)'' else ''Enterprise (CCSDS)''))], aborted = False\<rparr>) \<and>
    server_step k ed eth js (SettleBatch transact) cl sv1 TimerFired sv2 \<and> sv_submitter sv2 = Some y \<and>
    sw_log y = [SettleOk 1 h 1] \<and> accepted_intents y = [i] \<and>
    sl (sw_chain y) = (sl w0)(word_of_nat (DeriveTxNonce FlatSatDemoSatID (pb_EpochTs b)) :=
      \<lparr>es_satId = FlatSatDemoSatID, es_amount = word_of_nat (in_Amount i), es_assetId = 1,
       es_txNonce = word_of_nat (DeriveTxNonce FlatSatDemoSatID (pb_EpochTs b)), es_wallet = HexToAddress eth FlatSatDemoWallet,
       es_status = PENDING\<rparr>) \<and>
    lg (sw_chain y) = lg w0 @ [l] \<and> decodeSettlementCreated eth l = Inr (event_for i h (log_BlockNumber l))"
proof -
  let ?client = "SettleBatch transact"
  note start = start_server_Ok [OF assms(5)]
  have x: "x = \<lparr>sw_sub = NewBufferedSubmitter DefaultMaxBatch DefaultInterval, sw_chain = w0, sw_batches = [], sw_log = []\<rparr>"
    using start(4) assms(6) by auto
  then have room: "\<not> closed (sw_sub x)" "int (length (buf (sw_sub x))) + 1 < maxBatch (sw_sub x)" "buf (sw_sub x) = []"
    by (simp_all add: NewBufferedSubmitter_def DefaultMaxBatch_def)
  define x1 where "x1 = Enqueue ?client i x"
  have x1: "sw_chain x1 = w0" "sw_batches x1 = []" "buf (sw_sub x1) = [i]" "\<not> closed (sw_sub x1)" "sw_log x1 = []"
    using Enqueue_room [OF room(1,2), of ?client i] room x unfolding x1_def by simp_all
      (simp add: Enqueue_def enqueue_locked_def NewBufferedSubmitter_def DefaultMaxBatch_def)
  have enc: "encodable i" by (simp add: assms(9) flat_sat_encodable [OF assms(3)])
  have free: "entry_error (sl (sw_chain x1)) (abi_intent i) = None"
    using assms(10-12) x1(1) by (simp add: entry_error_None) (simp add: abi_intent_def)
  from timer_settles_one [OF assms(4,3) enc x1(4,3) free] x1 obtain h l where
    y: "sw_log (onTimer ?client x1) = [SettleOk 1 h 1]" "sl (sw_chain (onTimer ?client x1)) = write_slot (abi_intent i) (sl w0)"
      "lg (sw_chain (onTimer ?client x1)) = lg w0 @ [l]" "decodeSettlementCreated eth l = Inr (event_for i h (log_BlockNumber l))"
    by auto
  let ?sv1 = "sv\<lparr>sv_submitter := Some x1\<rparr>"
  have step: "server_step k ed eth js ?client cl ?sv1 TimerFired (?sv1\<lparr>sv_submitter := Some (onTimer ?client x1)\<rparr>)"
    by (rule server_step.timer) simp
  have acc: "accepted_intents (onTimer ?client x1) = [i]"
    using x1(2-4) onTimer_submits(1) [OF x1(4), of ?client]
    by (simp add: accepted_intents_def) (simp add: onTimer_def onTimer_locked_def stealLocked_def)
  have nonce: "ei_txNonce (abi_intent i) = word_of_nat (DeriveTxNonce FlatSatDemoSatID (pb_EpochTs b))"
    by (simp add: assms(9) flat_sat_intent_def abi_intent_def)
  have slot: "stored_slot (abi_intent i) = \<lparr>es_satId = FlatSatDemoSatID, es_amount = word_of_nat (in_Amount i), es_assetId = 1,
      es_txNonce = word_of_nat (DeriveTxNonce FlatSatDemoSatID (pb_EpochTs b)), es_wallet = HexToAddress eth FlatSatDemoWallet,
      es_status = PENDING\<rparr>"
    using assms(10) by (simp add: stored_slot_def abi_intent_def assms(9) flat_sat_intent_def)
  note req = flat_sat_request [OF assms(1,2,7) start(1) assms(6), of eth js ?client fate, folded assms(8,9), folded x1_def]
  show ?thesis
    by (rule exI [of _ ?sv1], rule exI [of _ "?sv1\<lparr>sv_submitter := Some (onTimer ?client x1)\<rparr>"],
        rule exI [of _ "onTimer ?client x1"], rule exI [of _ h], rule exI [of _ l])
      (use req step acc y nonce slot in \<open>simp add: write_slot_def\<close>)
qed

theorem started_gateway_settles_demo_payments_witness:
  "\<exists>sv1 sv2 y h l. serve bytes_rt demo_ed demo_eth demo_js sim_client Stored (ingest_request flat_sat_frame) (demo_server_on sim_deployed)
      = Ok (sv1, \<lparr>responses = [(200, AcceptedReply 123 ''Community (SNLP)'')], aborted = False\<rparr>) \<and>
     server_step bytes_rt demo_ed demo_eth demo_js sim_client (log_node []) sv1 TimerFired sv2 \<and> sv_submitter sv2 = Some y \<and>
     sw_log y = [SettleOk 1 h 1] \<and> accepted_intents y = [demo_flat_sat_intent] \<and> sim_logs (sw_chain y) = [l] \<and>
     decodeSettlementCreated demo_eth l = Inr (event_for demo_flat_sat_intent h (log_BlockNumber l))"
proof -
  have x: "sv_submitter (demo_server_on sim_deployed) = Some demo_submitter" by (simp add: demo_server_on_def demo_submitter_def)
  have free: "es_status (sim_slots sim_deployed (ei_txNonce (abi_intent demo_flat_sat_intent))) = NONE"
    by (simp add: sim_deployed_def no_settlements_def zero_slot_def)
  from started_gateway_settles_demo_payments [OF bytes_stream.kaitai_stream_axioms demo_ed_ok demo_address_ok
      sim.live_node_axioms [of "replicate 32 7"] demo_start x flat_sat_demo_signed HOL.refl HOL.refl,
      folded demo_flat_sat_intent_def demo_payment_frame_def, folded flat_sat_frame_def, OF demo_intent_fields(1,2) free,
      where fate = Stored and cl = "log_node []"]
  obtain sv1 sv2 y h l where run: "serve bytes_rt demo_ed demo_eth demo_js sim_client Stored (ingest_request flat_sat_frame)
      (demo_server_on sim_deployed) = Ok (sv1, \<lparr>responses = [(200, AcceptedReply (uint ((2171 :: u16) AND 2047))
        (if True then ''Community (SNLP)'' else ''Enterprise (CCSDS)''))], aborted = False\<rparr>)"
    "server_step bytes_rt demo_ed demo_eth demo_js sim_client (log_node []) sv1 TimerFired sv2" "sv_submitter sv2 = Some y"
    "sw_log y = [SettleOk 1 h 1]" "accepted_intents y = [demo_flat_sat_intent]"
    "sim_logs (sw_chain y) = sim_logs sim_deployed @ [l]"
    "decodeSettlementCreated demo_eth l = Inr (event_for demo_flat_sat_intent h (log_BlockNumber l))"
    by (elim exE conjE) (rule that)
  have "uint ((2171 :: u16) AND 2047) = 123" by code_simp
  with run show ?thesis
    by (intro exI [of _ sv1] exI [of _ sv2] exI [of _ y] exI [of _ h] exI [of _ l]) (simp add: sim_deployed_def [symmetric], simp add: sim_deployed_def)
qed

end
